(* ===== verification/Ledger_Prelude.thy ===== *)
theory Ledger_Prelude
  imports Main "HOL-Library.Word" "HOL-Library.List_Lexorder" "HOL-Library.Char_ord"
begin

text \<open>
  Shared vocabulary of the development.

  \<^item> Exceptions: \<open>exn\<close> has one constructor per C++ exception class that the code tells apart
    in a \<open>catch\<close> clause, and \<open>UndefinedBehaviour\<close> for an operation whose precondition the
    caller broke (an index out of range, a null pointer); the latter is no exception and no
    handler sees it. \<open>ExitProcess\<close> is a call of \<open>exit\<close>, which no handler sees either.
  \<^item> Stateful code: \<open>('st, 'a) cm\<close> is a function from the state to a result or an exception,
    together with the state that is left behind (an exception does not roll back state).
  \<^item> \<open>runs m s Q\<close>: \<open>m\<close> started in \<open>s\<close> returns normally, and the result and final state satisfy
    \<open>Q\<close> (total correctness). The collection \<open>runs_rules\<close> computes it through the combinators.
  \<^item> \<open>std::set\<close> is a strictly ascending list (\<open>insort_insert\<close> inserts, \<open>filter\<close> erases) and
    \<open>std::map\<close> is an association list in ascending key order (\<open>map_at\<close> is \<open>m[k]\<close> used as a
    place that is assigned), because the code iterates over both in order.
\<close>

section \<open>Exceptions\<close>

type_synonym bytes = string

datatype exn =
    RuntimeError string
  | TlvError string
  | StdException string
  | LedgerError nat string
  | UndefinedBehaviour string
  | ExitProcess nat

text \<open>What \<open>catch (const std::exception&)\<close> and \<open>catch (const std::runtime_error&)\<close> catch.
  \<open>StdException\<close> is any other standard exception. \<open>ndn::tlv::Error\<close> derives from \<open>std::invalid_argument\<close>; \<open>cledger::Error\<close> derives from
  nothing.\<close>

fun is_std_exception :: "exn \<Rightarrow> bool" where
  "is_std_exception (RuntimeError _) = True"
| "is_std_exception (TlvError _) = True"
| "is_std_exception (StdException _) = True"
| "is_std_exception (LedgerError _ _) = False"
| "is_std_exception (UndefinedBehaviour _) = False"
| "is_std_exception (ExitProcess _) = False"

fun is_runtime_error :: "exn \<Rightarrow> bool" where
  "is_runtime_error (RuntimeError _) = True"
| "is_runtime_error _ = False"

definition of_option :: "exn \<Rightarrow> 'a option \<Rightarrow> exn + 'a" where
  "of_option e x = (case x of None \<Rightarrow> Inl e | Some y \<Rightarrow> Inr y)"

lemma of_option_simps [simp]:
  "of_option e None = Inl e" "of_option e (Some y) = Inr y"
  by (simp_all add: of_option_def)

lemma of_option_eq_Inr [simp]: "of_option e x = Inr y \<longleftrightarrow> x = Some y"
  by (cases x) auto

definition bindE :: "exn + 'a \<Rightarrow> ('a \<Rightarrow> exn + 'b) \<Rightarrow> exn + 'b" where
  "bindE m f = (case m of Inl e \<Rightarrow> Inl e | Inr x \<Rightarrow> f x)"

lemma bindE_simps [simp]: "bindE (Inl e) f = Inl e" "bindE (Inr x) f = f x"
  by (simp_all add: bindE_def)

lemma bindE_eq_Inr: "bindE m f = Inr y \<longleftrightarrow> (\<exists>x. m = Inr x \<and> f x = Inr y)"
  by (cases m) auto

text \<open>A range-based \<open>for\<close> loop that threads an accumulator and may throw.\<close>

primrec foldE :: "('a \<Rightarrow> 'b \<Rightarrow> exn + 'a) \<Rightarrow> 'a \<Rightarrow> 'b list \<Rightarrow> exn + 'a" where
  "foldE f a [] = Inr a"
| "foldE f a (x # xs) = bindE (f a x) (\<lambda>a'. foldE f a' xs)"

lemma foldE_append: "foldE f a (xs @ ys) = bindE (foldE f a xs) (\<lambda>a'. foldE f a' ys)"
proof (induction xs arbitrary: a)
  case (Cons x xs)
  then show ?case by (cases "f a x") simp_all
qed simp

section \<open>Stateful computations that may throw\<close>

type_synonym ('st, 'a) cm = "'st \<Rightarrow> (exn + 'a) \<times> 'st"

definition ret :: "'a \<Rightarrow> ('st, 'a) cm" where
  "ret x = (\<lambda>s. (Inr x, s))"

definition raise :: "exn \<Rightarrow> ('st, 'a) cm" where
  "raise e = (\<lambda>s. (Inl e, s))"

definition bindM :: "('st, 'a) cm \<Rightarrow> ('a \<Rightarrow> ('st, 'b) cm) \<Rightarrow> ('st, 'b) cm" where
  "bindM m f = (\<lambda>s. case m s of (Inl e, s') \<Rightarrow> (Inl e, s') | (Inr x, s') \<Rightarrow> f x s')"

definition catchM :: "('st, 'a) cm \<Rightarrow> (exn \<Rightarrow> bool) \<Rightarrow> (exn \<Rightarrow> ('st, 'a) cm) \<Rightarrow> ('st, 'a) cm" where
  "catchM m p h = (\<lambda>s. case m s of
      (Inl e, s') \<Rightarrow> if p e then h e s' else (Inl e, s')
    | (Inr x, s') \<Rightarrow> (Inr x, s'))"

definition getsM :: "('st \<Rightarrow> 'a) \<Rightarrow> ('st, 'a) cm" where
  "getsM f = (\<lambda>s. (Inr (f s), s))"

definition modifyM :: "('st \<Rightarrow> 'st) \<Rightarrow> ('st, unit) cm" where
  "modifyM f = (\<lambda>s. (Inr (), f s))"

definition liftE :: "exn + 'a \<Rightarrow> ('st, 'a) cm" where
  "liftE r = (\<lambda>s. (r, s))"

primrec forM :: "('a \<Rightarrow> ('st, unit) cm) \<Rightarrow> 'a list \<Rightarrow> ('st, unit) cm" where
  "forM f [] = ret ()"
| "forM f (x # xs) = bindM (f x) (\<lambda>_. forM f xs)"

primrec foldM :: "('a \<Rightarrow> 'b \<Rightarrow> ('st, 'a) cm) \<Rightarrow> 'a \<Rightarrow> 'b list \<Rightarrow> ('st, 'a) cm" where
  "foldM f a [] = ret a"
| "foldM f a (x # xs) = bindM (f a x) (\<lambda>a'. foldM f a' xs)"

section \<open>Total correctness of stateful computations\<close>

named_theorems runs_rules

definition runs :: "('st, 'a) cm \<Rightarrow> 'st \<Rightarrow> ('a \<Rightarrow> 'st \<Rightarrow> bool) \<Rightarrow> bool" where
  "runs m s Q \<longleftrightarrow> (\<exists>x s'. m s = (Inr x, s') \<and> Q x s')"

lemma runsI: "m s = (Inr x, s') \<Longrightarrow> Q x s' \<Longrightarrow> runs m s Q"
  by (auto simp: runs_def)

lemma runsE:
  assumes "runs m s Q"
  obtains x s' where "m s = (Inr x, s')" and "Q x s'"
  using assms by (auto simp: runs_def)

lemma runs_mono: "runs m s Q \<Longrightarrow> (\<And>x s'. Q x s' \<Longrightarrow> R x s') \<Longrightarrow> runs m s R"
  by (auto simp: runs_def)

lemma runs_conj: "runs m s Q \<Longrightarrow> runs m s R \<Longrightarrow> runs m s (\<lambda>x s'. Q x s' \<and> R x s')"
  by (auto simp: runs_def)

lemma runs_ret [runs_rules]: "runs (ret x) s Q \<longleftrightarrow> Q x s"
  by (simp add: runs_def ret_def)

lemma runs_raise [runs_rules]: "runs (raise e) s Q \<longleftrightarrow> False"
  by (simp add: runs_def raise_def)

lemma runs_bind [runs_rules]:
  "runs (bindM m f) s Q \<longleftrightarrow> runs m s (\<lambda>x s'. runs (f x) s' Q)"
  by (auto simp: runs_def bindM_def split: prod.splits sum.splits)

lemma runs_gets [runs_rules]: "runs (getsM f) s Q \<longleftrightarrow> Q (f s) s"
  by (simp add: runs_def getsM_def)

lemma runs_modify [runs_rules]: "runs (modifyM f) s Q \<longleftrightarrow> Q () (f s)"
  by (simp add: runs_def modifyM_def)

lemma runs_liftE [runs_rules]: "runs (liftE r) s Q \<longleftrightarrow> (\<exists>x. r = Inr x \<and> Q x s)"
  by (auto simp: runs_def liftE_def)

lemma runs_if [runs_rules]:
  "runs (if b then m else m') s Q \<longleftrightarrow> (if b then runs m s Q else runs m' s Q)"
  by simp

lemma runs_bindI:
  assumes "runs m s P" and "\<And>x s'. P x s' \<Longrightarrow> runs (f x) s' Q"
  shows "runs (bindM m f) s Q"
  using assms by (auto simp: runs_bind elim: runs_mono)

lemma runs_catchI: "runs m s Q \<Longrightarrow> runs (catchM m p h) s Q"
  by (auto simp: runs_def catchM_def)

lemma catchM_Inl: "m s = (Inl e, s') \<Longrightarrow> p e \<Longrightarrow> catchM m p h s = h e s'"
  by (simp add: catchM_def)

lemma catchM_Inr: "m s = (Inr x, s') \<Longrightarrow> catchM m p h s = (Inr x, s')"
  by (simp add: catchM_def)

lemma catchM_pass: "m s = (Inl e, s') \<Longrightarrow> \<not> p e \<Longrightarrow> catchM m p h s = (Inl e, s')"
  by (simp add: catchM_def)

lemma bindM_Inr: "m s = (Inr x, s') \<Longrightarrow> bindM m f s = f x s'"
  by (simp add: bindM_def)

lemma bindM_Inl: "m s = (Inl e, s') \<Longrightarrow> bindM m f s = (Inl e, s')"
  by (simp add: bindM_def)

text \<open>Loop rules: \<open>J\<close> relates the part of the list already visited to the state.\<close>

lemma runs_forM:
  assumes "J [] s"
    and "\<And>vs x rest t. xs = vs @ x # rest \<Longrightarrow> J vs t \<Longrightarrow> runs (f x) t (\<lambda>_ t'. J (vs @ [x]) t')"
  shows "runs (forM f xs) s (\<lambda>_ t. J xs t)"
proof -
  have "J vs t \<Longrightarrow> xs = vs @ rest \<Longrightarrow> runs (forM f rest) t (\<lambda>_ t. J xs t)" for vs rest t
  proof (induction rest arbitrary: vs t)
    case Nil
    then show ?case by (simp add: runs_rules)
  next
    case (Cons x rest)
    have "runs (f x) t (\<lambda>_ t'. J (vs @ [x]) t')"
      using Cons.prems by (auto intro: assms(2))
    then show ?case
      unfolding forM.simps by (rule runs_bindI) (rule Cons.IH, simp_all add: Cons.prems)
  qed
  from this [of "[]" s xs] assms(1) show ?thesis by simp
qed

lemma runs_foldM:
  assumes "J [] a s"
    and "\<And>vs x rest b t. xs = vs @ x # rest \<Longrightarrow> J vs b t \<Longrightarrow>
           runs (f b x) t (\<lambda>b' t'. J (vs @ [x]) b' t')"
  shows "runs (foldM f a xs) s (\<lambda>b t. J xs b t)"
proof -
  have "J vs b t \<Longrightarrow> xs = vs @ rest \<Longrightarrow> runs (foldM f b rest) t (\<lambda>b t. J xs b t)"
    for vs b rest t
  proof (induction rest arbitrary: vs b t)
    case Nil
    then show ?case by (simp add: runs_rules)
  next
    case (Cons x rest)
    have "runs (f b x) t (\<lambda>b' t'. J (vs @ [x]) b' t')"
      using Cons.prems by (auto intro: assms(2))
    then show ?case
      unfolding foldM.simps by (rule runs_bindI) (rule Cons.IH, simp_all add: Cons.prems)
  qed
  from this [of "[]" a s xs] assms(1) show ?thesis by simp
qed

section \<open>Outcomes, exceptions included\<close>

definition ends :: "('st, 'a) cm \<Rightarrow> 'st \<Rightarrow> (exn + 'a \<Rightarrow> 'st \<Rightarrow> bool) \<Rightarrow> bool" where
  "ends m s Q \<longleftrightarrow> Q (fst (m s)) (snd (m s))"

lemma ends_mono: "ends m s Q \<Longrightarrow> (\<And>r s'. Q r s' \<Longrightarrow> R r s') \<Longrightarrow> ends m s R"
  by (simp add: ends_def)

lemma ends_ret: "ends (ret x) s Q \<longleftrightarrow> Q (Inr x) s"
  by (simp add: ends_def ret_def)

lemma ends_runs: "runs m s P \<Longrightarrow> (\<And>x s'. P x s' \<Longrightarrow> Q (Inr x) s') \<Longrightarrow> ends m s Q"
  by (auto simp: runs_def ends_def)

lemma ends_bindI:
  assumes "ends m s P" and "\<And>e s'. P (Inl e) s' \<Longrightarrow> Q (Inl e) s'"
    and "\<And>x s'. P (Inr x) s' \<Longrightarrow> ends (f x) s' Q"
  shows "ends (bindM m f) s Q"
  using assms by (cases "m s"; cases "fst (m s)") (auto simp: ends_def bindM_def)

lemma ends_bind_runs: "runs m s P \<Longrightarrow> (\<And>x s'. P x s' \<Longrightarrow> ends (f x) s' Q) \<Longrightarrow> ends (bindM m f) s Q"
  by (auto simp: runs_def ends_def bindM_def)

lemma ends_bind_liftE:
  "(\<And>e. r = Inl e \<Longrightarrow> Q (Inl e) s) \<Longrightarrow> (\<And>x. r = Inr x \<Longrightarrow> ends (f x) s Q) \<Longrightarrow> ends (bindM (liftE r) f) s Q"
  by (cases r) (simp_all add: ends_def bindM_def liftE_def)

lemma ends_catchI:
  assumes "ends m s P" and "\<And>x s'. P (Inr x) s' \<Longrightarrow> Q (Inr x) s'"
    and "\<And>e s'. P (Inl e) s' \<Longrightarrow> p e \<Longrightarrow> ends (h e) s' Q"
    and "\<And>e s'. P (Inl e) s' \<Longrightarrow> \<not> p e \<Longrightarrow> Q (Inl e) s'"
  shows "ends (catchM m p h) s Q"
  using assms by (cases "m s"; cases "fst (m s)") (auto simp: ends_def catchM_def)

section \<open>Parts of the state a computation leaves alone\<close>

definition preserves :: "('st \<Rightarrow> 'b) \<Rightarrow> ('st, 'a) cm \<Rightarrow> bool" where
  "preserves f m \<longleftrightarrow> (\<forall>s. f (snd (m s)) = f s)"

named_theorems preserves_rules

lemma preserves_basic [preserves_rules]:
  "preserves f (ret x)" "preserves f (raise e)" "preserves f (liftE r)" "preserves f (getsM g)"
  by (simp_all add: preserves_def ret_def raise_def liftE_def getsM_def)

lemma preserves_modify [preserves_rules]: "(\<And>s. f (g s) = f s) \<Longrightarrow> preserves f (modifyM g)"
  by (simp add: preserves_def modifyM_def)

lemma preserves_bind [preserves_rules]:
  "preserves f m \<Longrightarrow> (\<And>x. preserves f (k x)) \<Longrightarrow> preserves f (bindM m k)"
  by (simp add: preserves_def bindM_def split: prod.splits sum.splits) (metis snd_conv)

lemma preserves_catch [preserves_rules]:
  "preserves f m \<Longrightarrow> (\<And>e. preserves f (h e)) \<Longrightarrow> preserves f (catchM m p h)"
  by (simp add: preserves_def catchM_def split: prod.splits sum.splits) (metis snd_conv)

lemma preserves_if [preserves_rules]:
  "preserves f m \<Longrightarrow> preserves f m' \<Longrightarrow> preserves f (if b then m else m')"
  by simp

lemma preserves_forM [preserves_rules]: "(\<And>x. preserves f (g x)) \<Longrightarrow> preserves f (forM g xs)"
  by (induction xs) (simp_all add: preserves_rules)

lemma preserves_foldM [preserves_rules]: "(\<And>a x. preserves f (g a x)) \<Longrightarrow> preserves f (foldM g a xs)"
  by (induction xs arbitrary: a) (simp_all add: preserves_rules)

section \<open>Words\<close>

lemma word_gap_less: "p < (c :: 32 word) \<Longrightarrow> 4294967296 - unat c < 4294967296 - unat p"
  using unsigned_less [of c, where 'a = nat] by (simp add: word_less_nat_alt)

lemma unat_word_of_nat: "n < 2 ^ 32 \<Longrightarrow> unat (word_of_nat n :: 32 word) = n"
  by (simp add: unsigned_of_nat take_bit_eq_mod)

lemma word_of_nat_strict: "m < n \<Longrightarrow> n < 2 ^ 32 \<Longrightarrow> (word_of_nat m :: 32 word) < word_of_nat n"
  by (simp add: word_less_nat_alt unat_word_of_nat)

section \<open>Ordered sets and maps\<close>

definition set_wf :: "'a::linorder list \<Rightarrow> bool" where
  "set_wf xs \<longleftrightarrow> sorted xs \<and> distinct xs"

lemma set_wf_Nil [simp]: "set_wf []"
  by (simp add: set_wf_def)

lemma set_wf_insort_insert [simp]: "set_wf xs \<Longrightarrow> set_wf (insort_insert x xs)"
  by (simp add: set_wf_def sorted_insort_insert distinct_insort_insert)

lemma set_wf_filter [simp]: "set_wf xs \<Longrightarrow> set_wf (filter p xs)"
  by (simp add: set_wf_def sorted_filter [of "\<lambda>x. x", simplified])

declare set_insort_insert [simp]

text \<open>Reading the elements of an ordered set back one by one rebuilds it.\<close>

lemma insort_insert_greatest:
  "\<forall>y \<in> set xs. y < (x::'a::linorder) \<Longrightarrow> insort_insert x xs = xs @ [x]"
proof -
  assume *: "\<forall>y \<in> set xs. y < x"
  then have "insort x xs = xs @ [x]"
    by (induction xs) (auto simp: not_le)
  with * show ?thesis by (auto simp: insort_insert_insort)
qed

lemma foldl_insort_insert_id:
  "set_wf ys \<Longrightarrow> foldl (\<lambda>a x. insort_insert x a) [] ys = ys"
proof (induction ys rule: rev_induct)
  case (snoc y ys)
  then have "\<forall>z \<in> set ys. z < y"
    by (auto simp: set_wf_def sorted_append order.strict_iff_order)
  with snoc show ?case
    by (simp add: set_wf_def sorted_append insort_insert_greatest)
qed simp

fun map_at :: "'k::linorder \<Rightarrow> 'v \<Rightarrow> ('v \<Rightarrow> 'v) \<Rightarrow> ('k \<times> 'v) list \<Rightarrow> ('k \<times> 'v) list" where
  "map_at k d f [] = [(k, f d)]"
| "map_at k d f ((k', v) # m) =
     (if k < k' then (k, f d) # (k', v) # m
      else if k = k' then (k', f v) # m
      else (k', v) # map_at k d f m)"

definition map_wf :: "('k::linorder \<times> 'v) list \<Rightarrow> bool" where
  "map_wf m \<longleftrightarrow> sorted (map fst m) \<and> distinct (map fst m)"

lemma map_wf_Nil [simp]: "map_wf []"
  by (simp add: map_wf_def)

lemma fst_set_map_at [simp]: "fst ` set (map_at k d f m) = insert k (fst ` set m)"
  by (induction k d f m rule: map_at.induct) (simp_all add: insert_commute)

lemma map_wf_map_at [simp]: "map_wf m \<Longrightarrow> map_wf (map_at k d f m)"
proof (induction m)
  case (Cons kv m)
  obtain k' v where kv: "kv = (k', v)" by force
  from Cons.prems have m: "map_wf m" and k': "\<forall>y \<in> fst ` set m. k' < y"
    by (auto simp: map_wf_def kv order.strict_iff_order image_iff)
  from m have "map_wf (map_at k d f m)" by (rule Cons.IH)
  with m k' show ?case
    by (fastforce simp: map_wf_def kv not_less)
qed (simp add: map_wf_def)

lemma map_of_map_at [simp]:
  assumes "map_wf m"
  shows "map_of (map_at k d f m) = (map_of m)(k \<mapsto> f (case map_of m k of None \<Rightarrow> d | Some v \<Rightarrow> v))"
  using assms
proof (induction m)
  case (Cons kv m)
  obtain k' v where kv: "kv = (k', v)" by force
  from Cons.prems have m: "map_wf m" and k': "\<forall>y \<in> fst ` set m. k' < y"
    by (auto simp: map_wf_def kv order.strict_iff_order image_iff)
  have none: "k < k' \<Longrightarrow> map_of m k = None"
    using k' by (force simp: map_of_eq_None_iff)
  show ?case
    using Cons.IH [OF m] none by (auto simp: kv fun_eq_iff)
qed simp

lemma map_wf_map_snd [simp]: "map_wf (map (\<lambda>(k, v). (k, f k v)) m) = map_wf m"
  by (simp add: map_wf_def case_prod_unfold comp_def)

lemma map_of_map_snd: "map_of (map (\<lambda>(k, v). (k, f k v)) m) k = map_option (f k) (map_of m k)"
  by (induction m) auto

end
