(* ===== verification/Ndn_Lib.thy ===== *)
theory Ndn_Lib
  imports Ledger_Prelude "HOL-Library.Product_Lexorder"
begin

text \<open>
  The parts of ndn-cxx that the ledger's data passes through. The library itself is not in the
  repository, so what it computes is a parameter: a value of the record \<open>ndn\<close>, the first argument
  of every definition that calls it. What is fixed here is only the documented shape of the values:
  a \<open>Name\<close> is the sequence of its components, a component is a TLV-TYPE and a value, a \<open>Block\<close> is
  a TLV-TYPE and a value, and \<open>std::set<Name>\<close> iterates in the canonical order of names.

  The locales \<open>tlv_codec\<close>, \<open>time_codec\<close> and \<open>ndn_codec\<close> state what the code relies on:
  decoding returns what was encoded. The theory \<open>Ndn_Tlv\<close> interprets them.
\<close>

section \<open>Names\<close>

datatype component = Comp (ctype: nat) (cvalue: bytes)

type_synonym name = "component list"

text \<open>Canonical order of components: by type, then by length, then by the bytes. Names compare
  component by component (the list order of the library).\<close>

definition comp_key :: "component \<Rightarrow> nat \<times> nat \<times> bytes" where
  "comp_key c = (ctype c, length (cvalue c), cvalue c)"

lemma comp_key_inject [simp]: "comp_key a = comp_key b \<longleftrightarrow> a = b"
  by (cases a; cases b) (auto simp: comp_key_def)

instantiation component :: linorder
begin

definition less_eq_component :: "component \<Rightarrow> component \<Rightarrow> bool" where
  "less_eq_component a b \<longleftrightarrow> comp_key a \<le> comp_key b"

definition less_component :: "component \<Rightarrow> component \<Rightarrow> bool" where
  "less_component a b \<longleftrightarrow> comp_key a < comp_key b"

instance
proof
  fix a b c :: component
  show "a < b \<longleftrightarrow> a \<le> b \<and> \<not> b \<le> a"
    by (simp only: less_eq_component_def less_component_def less_le_not_le)
  show "a \<le> a"
    by (simp add: less_eq_component_def)
  show "a \<le> b \<Longrightarrow> b \<le> c \<Longrightarrow> a \<le> c"
    unfolding less_eq_component_def by (rule order_trans)
  show "a \<le> b \<Longrightarrow> b \<le> a \<Longrightarrow> a = b"
    using order.antisym [of "comp_key a" "comp_key b"] by (simp add: less_eq_component_def)
  show "a \<le> b \<or> b \<le> a"
    by (simp add: less_eq_component_def linear)
qed

end

definition wf_component :: "component \<Rightarrow> bool" where
  "wf_component c \<longleftrightarrow> 1 \<le> ctype c \<and> ctype c \<le> 65535"

definition wf_name :: "name \<Rightarrow> bool" where
  "wf_name n \<longleftrightarrow> list_all wf_component n"

lemma wf_name_simps [simp]:
  "wf_name []"
  "wf_name (c # n) \<longleftrightarrow> wf_component c \<and> wf_name n"
  "wf_name (n @ m) \<longleftrightarrow> wf_name n \<and> wf_name m"
  by (simp_all add: wf_name_def)

lemma wf_name_drop [simp]: "wf_name n \<Longrightarrow> wf_name (drop k n)"
  by (auto simp: wf_name_def list_all_iff dest: in_set_dropD)

text \<open>\<open>Name::append(const char*)\<close> appends a generic component (TLV-TYPE 8), \<open>appendKeyword\<close> and
  the URI form \<open>32=...\<close> a keyword component (TLV-TYPE 32).\<close>

definition generic :: "string \<Rightarrow> component" where
  "generic s = Comp 8 s"

definition keyword :: "string \<Rightarrow> component" where
  "keyword s = Comp 32 s"

lemma wf_generic [simp]: "wf_component (generic s)"
  by (simp add: generic_def wf_component_def)

lemma wf_keyword [simp]: "wf_component (keyword s)"
  by (simp add: keyword_def wf_component_def)

text \<open>\<open>Name::get(i)\<close>, \<open>Name::set(i, c)\<close> and \<open>Name::getPrefix(k)\<close> take negative arguments, which
  count from the end; an index outside the name is undefined behaviour of \<open>get\<close> and \<open>set\<close>.\<close>

definition name_index :: "name \<Rightarrow> int \<Rightarrow> nat option" where
  "name_index n i = (let j = (if i < 0 then i + int (length n) else i) in
     if 0 \<le> j \<and> j < int (length n) then Some (nat j) else None)"

definition name_get :: "name \<Rightarrow> int \<Rightarrow> exn + component" where
  "name_get n i = (case name_index n i of
     None \<Rightarrow> Inl (UndefinedBehaviour ''Name::get'') | Some j \<Rightarrow> Inr (n ! j))"

definition name_set :: "name \<Rightarrow> int \<Rightarrow> component \<Rightarrow> exn + name" where
  "name_set n i c = (case name_index n i of
     None \<Rightarrow> Inl (UndefinedBehaviour ''Name::set'') | Some j \<Rightarrow> Inr (n[j := c]))"

definition name_prefix :: "name \<Rightarrow> int \<Rightarrow> name" where
  "name_prefix n k = (if k < 0 then take (length n - nat (- k)) n else take (nat k) n)"

definition name_sub :: "name \<Rightarrow> nat \<Rightarrow> name" where
  "name_sub n k = drop k n"

lemma name_prefix_snoc [simp]: "name_prefix (n @ [c]) (- 1) = n"
  by (simp add: name_prefix_def)

section \<open>Blocks and packets\<close>

datatype block = Block (btype: nat) (bvalue: bytes)

definition wf_block :: "block \<Rightarrow> bool" where
  "wf_block b \<longleftrightarrow> 1 \<le> btype b \<and> btype b < 2 ^ 32"

lemma wf_block_Block [simp]: "wf_block (Block t v) \<longleftrightarrow> 1 \<le> t \<and> t < 2 ^ 32"
  by (simp add: wf_block_def)

record data =
  dataName :: name
  contentType :: nat
  content :: block
  freshness :: int
  finalBlock :: "component option"
  signature :: bytes

definition wf_data :: "data \<Rightarrow> bool" where
  "wf_data d \<longleftrightarrow> wf_name (dataName d) \<and> contentType d < 2 ^ 64 \<and> btype (content d) = 21
     \<and> 0 \<le> freshness d \<and> freshness d < 2 ^ 64
     \<and> (case finalBlock d of None \<Rightarrow> True | Some c \<Rightarrow> wf_component c)"

record interest =
  interestName :: name
  canBePrefix :: bool
  mustBeFresh :: bool
  forwardingHint :: "name list"
  appParams :: "block option"

text \<open>TLV types that the NDN packet format assigns.\<close>

definition tlv_Data :: nat where "tlv_Data = 6"
definition tlv_Name :: nat where "tlv_Name = 7"
definition tlv_Content :: nat where "tlv_Content = 21"
definition tlv_ForwardingHint :: nat where "tlv_ForwardingHint = 30"
definition tlv_ApplicationParameters :: nat where "tlv_ApplicationParameters = 36"
definition tlv_ContentType_Blob :: nat where "tlv_ContentType_Blob = 0"
definition tlv_ContentType_Nack :: nat where "tlv_ContentType_Nack = 3"

lemmas tlv_types = tlv_Data_def tlv_Name_def tlv_Content_def tlv_ForwardingHint_def
  tlv_ApplicationParameters_def

section \<open>The library as a parameter\<close>

text \<open>
  \<^item> \<open>wire\<close>: the bytes of an encoded block; \<open>elements\<close>: the sub-blocks that \<open>parse\<close> finds in a
    value (\<open>None\<close>: it throws); \<open>readBlock\<close>: \<open>Block(span)\<close> and \<open>blockFromValue\<close>.
  \<^item> \<open>nniBytes\<close>, \<open>readNni\<close>: non-negative integers; \<open>nameBytes\<close>, \<open>readName\<close>: the value of a Name.
  \<^item> \<open>isoBytes\<close>, \<open>readIso\<close>: \<open>toIsoString\<close> and \<open>fromIsoString\<close> on a time in nanoseconds; the text
    form keeps a time only up to \<open>isoRound\<close>.
  \<^item> \<open>numberComp\<close>, \<open>sequenceComp\<close>, \<open>segmentComp\<close>, \<open>versionComp\<close>, \<open>timestampComp\<close> and the
    corresponding readers: the naming conventions.
  \<^item> \<open>dataBytes\<close>, \<open>readDataBytes\<close>: the value of a Data packet; \<open>paramsDigest\<close>: the component that
    \<open>setApplicationParameters\<close> adds; \<open>toUri\<close>; \<open>sha256\<close>; \<open>isCritical\<close>: \<open>tlv::isCriticalType\<close>.
  \<^item> \<open>clock i\<close>: what the \<open>i\<close>-th reading of \<open>system_clock::now\<close> returns.
  \<^item> \<open>garbage\<close>: the content of a variable that was never initialised.
\<close>

record ndn =
  wire :: "block \<Rightarrow> bytes"
  elements :: "bytes \<Rightarrow> block list option"
  readBlock :: "bytes \<Rightarrow> block option"
  nniBytes :: "nat \<Rightarrow> bytes"
  readNni :: "bytes \<Rightarrow> nat option"
  nameBytes :: "name \<Rightarrow> bytes"
  readName :: "bytes \<Rightarrow> name option"
  isoBytes :: "int \<Rightarrow> bytes"
  readIso :: "bytes \<Rightarrow> int option"
  isoRound :: "int \<Rightarrow> int"
  numberComp :: "nat \<Rightarrow> component"
  readNumber :: "component \<Rightarrow> nat option"
  sequenceComp :: "nat \<Rightarrow> component"
  segmentComp :: "nat \<Rightarrow> component"
  readSegment :: "component \<Rightarrow> nat option"
  versionComp :: "nat \<Rightarrow> component"
  isVersion :: "component \<Rightarrow> bool"
  timestampComp :: "int \<Rightarrow> component"
  readTimestamp :: "component \<Rightarrow> int option"
  dataBytes :: "data \<Rightarrow> bytes"
  readDataBytes :: "bytes \<Rightarrow> data option"
  paramsDigest :: "block \<Rightarrow> component"
  toUri :: "name \<Rightarrow> bytes"
  sha256 :: "bytes \<Rightarrow> bytes"
  digestComp :: "bytes \<Rightarrow> component"
  isCritical :: "nat \<Rightarrow> bool"
  clock :: "nat \<Rightarrow> int"
  garbage :: nat

text \<open>\<open>Name::wireEncode\<close> and \<open>Name(const Block&)\<close>, which refuses a block of another type; likewise
  for Data; \<open>makeNestedBlock(type, name)\<close>.\<close>

definition nameBlock :: "ndn \<Rightarrow> name \<Rightarrow> block" where
  "nameBlock L n = Block tlv_Name (nameBytes L n)"

definition nameOf :: "ndn \<Rightarrow> block \<Rightarrow> exn + name" where
  "nameOf L b = (if btype b = tlv_Name then of_option (TlvError ''Name'') (readName L (bvalue b))
     else Inl (TlvError ''Name''))"

definition nestedName :: "ndn \<Rightarrow> nat \<Rightarrow> name \<Rightarrow> block" where
  "nestedName L t n = Block t (wire L (nameBlock L n))"

definition nameOfNested :: "ndn \<Rightarrow> block \<Rightarrow> exn + name" where
  "nameOfNested L b = bindE (of_option (TlvError ''Block'') (readBlock L (bvalue b))) (nameOf L)"

definition nniBlock :: "ndn \<Rightarrow> nat \<Rightarrow> nat \<Rightarrow> block" where
  "nniBlock L t n = Block t (nniBytes L n)"

definition nniOf :: "ndn \<Rightarrow> block \<Rightarrow> exn + nat" where
  "nniOf L b = of_option (TlvError ''NonNegativeInteger'') (readNni L (bvalue b))"

definition parseBlock :: "ndn \<Rightarrow> block \<Rightarrow> exn + block list" where
  "parseBlock L b = of_option (TlvError ''parse'') (elements L (bvalue b))"

definition encodeBlock :: "ndn \<Rightarrow> nat \<Rightarrow> block list \<Rightarrow> block" where
  "encodeBlock L t bs = Block t (concat (map (wire L) bs))"

definition dataBlock :: "ndn \<Rightarrow> data \<Rightarrow> block" where
  "dataBlock L d = Block tlv_Data (dataBytes L d)"

definition dataOf :: "ndn \<Rightarrow> block \<Rightarrow> exn + data" where
  "dataOf L b = (if btype b = tlv_Data then of_option (TlvError ''Data'') (readDataBytes L (bvalue b))
     else Inl (TlvError ''Data''))"

text \<open>The bytes of several names one after the other, as the code appends their wires to a buffer.\<close>

definition nameBuffer :: "ndn \<Rightarrow> name list \<Rightarrow> bytes" where
  "nameBuffer L ns = concat (map (\<lambda>n. wire L (nameBlock L n)) ns)"

lemma btype_simps [simp]:
  "btype (nameBlock L n) = tlv_Name" "btype (nestedName L t n) = t" "btype (nniBlock L t k) = t"
  "btype (encodeBlock L t bs) = t" "btype (dataBlock L d) = tlv_Data"
  by (simp_all add: nameBlock_def nestedName_def nniBlock_def encodeBlock_def dataBlock_def)

lemma wf_block_simps [simp]:
  "wf_block (nameBlock L n)" "wf_block (dataBlock L d)"
  "wf_block (nestedName L t n) \<longleftrightarrow> 1 \<le> t \<and> t < 2 ^ 32"
  "wf_block (nniBlock L t k) \<longleftrightarrow> 1 \<le> t \<and> t < 2 ^ 32"
  "wf_block (encodeBlock L t bs) \<longleftrightarrow> 1 \<le> t \<and> t < 2 ^ 32"
  by (simp_all add: wf_block_def tlv_types)

section \<open>What the code relies on\<close>

named_theorems codec

text \<open>Decoding a TLV, a non-negative integer or a name returns what was encoded. (Buffers are
  shorter than \<open>2 ^ 64\<close> bytes, so every length of the program fits a TLV-LENGTH; the laws do not
  repeat that bound.)\<close>

locale tlv_codec =
  fixes L :: ndn
  assumes elements_wire: "list_all wf_block bs \<Longrightarrow> elements L (concat (map (wire L) bs)) = Some bs"
    and readBlock_wire: "wf_block b \<Longrightarrow> readBlock L (wire L b) = Some b"
    and readNni_nniBytes: "n < 2 ^ 64 \<Longrightarrow> readNni L (nniBytes L n) = Some n"
    and readNni_bound: "readNni L v = Some n \<Longrightarrow> n < 2 ^ 64"
    and readName_nameBytes: "wf_name nm \<Longrightarrow> readName L (nameBytes L nm) = Some nm"
    and readName_wf: "readName L v = Some nm \<Longrightarrow> wf_name nm"
begin

lemma nameOf_nameBlock [codec]: "wf_name n \<Longrightarrow> nameOf L (nameBlock L n) = Inr n"
  by (simp add: nameOf_def nameBlock_def readName_nameBytes)

lemma nameOf_wf: "nameOf L b = Inr n \<Longrightarrow> wf_name n"
  by (auto simp: nameOf_def dest: readName_wf split: if_splits)

lemma nameOfNested_nestedName [codec]: "wf_name n \<Longrightarrow> nameOfNested L (nestedName L t n) = Inr n"
  by (simp add: nameOfNested_def nestedName_def readBlock_wire nameOf_nameBlock)

lemma nniOf_nniBlock [codec]: "n < 2 ^ 64 \<Longrightarrow> nniOf L (nniBlock L t n) = Inr n"
  by (simp add: nniOf_def nniBlock_def readNni_nniBytes)

lemma nniOf_bound: "nniOf L b = Inr n \<Longrightarrow> n < 2 ^ 64"
  by (rule readNni_bound) (simp add: nniOf_def)

lemma parseBlock_encodeBlock [codec]:
  "list_all wf_block bs \<Longrightarrow> parseBlock L (encodeBlock L t bs) = Inr bs"
  by (simp add: parseBlock_def encodeBlock_def elements_wire)

lemma parseBlock_nameBuffer [codec]:
  "parseBlock L (Block t (nameBuffer L ns)) = Inr (map (nameBlock L) ns)"
proof -
  have "elements L (concat (map (wire L) (map (nameBlock L) ns))) = Some (map (nameBlock L) ns)"
    by (rule elements_wire) (simp add: list_all_iff)
  then show ?thesis by (simp add: parseBlock_def nameBuffer_def comp_def)
qed

end

locale time_codec =
  fixes L :: ndn
  assumes readIso_isoBytes: "readIso L (isoBytes L t) = Some (isoRound L t)"
    and isoRound_idem: "isoRound L (isoRound L t) = isoRound L t"

locale ndn_codec = tlv_codec L + time_codec L for L :: ndn +
  assumes readDataBytes_dataBytes: "wf_data d \<Longrightarrow> readDataBytes L (dataBytes L d) = Some d"
    and readNumber_numberComp: "n < 2 ^ 64 \<Longrightarrow> readNumber L (numberComp L n) = Some n"
    and readSegment_segmentComp: "n < 2 ^ 64 \<Longrightarrow> readSegment L (segmentComp L n) = Some n"
    and toUri_inject: "toUri L nm = toUri L nm' \<Longrightarrow> nm = nm'"
    and isVersion_versionComp: "isVersion L (versionComp L n)"
    and readTimestamp_timestampComp:
      "0 \<le> t \<Longrightarrow> t < 2 ^ 50 \<Longrightarrow> readTimestamp L (timestampComp L t) = Some t"
    and wf_numberComp: "wf_component (numberComp L n)"
    and wf_sequenceComp: "wf_component (sequenceComp L n)"
    and wf_digestComp: "wf_component (digestComp L v)"
    and sequenceComp_inject: "m < 2 ^ 64 \<Longrightarrow> n < 2 ^ 64 \<Longrightarrow> sequenceComp L m = sequenceComp L n \<Longrightarrow> m = n"

text \<open>What the security validator says to a packet. It may ask the network first; the callbacks of the code
  own copies of all they use.\<close>

datatype validation = Valid | Invalid string

end
