(* ===== verification/Append_Common.thy ===== *)
theory Append_Common
  imports Ndn_Lib
begin

text \<open>
  What both sides of the append protocol share (\<open>src/append/append-common\<close>, \<open>src/append/handle\<close>,
  \<open>src/error\<close>): TLV types, status codes and their texts, the holder of registrations, and the error
  object handed to the failure callback.
\<close>

section \<open>Protocol numbers\<close>

definition TLV_AppenderPrefix :: nat where "TLV_AppenderPrefix = 261"
definition TLV_AppenderNonce :: nat where "TLV_AppenderNonce = 262"
definition TLV_AppendStatusCode :: nat where "TLV_AppendStatusCode = 252"
definition InvalidNonce :: nat where "InvalidNonce = 2 ^ 64 - 1"

lemmas append_tlv = TLV_AppenderPrefix_def TLV_AppenderNonce_def TLV_AppendStatusCode_def

text \<open>\<open>AppendStatus\<close> has the underlying type \<open>uint64_t\<close>, and a cast from any number is such a value.\<close>

datatype append_status =
    SUCCESS
  | FAILURE_NACK
  | FAILURE_TIMEOUT
  | FAILURE_VALIDATION_APP
  | FAILURE_VALIDATION_PROTO
  | FAILURE_STORAGE
  | OtherStatus nat

fun append_code :: "append_status \<Rightarrow> nat" where
  "append_code SUCCESS = 0"
| "append_code FAILURE_NACK = 1"
| "append_code FAILURE_TIMEOUT = 2"
| "append_code FAILURE_VALIDATION_APP = 4"
| "append_code FAILURE_VALIDATION_PROTO = 5"
| "append_code FAILURE_STORAGE = 98"
| "append_code (OtherStatus n) = n"

definition append_statusOf :: "nat \<Rightarrow> append_status" where
  "append_statusOf n = (if n = 0 then SUCCESS else if n = 1 then FAILURE_NACK
     else if n = 2 then FAILURE_TIMEOUT else if n = 4 then FAILURE_VALIDATION_APP
     else if n = 5 then FAILURE_VALIDATION_PROTO else if n = 98 then FAILURE_STORAGE else OtherStatus n)"

definition wf_append_status :: "append_status \<Rightarrow> bool" where
  "wf_append_status st \<longleftrightarrow> append_statusOf (append_code st) = st \<and> append_code st < 2 ^ 64"

lemma wf_append_status_simps [simp]:
  "wf_append_status SUCCESS" "wf_append_status FAILURE_NACK" "wf_append_status FAILURE_TIMEOUT"
  "wf_append_status FAILURE_VALIDATION_APP" "wf_append_status FAILURE_VALIDATION_PROTO"
  "wf_append_status FAILURE_STORAGE"
  by (simp_all add: wf_append_status_def append_statusOf_def)

fun statusToString :: "append_status \<Rightarrow> string" where
  "statusToString SUCCESS = ''Success''"
| "statusToString FAILURE_NACK = ''FAILURE_NACK''"
| "statusToString FAILURE_TIMEOUT = ''FAILURE_TIMEOUT''"
| "statusToString FAILURE_STORAGE = ''FAILURE_STORAGE''"
| "statusToString FAILURE_VALIDATION_APP = ''FAILURE_VALIDATION_APP''"
| "statusToString FAILURE_VALIDATION_PROTO = ''FAILURE_VALIDATION_PROTO''"
| "statusToString (OtherStatus _) = ''Unrecognized status''"

section \<open>Handles\<close>

text \<open>A registration at the face is a number; cancelling or unregistering is an effect of the face,
  collected in \<open>cancelled\<close> and \<open>unregistered\<close>. The handles stay in the lists.\<close>

record handle =
  prefixHandles :: "nat list"
  filterHandles :: "nat list"
  cancelled :: "nat list"
  unregistered :: "nat list"

definition newHandle :: handle where
  "newHandle = \<lparr>prefixHandles = [], filterHandles = [], cancelled = [], unregistered = []\<rparr>"

definition handlePrefix :: "nat \<Rightarrow> handle \<Rightarrow> handle" where
  "handlePrefix p h = h\<lparr>prefixHandles := prefixHandles h @ [p]\<rparr>"

definition handleFilter :: "nat \<Rightarrow> handle \<Rightarrow> handle" where
  "handleFilter f h = h\<lparr>filterHandles := filterHandles h @ [f]\<rparr>"

definition unregisterFilters :: "handle \<Rightarrow> handle" where
  "unregisterFilters h = foldl (\<lambda>h f. h\<lparr>cancelled := cancelled h @ [f]\<rparr>) h (filterHandles h)"

definition unregisterPrefixes :: "handle \<Rightarrow> handle" where
  "unregisterPrefixes h = foldl (\<lambda>h p. h\<lparr>unregistered := unregistered h @ [p]\<rparr>) h (prefixHandles h)"

definition destroyHandle :: "handle \<Rightarrow> handle" where
  "destroyHandle h = unregisterPrefixes (unregisterFilters h)"

text \<open>The active filters: those not cancelled.\<close>

definition activeFilters :: "handle \<Rightarrow> nat set" where
  "activeFilters h = set (filterHandles h) - set (cancelled h)"

lemma unregisterFilters_eq: "unregisterFilters h = h\<lparr>cancelled := cancelled h @ filterHandles h\<rparr>"
proof -
  have "foldl (\<lambda>h f. h\<lparr>cancelled := cancelled h @ [f]\<rparr>) k fs = k\<lparr>cancelled := cancelled k @ fs\<rparr>" for fs k
    by (induction fs arbitrary: k) simp_all
  then show ?thesis by (simp add: unregisterFilters_def)
qed

lemma unregisterPrefixes_eq: "unregisterPrefixes h = h\<lparr>unregistered := unregistered h @ prefixHandles h\<rparr>"
proof -
  have "foldl (\<lambda>h f. h\<lparr>unregistered := unregistered h @ [f]\<rparr>) k fs = k\<lparr>unregistered := unregistered k @ fs\<rparr>" for fs k
    by (induction fs arbitrary: k) simp_all
  then show ?thesis by (simp add: unregisterPrefixes_def)
qed

lemma activeFilters_unregister [simp]: "activeFilters (unregisterFilters h) = {}"
  by (simp add: activeFilters_def unregisterFilters_eq)

section \<open>Errors\<close>

record client_error =
  errCode :: "32 word"
  errInfo :: string

definition NO_ERROR :: "32 word" where "NO_ERROR = 0"
definition TIMEOUT :: "32 word" where "TIMEOUT = 1"
definition NACK_ERROR :: "32 word" where "NACK_ERROR = 2"
definition VALIDATION_ERROR :: "32 word" where "VALIDATION_ERROR = 3"
definition IMPLEMENTATION_ERROR :: "32 word" where "IMPLEMENTATION_ERROR = 255"
definition PROTO_SPECIFIC :: "32 word" where "PROTO_SPECIFIC = 256"

lemmas error_codes = NO_ERROR_def TIMEOUT_def NACK_ERROR_def VALIDATION_ERROR_def
  IMPLEMENTATION_ERROR_def PROTO_SPECIFIC_def

definition codeText :: "32 word \<Rightarrow> string" where
  "codeText c = (if c = NO_ERROR then ''No error'' else if c = TIMEOUT then ''Timeout''
     else if c = NACK_ERROR then ''NACK'' else if c = VALIDATION_ERROR then ''Validation error''
     else if c = IMPLEMENTATION_ERROR then ''Internal implementation error''
     else if c = PROTO_SPECIFIC then ''Protocol specific error'' else ''Unrecognized reason'')"

definition errorText :: "client_error \<Rightarrow> string" where
  "errorText e = codeText (errCode e) @ (if errInfo e \<noteq> '''' then '' ('' @ errInfo e @ '')'' else '''')"

end
