(* ===== verification/Nack.thy ===== *)
theory Nack
  imports Ndn_Lib
begin

text \<open>
  The application-level negative answer (\<open>src/nack.hpp\<close>, \<open>src/nack.cpp\<close>): a Data packet of content type
  Nack whose name appends \<open>nack\<close> and a timestamp to the name asked for. Main facts: the packet is
  recognised by \<open>isValidName\<close>, and its name gives back the name asked for and the time.
\<close>

definition TIMESTAMP_OFFSET :: int where "TIMESTAMP_OFFSET = - 1"
definition NACK_OFFSET :: int where "NACK_OFFSET = - 2"

record nack =
  nackName :: name

definition newNack :: nack where
  "newNack = \<lparr>nackName = []\<rparr>"

definition nack_fromData :: "data \<Rightarrow> nack \<Rightarrow> nack" where
  "nack_fromData d nk = nk\<lparr>nackName := dataName d\<rparr>"

definition nackOfData :: "data \<Rightarrow> nack" where
  "nackOfData d = (let nk = nack_fromData d newNack in \<lparr>nackName = nackName nk\<rparr>)"

definition nackOfBlock :: "ndn \<Rightarrow> block \<Rightarrow> exn + nack" where
  "nackOfBlock L b = bindE (dataOf L b) (\<lambda>d. Inr (nackOfData d))"

text \<open>Times are milliseconds since the epoch; a timestamp component carries microseconds.\<close>

definition emptyData :: "name \<Rightarrow> data" where
  "emptyData n = \<lparr>dataName = n, contentType = tlv_ContentType_Blob, content = Block tlv_Content [],
     freshness = 0, finalBlock = None, signature = []\<rparr>"

definition prepareData :: "ndn \<Rightarrow> name \<Rightarrow> int \<Rightarrow> data" where
  "prepareData L dn timestamp = (emptyData (dn @ [generic ''nack'', timestampComp L (1000 * timestamp)]))
     \<lparr>contentType := tlv_ContentType_Nack\<rparr>"

definition nack_isValidName :: "ndn \<Rightarrow> name \<Rightarrow> exn + bool" where
  "nack_isValidName L n = bindE (name_get n NACK_OFFSET) (\<lambda>c.
     if c = generic ''nack''
     then bindE (name_get n TIMESTAMP_OFFSET) (\<lambda>t. Inr (readTimestamp L t \<noteq> None))
     else Inr False)"

definition getTimestamp :: "ndn \<Rightarrow> nack \<Rightarrow> exn + int" where
  "getTimestamp L nk = bindE (name_get (nackName nk) TIMESTAMP_OFFSET) (\<lambda>c.
     bindE (of_option (TlvError ''toTimestamp'') (readTimestamp L c)) (\<lambda>t. Inr (t div 1000)))"

definition showNack :: "ndn \<Rightarrow> (int \<Rightarrow> bytes) \<Rightarrow> nack \<Rightarrow> exn + bytes" where
  "showNack L timeText nk = bindE (getTimestamp L nk) (\<lambda>t. Inr (
     ''Nacked Data Name: '' @ toUri L (name_prefix (nackName nk) NACK_OFFSET) @ [CHR 0x0A] @
     ''Nack Timestamp: ['' @ timeText t @ '']'' @ [CHR 0x0A]))"

lemma name_get_last [simp]:
  "name_get (n @ [c]) (- 1) = Inr c" "name_get (n @ [b, c]) (- 1) = Inr c" "name_get (n @ [b, c]) (- 2) = Inr b"
  by (simp_all add: name_get_def name_index_def nth_append nat_add_distrib)

lemma wf_emptyData [simp]: "wf_name n \<Longrightarrow> wf_data (emptyData n)"
  by (simp add: emptyData_def wf_data_def tlv_Content_def tlv_ContentType_Blob_def)

context ndn_codec
begin

lemma prepareData_recognised:
  assumes "0 \<le> t" and "t < 2 ^ 40"
  shows "nack_isValidName L (dataName (prepareData L n t)) = Inr True"
    and "getTimestamp L (nackOfData (prepareData L n t)) = Inr t"
    and "name_prefix (dataName (prepareData L n t)) NACK_OFFSET = n"
proof -
  have "readTimestamp L (timestampComp L (1000 * t)) = Some (1000 * t)"
    using assms by (intro readTimestamp_timestampComp) simp_all
  then show "nack_isValidName L (dataName (prepareData L n t)) = Inr True"
    "getTimestamp L (nackOfData (prepareData L n t)) = Inr t"
    "name_prefix (dataName (prepareData L n t)) NACK_OFFSET = n"
    by (simp_all add: nack_isValidName_def getTimestamp_def nackOfData_def nack_fromData_def newNack_def
        prepareData_def emptyData_def NACK_OFFSET_def TIMESTAMP_OFFSET_def name_prefix_def)
qed

end

text \<open>An application Nack is recognised by its name, and its name gives back the name that was asked
  for and the time in milliseconds.\<close>

lemma nack_roundtrip:
  assumes "ndn_codec L" and "0 \<le> t" and "t < 2 ^ 40"
  shows "nack_isValidName L (dataName (prepareData L n t)) = Inr True
    \<and> getTimestamp L (nackOfData (prepareData L n t)) = Inr t
    \<and> name_prefix (dataName (prepareData L n t)) NACK_OFFSET = n
    \<and> contentType (prepareData L n t) = tlv_ContentType_Nack"
  using ndn_codec.prepareData_recognised [OF assms] by (simp_all add: prepareData_def)

end
