(* ===== verification/Ndn_Tlv.thy ===== *)
theory Ndn_Tlv
  imports Ndn_Lib
begin

text \<open>
  An instance of the library parameter: the TLV format of the NDN packet specification (VAR-NUMBER
  of 1, 3, 5 or 9 bytes, non-negative integers of 1, 2, 4 or 8 bytes, names as sequences of
  component TLVs, the naming conventions' component types). It shows that the codec laws of
  \<open>Ndn_Lib\<close> can hold together; the witnesses of the development use it. Two points go beyond the
  specification so that the laws hold for every list of bytes: a number of \<open>2 ^ 64\<close> or more is
  written in unary after the otherwise unused (not shortest) prefix \<open>253 0 0\<close>, and a time is
  written as a signed count of microseconds. \<open>sha256\<close> stands for any function; here it is the
  identity.
\<close>

section \<open>Numbers\<close>

primrec be :: "nat \<Rightarrow> nat \<Rightarrow> bytes" where
  "be 0 n = []"
| "be (Suc k) n = be k (n div 256) @ [char_of n]"

definition be_val :: "bytes \<Rightarrow> nat" where
  "be_val bs = foldl (\<lambda>a c. a * 256 + of_char c) 0 bs"

lemma length_be [simp]: "length (be k n) = k"
  by (induction k arbitrary: n) simp_all

lemma be_val_be [simp]: "n < 256 ^ k \<Longrightarrow> be_val (be k n) = n"
proof (induction k arbitrary: n)
  case (Suc k)
  then have "n div 256 < 256 ^ k"
    by (simp add: less_mult_imp_div_less mult.commute)
  then have "be_val (be k (n div 256)) = n div 256" by (rule Suc.IH)
  then show ?case by (simp add: be_val_def)
qed (simp add: be_val_def)

definition byte :: "nat \<Rightarrow> char" where
  "byte n = char_of n"

lemma of_char_byte [simp]: "n < 256 \<Longrightarrow> of_char (byte n) = n"
  by (simp add: byte_def)

definition varNumber :: "nat \<Rightarrow> bytes" where
  "varNumber n =
    (if n < 253 then [byte n]
     else if n < 2 ^ 16 then byte 253 # be 2 n
     else if n < 2 ^ 32 then byte 254 # be 4 n
     else if n < 2 ^ 64 then byte 255 # be 8 n
     else byte 253 # be 2 0 @ replicate n CHR ''1'' @ [CHR ''0''])"

definition readUnary :: "bytes \<Rightarrow> (nat \<times> bytes) option" where
  "readUnary bs = (case dropWhile (\<lambda>c. c = CHR ''1'') bs of
     [] \<Rightarrow> None | c # r \<Rightarrow> Some (length (takeWhile (\<lambda>c. c = CHR ''1'') bs), r))"

definition readFixed :: "nat \<Rightarrow> bytes \<Rightarrow> (nat \<times> bytes) option" where
  "readFixed k bs = (if length bs < k then None else Some (be_val (take k bs), drop k bs))"

definition readVarNumber :: "bytes \<Rightarrow> (nat \<times> bytes) option" where
  "readVarNumber bs = (case bs of [] \<Rightarrow> None | c # r \<Rightarrow>
     let k = (of_char c :: nat) in
     if k < 253 then Some (k, r)
     else if k = 253 then (case readFixed 2 r of None \<Rightarrow> None | Some (v, r') \<Rightarrow>
       if v = 0 then readUnary r' else Some (v, r'))
     else if k = 254 then readFixed 4 r
     else readFixed 8 r)"

lemma readFixed_be [simp]: "n < 256 ^ k \<Longrightarrow> readFixed k (be k n @ r) = Some (n, r)"
  by (simp add: readFixed_def)

lemma readUnary_replicate: "readUnary (replicate n CHR ''1'' @ CHR ''0'' # r) = Some (n, r)"
  by (simp add: readUnary_def takeWhile_append dropWhile_append takeWhile_replicate)

lemma readVarNumber_varNumber [simp]: "readVarNumber (varNumber n @ r) = Some (n, r)"
proof -
  consider "n < 253" | "253 \<le> n" "n < 2 ^ 16" | "2 ^ 16 \<le> n" "n < 2 ^ 32" | "2 ^ 32 \<le> n" "n < 2 ^ 64"
    | "2 ^ 64 \<le> n" by linarith
  then show ?thesis
  proof cases
    case 5
    then have "varNumber n @ r = byte 253 # be 2 0 @ replicate n CHR ''1'' @ CHR ''0'' # r"
      by (simp add: varNumber_def)
    then show ?thesis
      by (simp add: readVarNumber_def readUnary_replicate del: be.simps)
  qed (simp_all add: varNumber_def readVarNumber_def del: be.simps)
qed

lemma varNumber_not_Nil [simp]: "varNumber n \<noteq> []"
  by (simp add: varNumber_def)

definition nni :: "nat \<Rightarrow> bytes" where
  "nni n = (if n < 2 ^ 8 then be 1 n else if n < 2 ^ 16 then be 2 n
            else if n < 2 ^ 32 then be 4 n else be 8 n)"

definition read_nni :: "bytes \<Rightarrow> nat option" where
  "read_nni bs = (if length bs \<in> {1, 2, 4, 8} then Some (be_val bs) else None)"

lemma read_nni_nni [simp]: "n < 2 ^ 64 \<Longrightarrow> read_nni (nni n) = Some n"
  by (simp add: nni_def read_nni_def del: be.simps)

lemma be_val_bound: "be_val bs < 256 ^ length bs"
proof (induction bs rule: rev_induct)
  case (snoc c bs)
  have "of_char c < (256::nat)" by simp
  then have "be_val bs * 256 + of_char c < (be_val bs + 1) * 256" by simp
  also have "\<dots> \<le> 256 ^ length bs * 256"
    using snoc by (intro mult_right_mono) simp_all
  finally show ?case by (simp add: be_val_def mult.commute)
qed (simp add: be_val_def)

lemma read_nni_bound: "read_nni bs = Some n \<Longrightarrow> n < 2 ^ 64"
proof -
  assume "read_nni bs = Some n"
  then have n: "n = be_val bs" and "length bs \<le> 8"
    by (auto simp: read_nni_def split: if_splits)
  then have "(256::nat) ^ length bs \<le> 256 ^ 8"
    by (intro power_increasing) simp_all
  with be_val_bound [of bs] show ?thesis by (simp add: n)
qed

section \<open>Blocks and names\<close>

definition tlv_wire :: "block \<Rightarrow> bytes" where
  "tlv_wire b = varNumber (btype b) @ varNumber (length (bvalue b)) @ bvalue b"

definition tlv_read :: "bytes \<Rightarrow> (block \<times> bytes) option" where
  "tlv_read bs = (case readVarNumber bs of None \<Rightarrow> None | Some (t, r) \<Rightarrow>
     (case readVarNumber r of None \<Rightarrow> None | Some (n, r') \<Rightarrow>
       if length r' < n then None else Some (Block t (take n r'), drop n r')))"

lemma tlv_read_wire [simp]: "tlv_read (tlv_wire b @ r) = Some (b, r)"
  by (simp add: tlv_read_def tlv_wire_def)

lemma tlv_wire_not_Nil [simp]: "tlv_wire b \<noteq> []"
  by (simp add: tlv_wire_def)

function tlv_elements :: "bytes \<Rightarrow> block list option" where
  "tlv_elements bs = (if bs = [] then Some [] else
     (case tlv_read bs of None \<Rightarrow> None | Some (b, r) \<Rightarrow>
       if length r < length bs then map_option (Cons b) (tlv_elements r) else None))"
  by pat_completeness auto
termination
  by (relation "measure length") auto

declare tlv_elements.simps [simp del]

lemma tlv_elements_wires: "tlv_elements (concat (map tlv_wire bs)) = Some bs"
proof (induction bs)
  case Nil
  show ?case by (simp add: tlv_elements.simps)
next
  case (Cons b bs)
  then show ?case
    by (subst tlv_elements.simps) (simp add: neq_Nil_conv)
qed

definition comp_block :: "component \<Rightarrow> block" where
  "comp_block c = Block (ctype c) (cvalue c)"

definition block_comp :: "block \<Rightarrow> component" where
  "block_comp b = Comp (btype b) (bvalue b)"

lemma block_comp_block [simp]: "block_comp (comp_block c) = c"
  by (simp add: block_comp_def comp_block_def)

definition name_bytes :: "name \<Rightarrow> bytes" where
  "name_bytes n = concat (map tlv_wire (map comp_block n))"

definition name_read :: "bytes \<Rightarrow> name option" where
  "name_read v = (case tlv_elements v of None \<Rightarrow> None | Some bs \<Rightarrow>
     let n = map block_comp bs in if wf_name n then Some n else None)"

lemma name_read_bytes [simp]: "wf_name n \<Longrightarrow> name_read (name_bytes n) = Some n"
  unfolding name_read_def name_bytes_def tlv_elements_wires by (simp add: comp_def)

lemma name_read_wf: "name_read v = Some n \<Longrightarrow> wf_name n"
  by (auto simp: name_read_def Let_def split: option.splits if_splits)

section \<open>Data packets and times\<close>

definition data_elems :: "data \<Rightarrow> block list" where
  "data_elems d = Block 7 (name_bytes (dataName d)) # Block 24 (nni (contentType d))
     # Block 25 (nni (nat (freshness d))) # content d # Block 23 (signature d)
     # (case finalBlock d of None \<Rightarrow> [] | Some c \<Rightarrow> [Block 26 (tlv_wire (comp_block c))])"

definition data_read :: "bytes \<Rightarrow> data option" where
  "data_read v = (case tlv_elements v of
     Some (n # t # f # c # s # e) \<Rightarrow>
       (case (name_read (bvalue n), read_nni (bvalue t), read_nni (bvalue f)) of
          (Some nm, Some ty, Some fr) \<Rightarrow> Some \<lparr>dataName = nm, contentType = ty, content = c,
             freshness = int fr, finalBlock = (case e of [] \<Rightarrow> None | b # _ \<Rightarrow>
               map_option (block_comp \<circ> fst) (tlv_read (bvalue b))), signature = bvalue s\<rparr>
        | _ \<Rightarrow> None)
   | _ \<Rightarrow> None)"

definition time_bytes :: "int \<Rightarrow> bytes" where
  "time_bytes t = (let us = t div 1000 in
     (if us < 0 then CHR ''-'' else CHR ''+'') # varNumber (nat \<bar>us\<bar>))"

definition time_read :: "bytes \<Rightarrow> int option" where
  "time_read bs = (case bs of [] \<Rightarrow> None | c # r \<Rightarrow> (case readVarNumber r of None \<Rightarrow> None
     | Some (n, _) \<Rightarrow> Some ((if c = CHR ''-'' then - int n else int n) * 1000)))"

definition ndnTlv :: ndn where
  "ndnTlv = \<lparr>
     wire = tlv_wire,
     elements = tlv_elements,
     readBlock = map_option fst \<circ> tlv_read,
     nniBytes = nni,
     readNni = read_nni,
     nameBytes = name_bytes,
     readName = name_read,
     isoBytes = time_bytes,
     readIso = time_read,
     isoRound = (\<lambda>t. t div 1000 * 1000),
     numberComp = (\<lambda>n. Comp 8 (nni n)),
     readNumber = (\<lambda>c. read_nni (cvalue c)),
     sequenceComp = (\<lambda>n. Comp 58 (nni n)),
     segmentComp = (\<lambda>n. Comp 50 (nni n)),
     readSegment = (\<lambda>c. if ctype c = 50 then read_nni (cvalue c) else None),
     versionComp = (\<lambda>n. Comp 54 (nni n)),
     isVersion = (\<lambda>c. ctype c = 54),
     timestampComp = (\<lambda>t. Comp 56 (nni (nat t * 1000))),
     readTimestamp = (\<lambda>c. if ctype c = 56 then map_option (\<lambda>n. int n div 1000) (read_nni (cvalue c))
                          else None),
     dataBytes = (\<lambda>d. concat (map tlv_wire (data_elems d))),
     readDataBytes = data_read,
     paramsDigest = (\<lambda>b. Comp 2 (tlv_wire b)),
     toUri = name_bytes,
     sha256 = (\<lambda>v. v),
     digestComp = (\<lambda>v. Comp 2 v),
     isCritical = (\<lambda>t. t \<le> 31 \<or> odd t),
     clock = (\<lambda>i. int i * 1000000),
     garbage = 0\<rparr>"

section \<open>The laws hold\<close>

lemma data_read_elems: "wf_data d \<Longrightarrow> data_read (concat (map tlv_wire (data_elems d))) = Some d"
proof -
  assume wf: "wf_data d"
  have fin: "map_option (block_comp \<circ> fst) (tlv_read (tlv_wire (comp_block c))) = Some c" for c
    using tlv_read_wire [of "comp_block c" "[]"] by simp
  from wf have "nat (freshness d) < 2 ^ 64"
    by (auto simp: wf_data_def)
  with wf fin show ?thesis
    unfolding data_read_def tlv_elements_wires
    by (simp add: data_elems_def wf_data_def split: option.splits)
qed

lemma time_read_bytes: "time_read (time_bytes t) = Some (t div 1000 * 1000)"
proof -
  define us where "us = t div 1000"
  have "readVarNumber (varNumber (nat \<bar>us\<bar>)) = Some (nat \<bar>us\<bar>, [])"
    using readVarNumber_varNumber [of "nat \<bar>us\<bar>" "[]"] by (simp del: readVarNumber_varNumber)
  then have "time_read (time_bytes t) = Some (us * 1000)"
    by (cases "us < 0") (simp_all add: time_read_def time_bytes_def flip: us_def)
  then show ?thesis by (simp add: us_def)
qed

lemma nni_inject: "m < 2 ^ 64 \<Longrightarrow> n < 2 ^ 64 \<Longrightarrow> nni m = nni n \<Longrightarrow> m = n"
  by (metis option.inject read_nni_nni)

lemma name_bytes_inject: "name_bytes m = name_bytes n \<Longrightarrow> m = n"
proof -
  assume "name_bytes m = name_bytes n"
  then have "map comp_block m = map comp_block n"
    unfolding name_bytes_def by (metis option.inject tlv_elements_wires)
  then have "map block_comp (map comp_block m) = map block_comp (map comp_block n)" by simp
  then show "m = n" by (simp add: comp_def)
qed

interpretation tlv: ndn_codec ndnTlv
proof unfold_locales
  fix b bs t nm nm' v n d m
  show "elements ndnTlv (concat (map (wire ndnTlv) bs)) = Some bs"
    by (simp add: ndnTlv_def tlv_elements_wires)
  show "readBlock ndnTlv (wire ndnTlv b) = Some b"
    using tlv_read_wire [of b "[]"] by (simp add: ndnTlv_def)
  show "n < 2 ^ 64 \<Longrightarrow> readNni ndnTlv (nniBytes ndnTlv n) = Some n"
    by (simp add: ndnTlv_def)
  show "readNni ndnTlv v = Some n \<Longrightarrow> n < 2 ^ 64"
    using read_nni_bound [of v n] by (simp add: ndnTlv_def)
  show "wf_name nm \<Longrightarrow> readName ndnTlv (nameBytes ndnTlv nm) = Some nm"
    by (simp add: ndnTlv_def)
  show "readName ndnTlv v = Some nm \<Longrightarrow> wf_name nm"
    by (simp add: ndnTlv_def name_read_wf)
  show "readIso ndnTlv (isoBytes ndnTlv t) = Some (isoRound ndnTlv t)"
    by (simp add: ndnTlv_def time_read_bytes)
  show "isoRound ndnTlv (isoRound ndnTlv t) = isoRound ndnTlv t"
    by (simp add: ndnTlv_def)
  show "wf_data d \<Longrightarrow> readDataBytes ndnTlv (dataBytes ndnTlv d) = Some d"
    by (simp add: ndnTlv_def data_read_elems)
  show "n < 2 ^ 64 \<Longrightarrow> readNumber ndnTlv (numberComp ndnTlv n) = Some n"
    by (simp add: ndnTlv_def)
  show "n < 2 ^ 64 \<Longrightarrow> readSegment ndnTlv (segmentComp ndnTlv n) = Some n"
    by (simp add: ndnTlv_def)
  show "toUri ndnTlv nm = toUri ndnTlv nm' \<Longrightarrow> nm = nm'"
    by (simp add: ndnTlv_def name_bytes_inject)
  show "isVersion ndnTlv (versionComp ndnTlv n)"
    by (simp add: ndnTlv_def)
  show "0 \<le> t \<Longrightarrow> t < 2 ^ 50 \<Longrightarrow> readTimestamp ndnTlv (timestampComp ndnTlv t) = Some t"
  proof -
    assume "0 \<le> t" "t < 2 ^ 50"
    then have "nat t * 1000 < 2 ^ 64" by simp
    with \<open>0 \<le> t\<close> show ?thesis by (simp add: ndnTlv_def)
  qed
  show "wf_component (numberComp ndnTlv n)" "wf_component (sequenceComp ndnTlv n)"
    "wf_component (digestComp ndnTlv v)"
    by (simp_all add: ndnTlv_def wf_component_def)
  show "m < 2 ^ 64 \<Longrightarrow> n < 2 ^ 64 \<Longrightarrow> sequenceComp ndnTlv m = sequenceComp ndnTlv n \<Longrightarrow> m = n"
    by (simp add: ndnTlv_def nni_inject)
qed

end
