(* ===== verification/Append_Options.thy ===== *)
theory Append_Options
  imports Append_Common Nack Ndn_Tlv
begin

text \<open>
  The messages of the append protocol (\<open>src/append/client-options\<close>, \<open>src/append/ledger-options\<close>): the
  notification of the client, the fetcher of the ledger, the submission and the acknowledgement. Main
  facts: the ledger reads out of a notification what the client put in, so that its acknowledgement
  carries the name of the notification; the fetcher lies below the client's interest filter and has the
  name of the submission; the statuses of an acknowledgement are read back in order.

  The callbacks of \<open>ClientOptions\<close> are no part of the record: \<open>Append_Client\<close> collects their calls.
\<close>

section \<open>Client options\<close>

record client_options =
  optTopic :: name
  optPrefix :: name
  optNonce :: nat
  optNonce2 :: nat
  optRetries :: int
  optFwHint :: name

definition MAX_RETRIES :: int where "MAX_RETRIES = 3"

definition clientOptions :: "name \<Rightarrow> name \<Rightarrow> nat \<Rightarrow> client_options" where
  "clientOptions pfx topic nonce = \<lparr>optTopic = topic, optPrefix = pfx, optNonce = nonce, optNonce2 = 0,
     optRetries = 0, optFwHint = []\<rparr>"

definition clientOptionsHint :: "name \<Rightarrow> name \<Rightarrow> nat \<Rightarrow> name \<Rightarrow> client_options" where
  "clientOptionsHint pfx topic nonce fwHint = (clientOptions pfx topic nonce)\<lparr>optFwHint := fwHint\<rparr>"

definition exhaustRetries :: "client_options \<Rightarrow> bool \<times> client_options" where
  "exhaustRetries opts = (optRetries opts > MAX_RETRIES, opts\<lparr>optRetries := optRetries opts + 1\<rparr>)"

definition paramsOf :: "ndn \<Rightarrow> client_options \<Rightarrow> block" where
  "paramsOf L opts = encodeBlock L tlv_ApplicationParameters
     ([nestedName L TLV_AppenderPrefix (optPrefix opts)]
      @ (if optFwHint opts \<noteq> [] then [nestedName L tlv_ForwardingHint (optFwHint opts)] else [])
      @ [nniBlock L TLV_AppenderNonce (optNonce opts)])"

definition makeNotification :: "ndn \<Rightarrow> client_options \<Rightarrow> interest" where
  "makeNotification L opts = (let params = paramsOf L opts in
     \<lparr>interestName = optTopic opts @ [generic ''notify'', paramsDigest L params], canBePrefix = False,
      mustBeFresh = False, forwardingHint = [], appParams = Some params\<rparr>)"

definition makeInterestFilter :: "ndn \<Rightarrow> client_options \<Rightarrow> name" where
  "makeInterestFilter L opts = optPrefix opts @ generic ''msg'' # optTopic opts @ [numberComp L (optNonce opts)]"

definition makeSubmission :: "ndn \<Rightarrow> client_options \<Rightarrow> data list \<Rightarrow> data" where
  "makeSubmission L opts dataList = (emptyData (optPrefix opts @ generic ''msg'' # optTopic opts
       @ [numberComp L (optNonce opts), numberComp L (optNonce2 opts)]))
     \<lparr>content := encodeBlock L tlv_Content (map (dataBlock L) dataList)\<rparr>"

definition ackItem :: "ndn \<Rightarrow> append_status list \<Rightarrow> block \<Rightarrow> exn + append_status list" where
  "ackItem L statusList item =
    (if btype item = TLV_AppendStatusCode then
       bindE (nniOf L item) (\<lambda>n. Inr (statusList @ [append_statusOf n]))
     else if isCritical L (btype item) then Inl (RuntimeError ''Unrecognized TLV Type'')
     else Inr statusList)"

definition praseAck :: "ndn \<Rightarrow> data \<Rightarrow> exn + append_status list" where
  "praseAck L d = bindE (parseBlock L (content d)) (foldE (ackItem L) [])"

section \<open>Ledger options\<close>

definition notificationItem :: "ndn \<Rightarrow> name \<times> name \<times> nat \<Rightarrow> block \<Rightarrow> exn + name \<times> name \<times> nat" where
  "notificationItem L acc item = (case acc of (pfx, fwHint, nonce) \<Rightarrow>
     if btype item = TLV_AppenderPrefix then bindE (nameOfNested L item) (\<lambda>n. Inr (n, fwHint, nonce))
     else if btype item = tlv_ForwardingHint then bindE (nameOfNested L item) (\<lambda>n. Inr (pfx, n, nonce))
     else if btype item = TLV_AppenderNonce then bindE (nniOf L item) (\<lambda>n. Inr (pfx, fwHint, n))
     else if isCritical L (btype item) then Inl (RuntimeError ''Unrecognized TLV Type'')
     else Inr (pfx, fwHint, nonce))"

text \<open>An interest without application parameters has none to parse.\<close>

definition praseNotification :: "ndn \<Rightarrow> name \<Rightarrow> interest \<Rightarrow> exn + client_options" where
  "praseNotification L topic i =
     bindE (case appParams i of None \<Rightarrow> Inr [] | Some params \<Rightarrow> parseBlock L params) (\<lambda>els.
     bindE (foldE (notificationItem L) ([], [], InvalidNonce) els) (\<lambda>(pfx, fwHint, nonce).
     Inr (if fwHint = [] then clientOptions pfx topic nonce else clientOptionsHint pfx topic nonce fwHint)))"

text \<open>\<open>nonce2\<close> is the random number drawn; the client options keep it.\<close>

definition makeFetcher :: "ndn \<Rightarrow> name \<Rightarrow> nat \<Rightarrow> client_options \<Rightarrow> interest \<times> client_options" where
  "makeFetcher L topic nonce2 opts = (let opts' = opts\<lparr>optNonce2 := nonce2\<rparr> in
     (\<lparr>interestName = optPrefix opts' @ generic ''msg'' # topic
         @ [numberComp L (optNonce opts'), numberComp L (optNonce2 opts')],
       canBePrefix = False, mustBeFresh = False,
       forwardingHint = (if optFwHint opts' \<noteq> [] then [optFwHint opts'] else []), appParams = None\<rparr>,
      opts'))"

definition makeNotificationAck :: "ndn \<Rightarrow> client_options \<Rightarrow> append_status list \<Rightarrow> data" where
  "makeNotificationAck L opts statusList = (emptyData (interestName (makeNotification L opts)))
     \<lparr>content := encodeBlock L tlv_Content (map (\<lambda>s. nniBlock L TLV_AppendStatusCode (append_code s)) statusList)\<rparr>"

section \<open>Reading the messages back\<close>

definition wf_options :: "client_options \<Rightarrow> bool" where
  "wf_options opts \<longleftrightarrow> wf_name (optPrefix opts) \<and> wf_name (optFwHint opts) \<and> wf_name (optTopic opts)
     \<and> optNonce opts < 2 ^ 64"

context tlv_codec
begin

lemma notification_known:
  "wf_name n \<Longrightarrow> notificationItem L (p, h, k) (nestedName L TLV_AppenderPrefix n) = Inr (n, h, k)"
  "wf_name n \<Longrightarrow> notificationItem L (p, h, k) (nestedName L tlv_ForwardingHint n) = Inr (p, n, k)"
  "m < 2 ^ 64 \<Longrightarrow> notificationItem L (p, h, k) (nniBlock L TLV_AppenderNonce m) = Inr (p, h, m)"
  by (simp_all add: notificationItem_def nameOfNested_nestedName nniOf_nniBlock append_tlv tlv_types)

lemma praseNotification_makeNotification:
  assumes "wf_options opts"
  shows "praseNotification L (optTopic opts) (makeNotification L opts) =
    Inr (opts\<lparr>optNonce2 := 0, optRetries := 0\<rparr>)"
proof -
  have "parseBlock L (paramsOf L opts) = Inr ([nestedName L TLV_AppenderPrefix (optPrefix opts)]
      @ (if optFwHint opts \<noteq> [] then [nestedName L tlv_ForwardingHint (optFwHint opts)] else [])
      @ [nniBlock L TLV_AppenderNonce (optNonce opts)])"
    unfolding paramsOf_def by (rule parseBlock_encodeBlock) (simp add: append_tlv tlv_types)
  then show ?thesis
    using assms
    by (cases "optFwHint opts = []")
       (simp_all add: praseNotification_def makeNotification_def Let_def foldE_append notification_known wf_options_def
         clientOptions_def clientOptionsHint_def)
qed

lemma ackItem_statuses: "list_all wf_append_status ss \<Longrightarrow>
  foldE (ackItem L) acc (map (\<lambda>s. nniBlock L TLV_AppendStatusCode (append_code s)) ss) = Inr (acc @ ss)"
proof (induction ss arbitrary: acc)
  case (Cons s ss)
  then have "ackItem L acc (nniBlock L TLV_AppendStatusCode (append_code s)) = Inr (acc @ [s])"
    by (simp add: ackItem_def nniOf_nniBlock wf_append_status_def)
  then show ?case using Cons by simp
qed simp

lemma praseAck_makeNotificationAck:
  assumes "list_all wf_append_status ss" and "content d = content (makeNotificationAck L opts ss)"
  shows "praseAck L d = Inr ss"
proof -
  have "parseBlock L (content (makeNotificationAck L opts ss)) =
      Inr (map (\<lambda>s. nniBlock L TLV_AppendStatusCode (append_code s)) ss)"
    by (simp add: makeNotificationAck_def parseBlock_encodeBlock append_tlv list_all_iff)
  then show ?thesis using ackItem_statuses [OF assms(1), of "[]"] by (simp add: praseAck_def assms(2))
qed

end

lemma makeNotification_cong:
  "optTopic a = optTopic b \<Longrightarrow> optPrefix a = optPrefix b \<Longrightarrow> optNonce a = optNonce b \<Longrightarrow> optFwHint a = optFwHint b \<Longrightarrow>
   makeNotification L a = makeNotification L b"
  by (simp add: makeNotification_def paramsOf_def)

section \<open>Properties\<close>

definition demoOptions :: client_options where
  "demoOptions = clientOptionsHint [generic ''bob''] [generic ''ledger'', generic ''append''] 7 [generic ''hint'']"

lemma demo_options [simp]: "wf_options demoOptions"
  by (simp add: wf_options_def demoOptions_def clientOptionsHint_def clientOptions_def)

text \<open>The ledger's acknowledgement has the name of the notification it answers (otherwise it would not
  reach the client), whatever the statuses: the parameters it rebuilds from the parsed notification are the
  client's, digest included.\<close>

lemma ack_answers_notification:
  assumes "tlv_codec L" and "wf_options opts"
  shows "\<exists>parsed. praseNotification L (optTopic opts) (makeNotification L opts) = Inr parsed
    \<and> dataName (makeNotificationAck L (snd (makeFetcher L (optTopic opts) k parsed)) ss) = interestName (makeNotification L opts)"
proof -
  have "makeNotification L (snd (makeFetcher L (optTopic opts) k (opts\<lparr>optNonce2 := 0, optRetries := 0\<rparr>))) =
      makeNotification L opts"
    by (rule makeNotification_cong) (simp_all add: makeFetcher_def Let_def)
  then show ?thesis
    by (simp add: tlv_codec.praseNotification_makeNotification [OF assms] makeNotificationAck_def emptyData_def)
qed

text \<open>C27: the client reads the statuses of an acknowledgement in the order the ledger gave them.\<close>

theorem ack_roundtrip:
  assumes "tlv_codec L" and "list_all wf_append_status ss"
  shows "praseAck L (makeNotificationAck L opts ss) = Inr ss"
  using tlv_codec.praseAck_makeNotificationAck [OF assms refl] .

theorem ack_roundtrip_witness:
  "praseAck ndnTlv (makeNotificationAck ndnTlv demoOptions [SUCCESS, FAILURE_STORAGE, SUCCESS]) =
   Inr [SUCCESS, FAILURE_STORAGE, SUCCESS]"
  by (rule ack_roundtrip [OF tlv.tlv_codec_axioms]) simp

end
