(* ===== verification/Append_Client.thy ===== *)
theory Append_Client
  imports Append_Options
begin

text \<open>
  The submitting side (\<open>src/append/client\<close>): \<open>Client\<close> notifies the ledger, hands out the submission
  when it is fetched, and waits for the acknowledgement. The callbacks that the code gives to the face
  are the operations \<open>onFetch\<close>, \<open>onAck\<close>, \<open>onNotificationNack\<close> and \<open>onNotificationTimeout\<close> here; a
  task is what those callbacks capture of one call of \<open>appendData\<close>. All tasks share one \<open>Handle\<close>.
\<close>

datatype sent = Express interest | Send data

datatype outcome = OnSuccess "data list" data | OnFailure "data list" client_error

text \<open>The environment of a client: the library, signing, validation, and the random numbers.\<close>

record append_env =
  envLib :: ndn
  envSign :: "name \<Rightarrow> data \<Rightarrow> data"
  envValidate :: "data \<Rightarrow> validation"
  envRandom :: "nat \<Rightarrow> nat"

record task =
  taskOptions :: client_options
  taskData :: "data list"
  taskFilter :: nat

record client =
  clientPrefix :: name
  clientHandle :: handle
  clientRetryCount :: int
  tasks :: "task list"
  sentPackets :: "sent list"
  outcomes :: "outcome list"
  drawn :: nat

definition newClient :: "name \<Rightarrow> client" where
  "newClient pfx = \<lparr>clientPrefix = pfx, clientHandle = newHandle, clientRetryCount = 0, tasks = [],
     sentPackets = [], outcomes = [], drawn = 0\<rparr>"

text \<open>The second constructor takes a forwarding hint and does not keep it.\<close>

definition newClientHint :: "name \<Rightarrow> name \<Rightarrow> client" where
  "newClientHint pfx fwHint = newClient pfx"

definition sendOut :: "sent \<Rightarrow> (client, unit) cm" where
  "sendOut p = modifyM (\<lambda>c. c\<lparr>sentPackets := sentPackets c @ [p]\<rparr>)"

definition report :: "outcome \<Rightarrow> (client, unit) cm" where
  "report r = modifyM (\<lambda>c. c\<lparr>outcomes := outcomes c @ [r]\<rparr>)"

definition taskM :: "nat \<Rightarrow> (client, task) cm" where
  "taskM k = getsM (\<lambda>c. tasks c ! k)"

definition setOptions :: "nat \<Rightarrow> client_options \<Rightarrow> (client, unit) cm" where
  "setOptions k opts = modifyM (\<lambda>c. c\<lparr>tasks := (tasks c)[k := (tasks c ! k)\<lparr>taskOptions := opts\<rparr>]\<rparr>)"

section \<open>Notifications\<close>

definition dispatchNotification :: "append_env \<Rightarrow> nat \<Rightarrow> (client, unit) cm" where
  "dispatchNotification E k =
     bindM (taskM k) (\<lambda>t.
     let i = makeNotification (envLib E) (taskOptions t);
         (exhausted, opts) = exhaustRetries (taskOptions t) in
     bindM (setOptions k opts) (\<lambda>_.
     if exhausted then
       report (OnFailure (taskData t) \<lparr>errCode = TIMEOUT, errInfo = toUri (envLib E) (interestName i) @ '' not acked''\<rparr>)
     else sendOut (Express i)))"

definition onNotificationNack :: "append_env \<Rightarrow> nat \<Rightarrow> (client, unit) cm" where
  "onNotificationNack E k = bindM (taskM k) (\<lambda>t.
     let i = makeNotification (envLib E) (taskOptions t) in
     report (OnFailure (taskData t) \<lparr>errCode = NACK_ERROR, errInfo = toUri (envLib E) (interestName i)\<rparr>))"

definition onNotificationTimeout :: "append_env \<Rightarrow> nat \<Rightarrow> (client, unit) cm" where
  "onNotificationTimeout E k = dispatchNotification E k"

section \<open>Acknowledgements\<close>

text \<open>The loop over the statuses only writes log messages.\<close>

definition client_onValidationSuccess :: "append_env \<Rightarrow> nat \<Rightarrow> data \<Rightarrow> (client, unit) cm" where
  "client_onValidationSuccess E k ack =
     bindM (taskM k) (\<lambda>t.
     bindM (liftE (praseAck (envLib E) ack)) (\<lambda>statusList.
     bindM (modifyM (\<lambda>c. c\<lparr>clientRetryCount := 0\<rparr>)) (\<lambda>_.
     report (OnSuccess (taskData t) ack))))"

definition client_onValidationFailure :: "nat \<Rightarrow> string \<Rightarrow> (client, unit) cm" where
  "client_onValidationFailure k info = bindM (taskM k) (\<lambda>t.
     report (OnFailure (taskData t) \<lparr>errCode = VALIDATION_ERROR, errInfo = info\<rparr>))"

definition onAck :: "append_env \<Rightarrow> nat \<Rightarrow> data \<Rightarrow> (client, unit) cm" where
  "onAck E k ack =
     bindM (modifyM (\<lambda>c. c\<lparr>clientHandle := unregisterFilters (clientHandle c)\<rparr>)) (\<lambda>_.
     case envValidate E ack of
       Valid \<Rightarrow> client_onValidationSuccess E k ack
     | Invalid info \<Rightarrow> client_onValidationFailure k info)"

section \<open>Submissions\<close>

definition answerFetch :: "append_env \<Rightarrow> nat \<Rightarrow> interest \<Rightarrow> (client, unit) cm" where
  "answerFetch E k i =
     bindM (taskM k) (\<lambda>t.
     if optNonce2 (taskOptions t) > 0 then ret ()
     else
       bindM (liftE (bindE (name_get (interestName i) (- 1)) (\<lambda>c.
         of_option (TlvError ''toNumber'') (readNumber (envLib E) c)))) (\<lambda>nonce2.
       let opts = (taskOptions t)\<lparr>optNonce2 := nonce2\<rparr> in
       bindM (setOptions k opts) (\<lambda>_.
       sendOut (Send (envSign E (optPrefix opts) (makeSubmission (envLib E) opts (taskData t)))))))"

text \<open>The face hands an interest to every filter that is still registered and whose prefix it has.\<close>

definition filterMatches :: "append_env \<Rightarrow> client \<Rightarrow> interest \<Rightarrow> nat \<Rightarrow> bool" where
  "filterMatches E c i k \<longleftrightarrow> (let t = tasks c ! k; f = makeInterestFilter (envLib E) (taskOptions t) in
     taskFilter t \<in> activeFilters (clientHandle c) \<and> take (length f) (interestName i) = f)"

definition onFetch :: "append_env \<Rightarrow> interest \<Rightarrow> (client, unit) cm" where
  "onFetch E i = bindM (getsM (\<lambda>c. filter (filterMatches E c i) [0..<length (tasks c)])) (\<lambda>ks.
     forM (\<lambda>k. answerFetch E k i) ks)"

text \<open>A registration is known by the number of filters set before it.\<close>

definition appendData :: "append_env \<Rightarrow> name \<Rightarrow> data list \<Rightarrow> (client, nat) cm" where
  "appendData E topic dataList =
     (if topic = [] \<or> dataList = [] \<or> dataName (hd dataList) = [] then ret InvalidNonce
      else
        bindM (getsM (\<lambda>c. c)) (\<lambda>c.
        let opts = clientOptions (clientPrefix c) topic (envRandom E (drawn c));
            filterId = length (filterHandles (clientHandle c));
            k = length (tasks c) in
        bindM (modifyM (\<lambda>c. c\<lparr>drawn := Suc (drawn c),
          clientHandle := handleFilter filterId (clientHandle c),
          tasks := tasks c @ [\<lparr>taskOptions = opts, taskData = dataList, taskFilter = filterId\<rparr>]\<rparr>)) (\<lambda>_.
        bindM (dispatchNotification E k) (\<lambda>_.
        ret (optNonce opts)))))"

end
