(* ===== verification/Append_Ledger.thy ===== *)
theory Append_Ledger
  imports Append_Client
begin

text \<open>
  The receiving side (\<open>src/append/ledger\<close>): \<open>Ledger\<close> listens for notifications, fetches the submission of
  each, hands its packets to the update callback one by one and acknowledges the notification with the
  statuses. The state \<open>'u\<close> is that of the owner of the callback; \<open>served\<close> are the client options shared by
  the callbacks of a notification, addressed by their position.
\<close>

record 'u append_ledger =
  alPrefix :: name
  alTopic :: name
  alRetryCount :: int
  alHandle :: handle
  listening :: bool
  served :: "client_options list"
  alSent :: "sent list"
  alDrawn :: nat
  user :: 'u

definition newAppendLedger :: "name \<Rightarrow> name \<Rightarrow> 'u \<Rightarrow> 'u append_ledger" where
  "newAppendLedger pfx topic u = \<lparr>alPrefix = pfx, alTopic = topic, alRetryCount = 0, alHandle = newHandle,
     listening = False, served = [], alSent = [], alDrawn = 0, user = u\<rparr>"

type_synonym ('u, 'a) al = "('u append_ledger, 'a) cm"

type_synonym 'u update = "data \<Rightarrow> ('u, append_status) cm"

definition liftUser :: "('u, 'a) cm \<Rightarrow> ('u, 'a) al" where
  "liftUser m = (\<lambda>s. case m (user s) of (r, u) \<Rightarrow> (r, s\<lparr>user := u\<rparr>))"

definition putOut :: "sent \<Rightarrow> ('u, unit) al" where
  "putOut p = modifyM (\<lambda>s. s\<lparr>alSent := alSent s @ [p]\<rparr>)"

definition sendAck :: "append_env \<Rightarrow> nat \<Rightarrow> append_status list \<Rightarrow> ('u, unit) al" where
  "sendAck E k statusList = bindM (getsM (\<lambda>s. s)) (\<lambda>s.
     putOut (Send (envSign E (alPrefix s) (makeNotificationAck (envLib E) (served s ! k) statusList))))"

definition nextFetcher :: "append_env \<Rightarrow> nat \<Rightarrow> ('u, interest) al" where
  "nextFetcher E k = bindM (getsM (\<lambda>s. s)) (\<lambda>s.
     let (fetcher, opts) = makeFetcher (envLib E) (alTopic s) (envRandom E (alDrawn s)) (served s ! k) in
     bindM (modifyM (\<lambda>s. s\<lparr>alDrawn := Suc (alDrawn s), served := (served s)[k := opts]\<rparr>)) (\<lambda>_.
     ret fetcher))"

definition serveClient :: "append_env \<Rightarrow> nat \<Rightarrow> ('u, unit) al" where
  "serveClient E k =
     bindM (nextFetcher E k) (\<lambda>fetcher.
     bindM (getsM (\<lambda>s. exhaustRetries (served s ! k))) (\<lambda>(exhausted, opts).
     bindM (modifyM (\<lambda>s. s\<lparr>served := (served s)[k := opts]\<rparr>)) (\<lambda>_.
     if exhausted then sendAck E k [FAILURE_TIMEOUT]
     else putOut (Express fetcher))))"

definition onFetcherNack :: "append_env \<Rightarrow> nat \<Rightarrow> ('u, unit) al" where
  "onFetcherNack E k = sendAck E k [FAILURE_NACK]"

definition onFetcherTimeout :: "append_env \<Rightarrow> nat \<Rightarrow> ('u, unit) al" where
  "onFetcherTimeout E k = serveClient E k"

definition submissionItem :: "append_env \<Rightarrow> 'u update \<Rightarrow> append_status list \<Rightarrow> block \<Rightarrow> ('u, append_status list) al" where
  "submissionItem E onUpdate statusList item =
    (if btype item = tlv_Data then
       bindM (liftE (dataOf (envLib E) item)) (\<lambda>d.
       bindM (liftUser (onUpdate d)) (\<lambda>statusCode. ret (statusList @ [statusCode])))
     else if isCritical (envLib E) (btype item) then raise (RuntimeError ''Unrecognized TLV Type'')
     else ret statusList)"

definition ledger_onValidationSuccess :: "append_env \<Rightarrow> 'u update \<Rightarrow> data \<Rightarrow> nat \<Rightarrow> ('u, unit) al" where
  "ledger_onValidationSuccess E onUpdate d k =
     bindM (modifyM (\<lambda>s. s\<lparr>alRetryCount := 0\<rparr>)) (\<lambda>_.
     bindM (liftE (parseBlock (envLib E) (content d))) (\<lambda>els.
     bindM (foldM (submissionItem E onUpdate) [] els) (\<lambda>statusList.
     sendAck E k statusList)))"

definition ledger_onValidationFailure :: "append_env \<Rightarrow> nat \<Rightarrow> ('u, unit) al" where
  "ledger_onValidationFailure E k = sendAck E k [FAILURE_VALIDATION_PROTO]"

definition onSubmission :: "append_env \<Rightarrow> 'u update \<Rightarrow> nat \<Rightarrow> data \<Rightarrow> ('u, unit) al" where
  "onSubmission E onUpdate k d = (case envValidate E d of
     Valid \<Rightarrow> ledger_onValidationSuccess E onUpdate d k
   | Invalid _ \<Rightarrow> ledger_onValidationFailure E k)"

definition onNotification :: "append_env \<Rightarrow> interest \<Rightarrow> ('u, nat) al" where
  "onNotification E i = bindM (getsM (\<lambda>s. s)) (\<lambda>s.
     bindM (liftE (praseNotification (envLib E) (alTopic s) i)) (\<lambda>opts.
     let k = length (served s) in
     bindM (modifyM (\<lambda>s. s\<lparr>served := served s @ [opts]\<rparr>)) (\<lambda>_.
     bindM (nextFetcher E k) (\<lambda>_.
     bindM (serveClient E k) (\<lambda>_. ret k)))))"

definition listen :: "('u, unit) al" where
  "listen = bindM (getsM alTopic) (\<lambda>topic.
     if topic = [] then ret ()
     else modifyM (\<lambda>s. s\<lparr>listening := True,
       alHandle := handleFilter (length (filterHandles (alHandle s))) (alHandle s)\<rparr>))"

section \<open>Runs of the ledger's side\<close>

text \<open>The update callback applied to the packets in order.\<close>

definition updateAll :: "'u update \<Rightarrow> data list \<Rightarrow> ('u, append_status list) cm" where
  "updateAll onUpdate ds = foldM (\<lambda>ss d. bindM (onUpdate d) (\<lambda>s. ret (ss @ [s]))) [] ds"

lemma sendAck_run: "sendAck E k ss s =
  (Inr (), s\<lparr>alSent := alSent s @ [Send (envSign E (alPrefix s) (makeNotificationAck (envLib E) (served s ! k) ss))]\<rparr>)"
  by (simp add: sendAck_def putOut_def bindM_def getsM_def modifyM_def)

lemma serveClient_run:
  assumes "k < length (served s)" and "opts = served s ! k" and "nonce2 = envRandom E (alDrawn s)"
    and "opts' = opts\<lparr>optNonce2 := nonce2, optRetries := optRetries opts + 1\<rparr>"
  shows "serveClient E k s = (Inr (), s\<lparr>alDrawn := Suc (alDrawn s), served := (served s)[k := opts'],
    alSent := alSent s @ [if optRetries opts > MAX_RETRIES
      then Send (envSign E (alPrefix s) (makeNotificationAck (envLib E) opts' [FAILURE_TIMEOUT]))
      else Express (fst (makeFetcher (envLib E) (alTopic s) nonce2 opts))]\<rparr>)"
  using assms
  by (simp add: serveClient_def nextFetcher_def makeFetcher_def exhaustRetries_def Let_def bindM_def getsM_def
      modifyM_def ret_def sendAck_run putOut_def)

lemma updateItems:
  assumes "ndn_codec (envLib E)" and "list_all wf_data ds"
    and "foldM (\<lambda>ss d. bindM (onUpdate d) (\<lambda>s. ret (ss @ [s]))) acc ds (user s) = (r, u)"
  shows "foldM (submissionItem E onUpdate) acc (map (dataBlock (envLib E)) ds) s = (r, s\<lparr>user := u\<rparr>)"
  using assms(2,3)
proof (induction ds arbitrary: acc s)
  case Nil
  then show ?case by (simp add: ret_def)
next
  case (Cons d ds)
  have d: "dataOf (envLib E) (dataBlock (envLib E) d) = Inr d"
    using Cons.prems(1) ndn_codec.readDataBytes_dataBytes [OF assms(1)] by (simp add: dataOf_def dataBlock_def)
  obtain x u1 where x: "onUpdate d (user s) = (x, u1)" by force
  show ?case
  proof (cases x)
    case (Inl e)
    with x d Cons.prems show ?thesis by (auto simp: submissionItem_def bindM_def liftE_def liftUser_def)
  next
    case (Inr st)
    have "foldM (\<lambda>ss d. bindM (onUpdate d) (\<lambda>s. ret (ss @ [s]))) (acc @ [st]) ds (user (s\<lparr>user := u1\<rparr>)) = (r, u)"
      using x Inr Cons.prems(2) by (simp add: bindM_def ret_def)
    from Cons.IH [OF _ this] Cons.prems(1) x d Inr show ?thesis
      by (simp add: submissionItem_def bindM_def liftE_def liftUser_def ret_def)
  qed
qed

lemma onSubmission_run:
  assumes "ndn_codec (envLib E)" and "list_all wf_data ds" and "envValidate E d = Valid"
    and "content d = encodeBlock (envLib E) tlv_Content (map (dataBlock (envLib E)) ds)"
    and "updateAll onUpdate ds (user s) = (Inr ss, u)"
  shows "onSubmission E onUpdate k d s = (Inr (), s\<lparr>alRetryCount := 0, user := u, alSent := alSent s @
    [Send (envSign E (alPrefix s) (makeNotificationAck (envLib E) (served s ! k) ss))]\<rparr>)"
proof -
  have "tlv_codec (envLib E)" using assms(1) by (simp add: ndn_codec_def)
  then have "parseBlock (envLib E) (content d) = Inr (map (dataBlock (envLib E)) ds)"
    by (simp add: assms(4) tlv_codec.parseBlock_encodeBlock list_all_iff)
  moreover have "foldM (submissionItem E onUpdate) [] (map (dataBlock (envLib E)) ds) (s\<lparr>alRetryCount := 0\<rparr>) =
      (Inr ss, s\<lparr>alRetryCount := 0, user := u\<rparr>)"
    using updateItems [OF assms(1,2), of onUpdate "[]" "s\<lparr>alRetryCount := 0\<rparr>"] assms(5) by (simp add: updateAll_def)
  ultimately show ?thesis
    by (simp add: onSubmission_def assms(3) ledger_onValidationSuccess_def bindM_def modifyM_def liftE_def sendAck_run)
qed

lemma onNotification_run:
  assumes "tlv_codec (envLib E)" and "wf_options opts" and "optTopic opts = alTopic s"
    and "nonce2 = envRandom E (Suc (alDrawn s))"
  shows "onNotification E (makeNotification (envLib E) opts) s = (Inr (length (served s)),
    s\<lparr>alDrawn := alDrawn s + 2, served := served s @ [opts\<lparr>optNonce2 := nonce2, optRetries := 1\<rparr>],
      alSent := alSent s @ [Express (fst (makeFetcher (envLib E) (alTopic s) nonce2 opts))]\<rparr>)"
proof -
  let ?k = "length (served s)" and ?o = "opts\<lparr>optNonce2 := 0, optRetries := 0\<rparr>"
  let ?t = "s\<lparr>alDrawn := Suc (alDrawn s), served := served s @ [?o\<lparr>optNonce2 := envRandom E (alDrawn s)\<rparr>]\<rparr>"
  have parse: "praseNotification (envLib E) (alTopic s) (makeNotification (envLib E) opts) = Inr ?o"
    using tlv_codec.praseNotification_makeNotification [OF assms(1,2)] assms(3) by simp
  have "serveClient E ?k ?t = (Inr (), ?t\<lparr>alDrawn := Suc (alDrawn ?t),
      served := (served ?t)[?k := opts\<lparr>optNonce2 := nonce2, optRetries := 1\<rparr>],
      alSent := alSent ?t @ [Express (fst (makeFetcher (envLib E) (alTopic s) nonce2 opts))]\<rparr>)"
    by (subst serveClient_run [OF _ refl refl refl])
       (simp_all add: assms(4) MAX_RETRIES_def makeFetcher_def Let_def)
  then show ?thesis
    by (simp add: onNotification_def nextFetcher_def makeFetcher_def Let_def parse bindM_def getsM_def liftE_def
        modifyM_def ret_def)
qed

end
