(* ===== verification/Ledger_Record.thy ===== *)
theory Ledger_Record
  imports Ndn_Lib
begin

text \<open>
  The class \<open>Record\<close> (\<open>src/record.hpp\<close>, \<open>src/record.cpp\<close>): a ledger record with its type, the
  names of the records it points to and the submitted packet as payload; its encoding as a Content
  block and the constructor that decodes one. Main facts: decoding what was encoded gives the
  record back, an unknown critical element is refused, an unknown non-critical one is skipped.
\<close>

section \<open>Types and constants\<close>

definition GENERIC_RECORD :: "32 word" where "GENERIC_RECORD = 1"
definition GENESIS_RECORD :: "32 word" where "GENESIS_RECORD = 4"
definition REPLY_RECORD :: "32 word" where "REPLY_RECORD = 5"

definition TLV_RECORD_TYPE :: nat where "TLV_RECORD_TYPE = 211"
definition TLV_RECORD_POINTER :: nat where "TLV_RECORD_POINTER = 212"
definition TLV_RECORD_PAYLOAD :: nat where "TLV_RECORD_PAYLOAD = 213"

lemmas record_tlv = TLV_RECORD_TYPE_def TLV_RECORD_POINTER_def TLV_RECORD_PAYLOAD_def

lemma record_types_distinct [simp]:
  "GENERIC_RECORD \<noteq> GENESIS_RECORD" "GENERIC_RECORD \<noteq> REPLY_RECORD" "GENESIS_RECORD \<noteq> REPLY_RECORD"
  "GENESIS_RECORD \<noteq> GENERIC_RECORD" "REPLY_RECORD \<noteq> GENERIC_RECORD" "REPLY_RECORD \<noteq> GENESIS_RECORD"
  by (simp_all add: GENERIC_RECORD_def GENESIS_RECORD_def REPLY_RECORD_def)

record ledger_record =
  recName :: name
  recType :: "32 word"
  pointers :: "name list"
  payload :: bytes

definition wf_record :: "ledger_record \<Rightarrow> bool" where
  "wf_record r \<longleftrightarrow> wf_name (recName r) \<and> list_all wf_name (pointers r)"

section \<open>Operations\<close>

text \<open>The default constructor; the setters are record updates.\<close>

definition newRecord :: ledger_record where
  "newRecord = \<lparr>recName = [], recType = GENERIC_RECORD, pointers = [], payload = []\<rparr>"

definition setName :: "ledger_record \<Rightarrow> name \<Rightarrow> ledger_record" where
  "setName r n = r\<lparr>recName := n\<rparr>"

definition setType :: "ledger_record \<Rightarrow> 32 word \<Rightarrow> ledger_record" where
  "setType r t = r\<lparr>recType := t\<rparr>"

definition setPointers :: "ledger_record \<Rightarrow> name list \<Rightarrow> ledger_record" where
  "setPointers r ns = r\<lparr>pointers := ns\<rparr>"

definition addPointer :: "ledger_record \<Rightarrow> name \<Rightarrow> ledger_record" where
  "addPointer r n = r\<lparr>pointers := pointers r @ [n]\<rparr>"

definition setPayload :: "ledger_record \<Rightarrow> bytes \<Rightarrow> ledger_record" where
  "setPayload r p = r\<lparr>payload := p\<rparr>"

lemmas record_setters = setName_def setType_def setPointers_def addPointer_def setPayload_def

definition isGenesis :: "ledger_record \<Rightarrow> bool" where
  "isGenesis r \<longleftrightarrow> recType r = GENESIS_RECORD"

definition prepareContent :: "ndn \<Rightarrow> ledger_record \<Rightarrow> block" where
  "prepareContent L r = encodeBlock L tlv_Content
     [nniBlock L TLV_RECORD_TYPE (unat (recType r)),
      Block TLV_RECORD_POINTER (nameBuffer L (pointers r)),
      Block TLV_RECORD_PAYLOAD (payload r)]"

text \<open>The constructor \<open>Record(name, content)\<close>: one step of its loop per element, with the
  \<open>switch\<close> over the element's type; \<open>m_type\<close> starts uninitialised.\<close>

definition recordPointer :: "ndn \<Rightarrow> ledger_record \<Rightarrow> block \<Rightarrow> exn + ledger_record" where
  "recordPointer L r ptr = bindE (nameOf L ptr) (\<lambda>n. Inr (addPointer r n))"

definition recordItem :: "ndn \<Rightarrow> ledger_record \<Rightarrow> block \<Rightarrow> exn + ledger_record" where
  "recordItem L r item =
    (if btype item = TLV_RECORD_TYPE then
       bindE (nniOf L item) (\<lambda>n. Inr (r\<lparr>recType := word_of_nat n\<rparr>))
     else if btype item = TLV_RECORD_PAYLOAD then Inr (r\<lparr>payload := bvalue item\<rparr>)
     else if btype item = TLV_RECORD_POINTER then
       bindE (parseBlock L item) (\<lambda>els. foldE (recordPointer L) r els)
     else if isCritical L (btype item) then Inl (TlvError ''Unrecognized TLV Type'')
     else Inr r)"

definition recordOfContent :: "ndn \<Rightarrow> name \<Rightarrow> block \<Rightarrow> exn + ledger_record" where
  "recordOfContent L n c = bindE (parseBlock L c) (\<lambda>els.
     foldE (recordItem L)
       \<lparr>recName = n, recType = word_of_nat (garbage L), pointers = [], payload = []\<rparr> els)"

section \<open>Decoding inverts encoding\<close>

lemma btype_prepareContent [simp]: "btype (prepareContent L r) = tlv_Content"
  by (simp add: prepareContent_def)

lemma wf_prepareContent [simp]: "wf_block (prepareContent L r)"
  by (simp add: prepareContent_def tlv_types)

context tlv_codec
begin

lemma recordPointer_names:
  "list_all wf_name ns \<Longrightarrow>
   foldE (recordPointer L) r (map (nameBlock L) ns) = Inr (r\<lparr>pointers := pointers r @ ns\<rparr>)"
  by (induction ns arbitrary: r) (simp_all add: recordPointer_def nameOf_nameBlock addPointer_def)

lemma recordItem_known [simp]:
  "recordItem L r (nniBlock L TLV_RECORD_TYPE (unat t)) = Inr (r\<lparr>recType := t\<rparr>)"
  "recordItem L r (Block TLV_RECORD_PAYLOAD p) = Inr (r\<lparr>payload := p\<rparr>)"
  "list_all wf_name ns \<Longrightarrow> recordItem L r (Block TLV_RECORD_POINTER (nameBuffer L ns)) =
     Inr (r\<lparr>pointers := pointers r @ ns\<rparr>)"
proof -
  have "unat t < 2 ^ 64"
    using unsigned_less [of t, where 'a = nat] by simp
  then show "recordItem L r (nniBlock L TLV_RECORD_TYPE (unat t)) = Inr (r\<lparr>recType := t\<rparr>)"
    by (simp add: recordItem_def nniOf_nniBlock)
qed (simp_all add: recordItem_def record_tlv parseBlock_nameBuffer recordPointer_names)

lemma recordOfContent_prepareContent:
  "list_all wf_name (pointers r) \<Longrightarrow> recordOfContent L n (prepareContent L r) = Inr (r\<lparr>recName := n\<rparr>)"
  by (simp add: recordOfContent_def prepareContent_def parseBlock_encodeBlock record_tlv)
     (simp add: flip: record_tlv)

lemma recordItem_wf: "recordItem L r b = Inr r' \<Longrightarrow> list_all wf_name (pointers r) \<Longrightarrow>
  recName r' = recName r \<and> list_all wf_name (pointers r')"
proof -
  have "foldE (recordPointer L) r els = Inr r' \<Longrightarrow> list_all wf_name (pointers r) \<Longrightarrow>
    recName r' = recName r \<and> list_all wf_name (pointers r')" for els r r'
    by (induction els arbitrary: r)
       (fastforce simp: recordPointer_def bindE_eq_Inr addPointer_def dest: nameOf_wf)+
  then show "recordItem L r b = Inr r' \<Longrightarrow> list_all wf_name (pointers r) \<Longrightarrow>
    recName r' = recName r \<and> list_all wf_name (pointers r')"
    by (auto simp: recordItem_def bindE_eq_Inr split: if_splits)
qed

lemma recordItems_wf: "foldE (recordItem L) r els = Inr r' \<Longrightarrow> list_all wf_name (pointers r) \<Longrightarrow>
  recName r' = recName r \<and> list_all wf_name (pointers r')"
  by (induction els arbitrary: r) (auto simp: bindE_eq_Inr dest: recordItem_wf)

lemma recordOfContent_wf:
  "recordOfContent L n c = Inr r \<Longrightarrow> recName r = n \<and> list_all wf_name (pointers r)"
  by (auto simp: recordOfContent_def bindE_eq_Inr dest!: recordItems_wf)

end

section \<open>Unknown elements\<close>

definition record_known :: "nat \<Rightarrow> bool" where
  "record_known t \<longleftrightarrow> t \<in> {TLV_RECORD_TYPE, TLV_RECORD_POINTER, TLV_RECORD_PAYLOAD}"

lemma recordItem_unknown:
  "\<not> record_known (btype b) \<Longrightarrow> recordItem L r b =
     (if isCritical L (btype b) then Inl (TlvError ''Unrecognized TLV Type'') else Inr r)"
  by (simp add: recordItem_def record_known_def)

lemma recordItems_skip:
  "foldE (recordItem L) r (filter (\<lambda>b. record_known (btype b) \<or> isCritical L (btype b)) els) =
   foldE (recordItem L) r els"
  by (induction els arbitrary: r) (auto simp: recordItem_unknown bindE_def split: sum.splits)

lemma recordItems_critical:
  "\<exists>b \<in> set els. \<not> record_known (btype b) \<and> isCritical L (btype b) \<Longrightarrow>
   \<exists>e. foldE (recordItem L) r els = Inl e"
  by (induction els arbitrary: r) (auto simp: recordItem_unknown bindE_def split: sum.splits)

end
