(* ===== verification/Edge_State.thy ===== *)
theory Edge_State
  imports Ledger_Record
begin

text \<open>
  The objects the ledger keeps in storage besides packets: \<open>EdgeState\<close> (\<open>src/dag/edge-state\<close>), the
  tracker \<open>EdgeStateList\<close> (\<open>src/dag/edge-state-list\<close>) and \<open>PayloadMap\<close> (\<open>src/dag/payload-map\<close>),
  with their names, their TLV encoding and decoding. Main facts: each decoder inverts its encoder;
  an edge state comes back with its times as precise as their text form, and its record under the
  name the state name contains.
\<close>

section \<open>Edge states\<close>

datatype status = INITIALIZED | LOADED | INTERLOCKED | Unnamed nat

fun statusCode :: "status \<Rightarrow> nat" where
  "statusCode INITIALIZED = 0"
| "statusCode LOADED = 2"
| "statusCode INTERLOCKED = 3"
| "statusCode (Unnamed n) = n"

text \<open>\<open>static_cast<EdgeState::Status>(n)\<close>: a number that no enumerator has stays what it is.\<close>

definition statusOf :: "nat \<Rightarrow> status" where
  "statusOf n = (if n = 0 then INITIALIZED else if n = 2 then LOADED
     else if n = 3 then INTERLOCKED else Unnamed n)"

definition wf_status :: "status \<Rightarrow> bool" where
  "wf_status st \<longleftrightarrow> statusOf (statusCode st) = st \<and> statusCode st < 2 ^ 64"

lemma wf_status_simps [simp]:
  "wf_status INITIALIZED" "wf_status LOADED" "wf_status INTERLOCKED"
  "n < 2 ^ 64 \<Longrightarrow> wf_status (statusOf n)"
  by (simp_all add: wf_status_def statusOf_def)

record edge_state =
  stateName :: name
  erecord :: ledger_record
  descendants :: "name list"
  status :: status
  created :: int
  interlocked :: int

definition TLV_EDGE_STATE_TYPE :: nat where "TLV_EDGE_STATE_TYPE = 311"
definition TLV_EDGE_STATE_STATUS :: nat where "TLV_EDGE_STATE_STATUS = 312"
definition TLV_EDGE_STATE_DESCENDANTS :: nat where "TLV_EDGE_STATE_DESCENDANTS = 313"
definition TLV_EDGE_STATE_CREATED_T :: nat where "TLV_EDGE_STATE_CREATED_T = 314"
definition TLV_EDGE_STATE_INTERLOCK_T :: nat where "TLV_EDGE_STATE_INTERLOCK_T = 315"

lemmas edge_tlv = TLV_EDGE_STATE_TYPE_def TLV_EDGE_STATE_STATUS_def TLV_EDGE_STATE_DESCENDANTS_def
  TLV_EDGE_STATE_CREATED_T_def TLV_EDGE_STATE_INTERLOCK_T_def

definition stateNameHeader :: name where
  "stateNameHeader = [keyword ''EdgeState'']"

definition toStateName :: "name \<Rightarrow> name" where
  "toStateName recordName = stateNameHeader @ recordName"

definition fromStateName :: "name \<Rightarrow> name" where
  "fromStateName n = name_sub n 1"

lemma fromStateName_toStateName [simp]: "fromStateName (toStateName n) = n"
  by (simp add: fromStateName_def toStateName_def stateNameHeader_def name_sub_def)

lemma toStateName_inject [simp]: "toStateName m = toStateName n \<longleftrightarrow> m = n"
  by (simp add: toStateName_def)

lemma wf_toStateName [simp]: "wf_name (toStateName n) \<longleftrightarrow> wf_name n"
  by (simp add: toStateName_def stateNameHeader_def)

lemma wf_fromStateName [simp]: "wf_name n \<Longrightarrow> wf_name (fromStateName n)"
  by (simp add: fromStateName_def name_sub_def)

definition encodeEdgeState :: "ndn \<Rightarrow> edge_state \<Rightarrow> block" where
  "encodeEdgeState L s = encodeBlock L TLV_EDGE_STATE_TYPE
     ([nameBlock L (stateName s),
       nniBlock L TLV_EDGE_STATE_STATUS (statusCode (status s)),
       prepareContent L (erecord s)]
      @ (if length (descendants s) > 0
         then [Block TLV_EDGE_STATE_DESCENDANTS (nameBuffer L (descendants s))] else [])
      @ [Block TLV_EDGE_STATE_CREATED_T (isoBytes L (created s)),
         Block TLV_EDGE_STATE_INTERLOCK_T (isoBytes L (interlocked s))])"

definition edgeDescendant :: "ndn \<Rightarrow> edge_state \<Rightarrow> block \<Rightarrow> exn + edge_state" where
  "edgeDescendant L s ptr =
     bindE (nameOf L ptr) (\<lambda>n. Inr (s\<lparr>descendants := insort_insert n (descendants s)\<rparr>))"

definition timeOf :: "ndn \<Rightarrow> block \<Rightarrow> exn + int" where
  "timeOf L b = of_option (StdException ''fromIsoString'') (readIso L (bvalue b))"

definition edgeItem :: "ndn \<Rightarrow> edge_state \<Rightarrow> block \<Rightarrow> exn + edge_state" where
  "edgeItem L s item =
    (if btype item = tlv_Name then bindE (nameOf L item) (\<lambda>n. Inr (s\<lparr>stateName := n\<rparr>))
     else if btype item = TLV_EDGE_STATE_STATUS then
       bindE (nniOf L item) (\<lambda>n. Inr (s\<lparr>status := statusOf n\<rparr>))
     else if btype item = tlv_Content then
       bindE (recordOfContent L (fromStateName (stateName s)) item) (\<lambda>r. Inr (s\<lparr>erecord := r\<rparr>))
     else if btype item = TLV_EDGE_STATE_DESCENDANTS then
       bindE (parseBlock L item) (\<lambda>els. foldE (edgeDescendant L) s els)
     else if btype item = TLV_EDGE_STATE_CREATED_T then
       bindE (timeOf L item) (\<lambda>t. Inr (s\<lparr>created := t\<rparr>))
     else if btype item = TLV_EDGE_STATE_INTERLOCK_T then
       bindE (timeOf L item) (\<lambda>t. Inr (s\<lparr>interlocked := t\<rparr>))
     else if isCritical L (btype item) then Inl (RuntimeError ''Unrecognized TLV Type'')
     else Inr s)"

text \<open>The local variable the decoder fills: its status is uninitialised, its times are the epoch.\<close>

definition blankState :: "ndn \<Rightarrow> edge_state" where
  "blankState L = \<lparr>stateName = [], erecord = newRecord, descendants = [],
     status = statusOf (garbage L mod 2 ^ 32), created = 0, interlocked = 0\<rparr>"

definition decodeEdgeState :: "ndn \<Rightarrow> block \<Rightarrow> exn + edge_state" where
  "decodeEdgeState L b = bindE (parseBlock L b) (\<lambda>els.
     if btype b \<noteq> TLV_EDGE_STATE_TYPE then Inl (RuntimeError ''TLV Type is incorrect'')
     else foldE (edgeItem L) (blankState L) els)"

definition wf_state :: "edge_state \<Rightarrow> bool" where
  "wf_state s \<longleftrightarrow> wf_name (stateName s) \<and> list_all wf_name (pointers (erecord s))
     \<and> set_wf (descendants s) \<and> list_all wf_name (descendants s) \<and> wf_status (status s)"

text \<open>What comes back from storage.\<close>

definition storedState :: "ndn \<Rightarrow> edge_state \<Rightarrow> edge_state" where
  "storedState L s = s\<lparr>erecord := setName (erecord s) (fromStateName (stateName s)),
     created := isoRound L (created s), interlocked := isoRound L (interlocked s)\<rparr>"

lemma wf_encodeEdgeState [simp]: "wf_block (encodeEdgeState L s)"
  by (simp add: encodeEdgeState_def edge_tlv)

context tlv_codec
begin

lemma edgeDescendant_names: "list_all wf_name ns \<Longrightarrow>
  foldE (edgeDescendant L) s (map (nameBlock L) ns) =
    Inr (s\<lparr>descendants := foldl (\<lambda>a x. insort_insert x a) (descendants s) ns\<rparr>)"
  by (induction ns arbitrary: s) (simp_all add: edgeDescendant_def nameOf_nameBlock)

lemma edgeItem_known:
  "wf_name n \<Longrightarrow> edgeItem L s (nameBlock L n) = Inr (s\<lparr>stateName := n\<rparr>)"
  "wf_status st \<Longrightarrow> edgeItem L s (nniBlock L TLV_EDGE_STATE_STATUS (statusCode st)) =
     Inr (s\<lparr>status := st\<rparr>)"
  "list_all wf_name (pointers r) \<Longrightarrow> edgeItem L s (prepareContent L r) =
     Inr (s\<lparr>erecord := setName r (fromStateName (stateName s))\<rparr>)"
  "list_all wf_name ns \<Longrightarrow> edgeItem L s (Block TLV_EDGE_STATE_DESCENDANTS (nameBuffer L ns)) =
     Inr (s\<lparr>descendants := foldl (\<lambda>a x. insort_insert x a) (descendants s) ns\<rparr>)"
  by (simp_all add: edgeItem_def nameOf_nameBlock nniOf_nniBlock recordOfContent_prepareContent
      parseBlock_nameBuffer edgeDescendant_names edge_tlv tlv_types wf_status_def setName_def)

lemma edgeDescendant_eq: "edgeDescendant L s p = Inr s' \<longleftrightarrow>
  (\<exists>n. nameOf L p = Inr n \<and> s' = s\<lparr>descendants := insort_insert n (descendants s)\<rparr>)"
  by (auto simp: edgeDescendant_def bindE_eq_Inr)

lemma edgeItem_wf: "edgeItem L s b = Inr s' \<Longrightarrow> wf_state s \<Longrightarrow> wf_state s'"
proof -
  have desc: "foldE (edgeDescendant L) s els = Inr s' \<Longrightarrow> wf_state s \<Longrightarrow> wf_state s'" for els s s'
  proof (induction els arbitrary: s)
    case (Cons x els)
    from Cons.prems(1) obtain n where "nameOf L x = Inr n"
      and "foldE (edgeDescendant L) (s\<lparr>descendants := insort_insert n (descendants s)\<rparr>) els = Inr s'"
      unfolding foldE.simps bindE_eq_Inr edgeDescendant_eq by blast
    moreover have "wf_state (s\<lparr>descendants := insort_insert n (descendants s)\<rparr>)"
      using Cons.prems nameOf_wf [OF \<open>nameOf L x = Inr n\<close>] by (auto simp: wf_state_def list_all_iff)
    ultimately show ?case by (blast intro: Cons.IH)
  qed simp
  show "edgeItem L s b = Inr s' \<Longrightarrow> wf_state s \<Longrightarrow> wf_state s'"
    unfolding edgeItem_def
    by (auto simp: bindE_eq_Inr wf_state_def dest: nameOf_wf nniOf_bound recordOfContent_wf split: if_splits)
       (use desc in \<open>auto simp: wf_state_def\<close>)
qed

lemma decodeEdgeState_wf: "decodeEdgeState L b = Inr s \<Longrightarrow> wf_state s"
proof -
  have "foldE (edgeItem L) s els = Inr s' \<Longrightarrow> wf_state s \<Longrightarrow> wf_state s'" for els s s'
    by (induction els arbitrary: s) (auto simp: bindE_eq_Inr dest: edgeItem_wf)
  moreover have "wf_state (blankState L)"
    by (simp add: blankState_def wf_state_def newRecord_def)
  ultimately show "decodeEdgeState L b = Inr s \<Longrightarrow> wf_state s"
    by (auto simp: decodeEdgeState_def bindE_eq_Inr split: if_splits)
qed

end

context ndn_codec
begin

lemma edgeItem_times:
  "edgeItem L s (Block TLV_EDGE_STATE_CREATED_T (isoBytes L t)) = Inr (s\<lparr>created := isoRound L t\<rparr>)"
  "edgeItem L s (Block TLV_EDGE_STATE_INTERLOCK_T (isoBytes L t)) =
     Inr (s\<lparr>interlocked := isoRound L t\<rparr>)"
  by (simp_all add: edgeItem_def timeOf_def readIso_isoBytes edge_tlv tlv_types)

lemma decode_encodeEdgeState:
  assumes "wf_state s"
  shows "decodeEdgeState L (encodeEdgeState L s) = Inr (storedState L s)"
proof -
  from assms have wf: "wf_name (stateName s)" "list_all wf_name (pointers (erecord s))"
    "set_wf (descendants s)" "list_all wf_name (descendants s)" "wf_status (status s)"
    by (simp_all add: wf_state_def)
  note items = edgeItem_known edgeItem_times foldE_append blankState_def storedState_def
  have ids: "foldl (\<lambda>a x. insort_insert x a) [] (descendants s) = descendants s"
    using wf by (simp add: foldl_insort_insert_id)
  show ?thesis
  proof (cases "descendants s = []")
    case True
    then show ?thesis
      using wf by (simp add: decodeEdgeState_def encodeEdgeState_def parseBlock_encodeBlock edge_tlv)
        (simp add: items flip: edge_tlv)
  next
    case False
    then show ?thesis
      using wf ids by (simp add: decodeEdgeState_def encodeEdgeState_def parseBlock_encodeBlock edge_tlv)
        (simp add: items flip: edge_tlv)
  qed
qed

end

end
