(* ===== verification/Ledger_Objects.thy ===== *)
theory Ledger_Objects
  imports Edge_State
begin

text \<open>
  The two other stored objects: the tracker list \<open>EdgeStateList\<close> (\<open>src/dag/edge-state-list\<close>) and
  the \<open>PayloadMap\<close> from the digest of a payload to an edge state name (\<open>src/dag/payload-map\<close>), and
  the text forms that \<open>operator<<\<close> writes. Both decoders invert their encoders; the names of edge
  states, lists and payload maps never coincide.
\<close>

section \<open>Edge state lists\<close>

record edge_state_list =
  listName :: name
  listKey :: "32 word"
  listValue :: "name list"
  nextList :: name

definition globalTracker :: "32 word" where "globalTracker = 0"

definition TLV_EDGE_STATE_LIST_TYPE :: nat where "TLV_EDGE_STATE_LIST_TYPE = 351"
definition TLV_EDGE_STATE_LIST_NAME :: nat where "TLV_EDGE_STATE_LIST_NAME = 352"
definition TLV_EDGE_STATE_LIST_KEY :: nat where "TLV_EDGE_STATE_LIST_KEY = 353"
definition TLV_EDGE_STATE_LIST_VALUE :: nat where "TLV_EDGE_STATE_LIST_VALUE = 354"
definition TLV_EDGE_STATE_LIST_NEXT :: nat where "TLV_EDGE_STATE_LIST_NEXT = 355"

lemmas list_tlv = TLV_EDGE_STATE_LIST_TYPE_def TLV_EDGE_STATE_LIST_NAME_def
  TLV_EDGE_STATE_LIST_KEY_def TLV_EDGE_STATE_LIST_VALUE_def TLV_EDGE_STATE_LIST_NEXT_def

definition stateListNameHeader :: name where
  "stateListNameHeader = [keyword ''EdgeStateList'']"

definition toStateListName :: "ndn \<Rightarrow> 32 word \<Rightarrow> name" where
  "toStateListName L k = stateListNameHeader @ [numberComp L (unat k)]"

definition fromStateListName :: "ndn \<Rightarrow> name \<Rightarrow> exn + 32 word" where
  "fromStateListName L n = bindE (name_get n (- 1)) (\<lambda>c.
     bindE (of_option (TlvError ''toNumber'') (readNumber L c)) (\<lambda>k. Inr (word_of_nat k)))"

definition getStateListNull :: name where
  "getStateListNull = [keyword ''EdgeStateList'', generic ''null'']"

definition encodeEdgeStateList :: "ndn \<Rightarrow> edge_state_list \<Rightarrow> block" where
  "encodeEdgeStateList L l = encodeBlock L TLV_EDGE_STATE_LIST_TYPE
     ([nestedName L TLV_EDGE_STATE_LIST_NAME (listName l),
       nniBlock L TLV_EDGE_STATE_LIST_KEY (unat (listKey l))]
      @ (if length (listValue l) > 0
         then [Block TLV_EDGE_STATE_LIST_VALUE (nameBuffer L (listValue l))] else [])
      @ [nestedName L TLV_EDGE_STATE_LIST_NEXT (nextList l)])"

definition listMember :: "ndn \<Rightarrow> edge_state_list \<Rightarrow> block \<Rightarrow> exn + edge_state_list" where
  "listMember L l b =
     bindE (nameOf L b) (\<lambda>n. Inr (l\<lparr>listValue := insort_insert n (listValue l)\<rparr>))"

definition listItem :: "ndn \<Rightarrow> edge_state_list \<Rightarrow> block \<Rightarrow> exn + edge_state_list" where
  "listItem L l item =
    (if btype item = TLV_EDGE_STATE_LIST_NAME then
       bindE (nameOfNested L item) (\<lambda>n. Inr (l\<lparr>listName := n\<rparr>))
     else if btype item = TLV_EDGE_STATE_LIST_KEY then
       bindE (nniOf L item) (\<lambda>n. Inr (l\<lparr>listKey := word_of_nat n\<rparr>))
     else if btype item = TLV_EDGE_STATE_LIST_VALUE then
       bindE (parseBlock L item) (\<lambda>els. foldE (listMember L) l els)
     else if btype item = TLV_EDGE_STATE_LIST_NEXT then
       bindE (nameOfNested L item) (\<lambda>n. Inr (l\<lparr>nextList := n\<rparr>))
     else if isCritical L (btype item) then Inl (RuntimeError ''Unrecognized TLV Type'')
     else Inr l)"

definition decodeEdgeStateList :: "ndn \<Rightarrow> block \<Rightarrow> exn + edge_state_list" where
  "decodeEdgeStateList L b = bindE (parseBlock L b) (\<lambda>els.
     if btype b \<noteq> TLV_EDGE_STATE_LIST_TYPE then Inl (RuntimeError ''TLV Type is incorrect'')
     else foldE (listItem L)
       \<lparr>listName = [], listKey = word_of_nat (garbage L), listValue = [], nextList = []\<rparr> els)"

definition wf_list :: "edge_state_list \<Rightarrow> bool" where
  "wf_list l \<longleftrightarrow> wf_name (listName l) \<and> set_wf (listValue l) \<and> list_all wf_name (listValue l)
     \<and> wf_name (nextList l)"

lemma wf_encodeEdgeStateList [simp]: "wf_block (encodeEdgeStateList L l)"
  by (simp add: encodeEdgeStateList_def list_tlv)

context tlv_codec
begin

lemma listMember_names: "list_all wf_name ns \<Longrightarrow>
  foldE (listMember L) l (map (nameBlock L) ns) =
    Inr (l\<lparr>listValue := foldl (\<lambda>a x. insort_insert x a) (listValue l) ns\<rparr>)"
  by (induction ns arbitrary: l) (simp_all add: listMember_def nameOf_nameBlock)

lemma listItem_known:
  "wf_name n \<Longrightarrow> listItem L l (nestedName L TLV_EDGE_STATE_LIST_NAME n) = Inr (l\<lparr>listName := n\<rparr>)"
  "listItem L l (nniBlock L TLV_EDGE_STATE_LIST_KEY (unat k)) = Inr (l\<lparr>listKey := k\<rparr>)"
  "list_all wf_name ns \<Longrightarrow> listItem L l (Block TLV_EDGE_STATE_LIST_VALUE (nameBuffer L ns)) =
     Inr (l\<lparr>listValue := foldl (\<lambda>a x. insort_insert x a) (listValue l) ns\<rparr>)"
  "wf_name n \<Longrightarrow> listItem L l (nestedName L TLV_EDGE_STATE_LIST_NEXT n) = Inr (l\<lparr>nextList := n\<rparr>)"
proof -
  have "unat k < 2 ^ 64"
    using unsigned_less [of k, where 'a = nat] by simp
  then show "listItem L l (nniBlock L TLV_EDGE_STATE_LIST_KEY (unat k)) = Inr (l\<lparr>listKey := k\<rparr>)"
    by (simp add: listItem_def nniOf_nniBlock list_tlv)
qed (simp_all add: listItem_def nameOfNested_nestedName parseBlock_nameBuffer listMember_names list_tlv)

lemma decode_encodeEdgeStateList:
  assumes "wf_list l"
  shows "decodeEdgeStateList L (encodeEdgeStateList L l) = Inr l"
proof -
  have ids: "foldl (\<lambda>a x. insort_insert x a) [] (listValue l) = listValue l"
    using assms by (simp add: wf_list_def foldl_insort_insert_id)
  show ?thesis
    using assms ids
    by (cases "listValue l = []")
      (simp_all add: decodeEdgeStateList_def encodeEdgeStateList_def parseBlock_encodeBlock list_tlv wf_list_def,
       simp_all add: listItem_known flip: list_tlv)
qed

end

section \<open>Payload maps\<close>

record payload_map =
  mapName :: name
  mapTo :: name

definition TLV_PAYLOAD_MAP_TYPE :: nat where "TLV_PAYLOAD_MAP_TYPE = 381"
definition TLV_PAYLOAD_MAP_TO :: nat where "TLV_PAYLOAD_MAP_TO = 382"

lemmas map_tlv = TLV_PAYLOAD_MAP_TYPE_def TLV_PAYLOAD_MAP_TO_def

definition mapNameHeader :: name where
  "mapNameHeader = [keyword ''PayloadMap'']"

definition toMapName :: "ndn \<Rightarrow> bytes \<Rightarrow> name" where
  "toMapName L p = mapNameHeader @ [digestComp L (sha256 L p)]"

definition encodePayloadMap :: "ndn \<Rightarrow> payload_map \<Rightarrow> block" where
  "encodePayloadMap L m = encodeBlock L TLV_PAYLOAD_MAP_TYPE
     [nameBlock L (mapName m), nestedName L TLV_PAYLOAD_MAP_TO (mapTo m)]"

definition mapItem :: "ndn \<Rightarrow> payload_map \<Rightarrow> block \<Rightarrow> exn + payload_map" where
  "mapItem L m item =
    (if btype item = tlv_Name then bindE (nameOf L item) (\<lambda>n. Inr (m\<lparr>mapName := n\<rparr>))
     else if btype item = TLV_PAYLOAD_MAP_TO then
       bindE (nameOfNested L item) (\<lambda>n. Inr (m\<lparr>mapTo := n\<rparr>))
     else if isCritical L (btype item) then Inl (RuntimeError ''Unrecognized TLV Type'')
     else Inr m)"

definition decodePayloadMap :: "ndn \<Rightarrow> block \<Rightarrow> exn + payload_map" where
  "decodePayloadMap L b = bindE (parseBlock L b) (\<lambda>els.
     if btype b \<noteq> TLV_PAYLOAD_MAP_TYPE then Inl (RuntimeError ''TLV Type is incorrect'')
     else foldE (mapItem L) \<lparr>mapName = [], mapTo = []\<rparr> els)"

lemma wf_encodePayloadMap [simp]: "wf_block (encodePayloadMap L m)"
  by (simp add: encodePayloadMap_def map_tlv)

context tlv_codec
begin

lemma decode_encodePayloadMap:
  assumes "wf_name (mapName m)" and "wf_name (mapTo m)"
  shows "decodePayloadMap L (encodePayloadMap L m) = Inr m"
  using assms
  by (simp add: decodePayloadMap_def encodePayloadMap_def parseBlock_encodeBlock map_tlv mapItem_def
      nameOf_nameBlock nameOfNested_nestedName tlv_types)

end

section \<open>The name spaces are disjoint\<close>

text \<open>Packets and records are stored under their own names; a name counts as an internal object's
  when it starts with the keyword of that object.\<close>

definition is_state_name :: "name \<Rightarrow> bool" where
  "is_state_name n \<longleftrightarrow> take 1 n = stateNameHeader"

lemma is_state_name_toStateName [simp]: "is_state_name (toStateName n)"
  by (simp add: is_state_name_def toStateName_def stateNameHeader_def)

lemma is_state_nameE: "is_state_name n \<Longrightarrow> n = toStateName (fromStateName n)"
  using append_take_drop_id [of 1 n]
  by (simp add: is_state_name_def toStateName_def fromStateName_def name_sub_def)

lemma not_state_names [simp]:
  "\<not> is_state_name (toStateListName L k)" "\<not> is_state_name (toMapName L p)"
  "toStateListName L k \<noteq> toMapName L p" "toMapName L p \<noteq> toStateListName L k"
  by (simp_all add: is_state_name_def stateNameHeader_def toStateListName_def stateListNameHeader_def
      toMapName_def mapNameHeader_def keyword_def)

section \<open>Text forms\<close>

definition put :: "bytes \<Rightarrow> (bytes, unit) cm" where
  "put t = modifyM (\<lambda>out. out @ t)"

definition line :: "bytes \<Rightarrow> bytes \<Rightarrow> (bytes, unit) cm" where
  "line label t = put (label @ t @ [CHR 0x0A])"

text \<open>\<open>operator<<\<close> for \<open>EdgeState\<close>: the payload is decoded as a Data packet after the first label is
  out, so a record without a packet as payload leaves a truncated text.\<close>

definition showEdgeState :: "ndn \<Rightarrow> edge_state \<Rightarrow> (bytes, unit) cm" where
  "showEdgeState L s =
     bindM (line ''Edge State Name: '' (toUri L (stateName s))) (\<lambda>_.
     bindM (put ''   Record Payload Data Name: '') (\<lambda>_.
     bindM (liftE (bindE (of_option (TlvError ''Block'') (readBlock L (payload (erecord s)))) (dataOf L))) (\<lambda>d.
     bindM (line '''' (toUri L (dataName d))) (\<lambda>_.
     bindM (forM (\<lambda>p. line ''   Pointer: '' (toUri L p)) (pointers (erecord s))) (\<lambda>_.
     bindM (forM (\<lambda>p. line ''   Descendant: '' (toUri L p)) (descendants s)) (\<lambda>_.
     bindM (line ''   Created At: '' (isoBytes L (created s))) (\<lambda>_.
     if created s < interlocked s then line ''   Interlocked At: '' (isoBytes L (interlocked s))
     else ret ())))))))"

definition showEdgeStateList :: "ndn \<Rightarrow> (nat \<Rightarrow> bytes) \<Rightarrow> edge_state_list \<Rightarrow> (bytes, unit) cm" where
  "showEdgeStateList L dec l =
     bindM (line ''Edge State List Name: '' (toUri L (listName l))) (\<lambda>_.
     bindM (line ''   List Key: '' (dec (unat (listKey l)))) (\<lambda>_.
     forM (\<lambda>n. line ''   List Value Item: '' (toUri L n)) (listValue l)))"

definition showPayloadMap :: "ndn \<Rightarrow> payload_map \<Rightarrow> (bytes, unit) cm" where
  "showPayloadMap L m =
     bindM (line ''Payload Map Name: '' (toUri L (mapName m))) (\<lambda>_.
     line ''   Map to: '' (toUri L (mapTo m)))"

end
