(* ===== verification/Storage.thy ===== *)
theory Storage
  imports Ndn_Tlv
begin

text \<open>
  The storage backends (\<open>src/storage\<close>). A backend is a map from names to blocks behind the three
  functions of \<open>storage::Interface\<close>; adding a name twice, and reading or deleting a missing one,
  throw \<open>std::runtime_error\<close>. \<open>LedgerMemory\<close> keeps a \<open>std::map\<close>, \<open>LedgerLevelDB\<close> a LevelDB
  database (a parameter). The locale \<open>block_store\<close> is the contract the clients (DAG, sync, ledger)
  rely on; both backends satisfy it.
\<close>

record 's storage_intf =
  adder :: "name \<Rightarrow> block \<Rightarrow> 's \<Rightarrow> (exn + unit) \<times> 's"
  getter :: "name \<Rightarrow> 's \<Rightarrow> exn + block"
  deleter :: "name \<Rightarrow> 's \<Rightarrow> (exn + unit) \<times> 's"

section \<open>The contract\<close>

locale block_store =
  fixes I :: "'s storage_intf"
    and C :: "'s \<Rightarrow> name \<Rightarrow> block option"
    and ok :: "'s \<Rightarrow> bool"
  assumes getter_Some: "ok s \<Longrightarrow> C s n = Some b \<Longrightarrow> getter I n s = Inr b"
    and getter_None: "ok s \<Longrightarrow> C s n = None \<Longrightarrow> \<exists>m. getter I n s = Inl (RuntimeError m)"
    and adder_new: "ok s \<Longrightarrow> C s n = None \<Longrightarrow> wf_block b \<Longrightarrow>
      \<exists>s'. adder I n b s = (Inr (), s') \<and> ok s' \<and> C s' = (C s)(n \<mapsto> b)"
    and adder_dup: "ok s \<Longrightarrow> C s n \<noteq> None \<Longrightarrow> \<exists>m. adder I n b s = (Inl (RuntimeError m), s)"
    and deleter_Some: "ok s \<Longrightarrow> C s n \<noteq> None \<Longrightarrow>
      \<exists>s'. deleter I n s = (Inr (), s') \<and> ok s' \<and> C s' = (C s)(n := None)"
    and deleter_None: "ok s \<Longrightarrow> C s n = None \<Longrightarrow> \<exists>m. deleter I n s = (Inl (RuntimeError m), s)"

section \<open>In memory\<close>

type_synonym memory = "name \<rightharpoonup> block"

definition mem_addBlock :: "name \<Rightarrow> block \<Rightarrow> memory \<Rightarrow> (exn + unit) \<times> memory" where
  "mem_addBlock n b m = (case m n of
     Some _ \<Rightarrow> (Inl (RuntimeError ''Block already exists''), m)
   | None \<Rightarrow> (Inr (), m(n \<mapsto> b)))"

definition mem_getBlock :: "name \<Rightarrow> memory \<Rightarrow> exn + block" where
  "mem_getBlock n m = (case m n of
     None \<Rightarrow> Inl (RuntimeError ''Block does not exist'')
   | Some b \<Rightarrow> Inr b)"

definition mem_deleteBlock :: "name \<Rightarrow> memory \<Rightarrow> (exn + unit) \<times> memory" where
  "mem_deleteBlock n m = (case m n of
     None \<Rightarrow> (Inl (RuntimeError ''Block does not exist''), m)
   | Some _ \<Rightarrow> (Inr (), m(n := None)))"

definition mem_getInterface :: "memory storage_intf" where
  "mem_getInterface = \<lparr>adder = mem_addBlock, getter = mem_getBlock, deleter = mem_deleteBlock\<rparr>"

interpretation mem: block_store mem_getInterface "\<lambda>m. m" "\<lambda>_. True"
  by unfold_locales
     (auto simp: mem_getInterface_def mem_addBlock_def mem_getBlock_def mem_deleteBlock_def)

section \<open>LevelDB\<close>

text \<open>LevelDB is a parameter: \<open>dbGet\<close> returns \<open>None\<close> where the status is not \<open>ok()\<close>; \<open>dbPut\<close> and
  \<open>dbDelete\<close> return whether the status is \<open>ok()\<close>.\<close>

record 'db leveldb =
  dbGet :: "bytes \<Rightarrow> 'db \<Rightarrow> bytes option"
  dbPut :: "bytes \<Rightarrow> bytes \<Rightarrow> 'db \<Rightarrow> bool \<times> 'db"
  dbDelete :: "bytes \<Rightarrow> 'db \<Rightarrow> bool \<times> 'db"

definition level_addBlock ::
  "ndn \<Rightarrow> 'db leveldb \<Rightarrow> name \<Rightarrow> block \<Rightarrow> 'db \<Rightarrow> (exn + unit) \<times> 'db" where
  "level_addBlock L D n b db = (case dbGet D (toUri L n) db of
     Some _ \<Rightarrow> (Inl (RuntimeError ''Block already exists''), db)
   | None \<Rightarrow> (case dbPut D (toUri L n) (wire L b) db of (status, db') \<Rightarrow>
       if \<not> status then (Inl (RuntimeError ''DB cannot append new block''), db') else (Inr (), db')))"

definition level_getBlock :: "ndn \<Rightarrow> 'db leveldb \<Rightarrow> name \<Rightarrow> 'db \<Rightarrow> exn + block" where
  "level_getBlock L D n db = (case dbGet D (toUri L n) db of
     None \<Rightarrow> Inl (RuntimeError ''Block does not exist'')
   | Some v \<Rightarrow> of_option (TlvError ''Block'') (readBlock L v))"

definition level_deleteBlock ::
  "ndn \<Rightarrow> 'db leveldb \<Rightarrow> name \<Rightarrow> 'db \<Rightarrow> (exn + unit) \<times> 'db" where
  "level_deleteBlock L D n db = (case dbGet D (toUri L n) db of
     None \<Rightarrow> (Inl (RuntimeError ''Block does not exist''), db)
   | Some _ \<Rightarrow> (case dbDelete D (toUri L n) db of (status, db') \<Rightarrow>
       if \<not> status then (Inl (RuntimeError ''DB cannot delete the block''), db') else (Inr (), db')))"

definition level_getInterface :: "ndn \<Rightarrow> 'db leveldb \<Rightarrow> 'db storage_intf" where
  "level_getInterface L D =
     \<lparr>adder = level_addBlock L D, getter = level_getBlock L D, deleter = level_deleteBlock L D\<rparr>"

text \<open>The database as a map: what the backend relies on is that a successful \<open>Put\<close> or \<open>Delete\<close> is
  seen by the next \<open>Get\<close>, and that they succeed.\<close>

locale level_database = ndn_codec L for L :: ndn +
  fixes D :: "'db leveldb"
    and M :: "'db \<Rightarrow> bytes \<Rightarrow> bytes option"
  assumes dbGet_M: "dbGet D k db = M db k"
    and dbPut_M: "\<exists>db'. dbPut D k x db = (True, db') \<and> M db' = (M db)(k \<mapsto> x)"
    and dbDelete_M: "\<exists>db'. dbDelete D k db = (True, db') \<and> M db' = (M db)(k := None)"

definition level_contents :: "ndn \<Rightarrow> ('db \<Rightarrow> bytes \<Rightarrow> bytes option) \<Rightarrow> 'db \<Rightarrow> name \<Rightarrow> block option" where
  "level_contents L M db n = Option.bind (M db (toUri L n)) (readBlock L)"

definition level_ok :: "ndn \<Rightarrow> ('db \<Rightarrow> bytes \<Rightarrow> bytes option) \<Rightarrow> 'db \<Rightarrow> bool" where
  "level_ok L M db \<longleftrightarrow> (\<forall>k x. M db k = Some x \<longrightarrow> (\<exists>b. readBlock L x = Some b))"

context level_database
begin

lemma contents_None_iff:
  "level_ok L M db \<Longrightarrow> level_contents L M db n = None \<longleftrightarrow> M db (toUri L n) = None"
  by (cases "M db (toUri L n)") (auto simp: level_contents_def level_ok_def)

lemma contents_put: "M db' = (M db)(toUri L n \<mapsto> wire L b) \<Longrightarrow> wf_block b \<Longrightarrow>
  level_contents L M db' = (level_contents L M db)(n \<mapsto> b)"
  by (auto simp: level_contents_def fun_eq_iff readBlock_wire dest: toUri_inject)

lemma contents_delete: "M db' = (M db)(toUri L n := None) \<Longrightarrow>
  level_contents L M db' = (level_contents L M db)(n := None)"
  by (auto simp: level_contents_def fun_eq_iff dest: toUri_inject)

lemma level_block_store: "block_store (level_getInterface L D) (level_contents L M) (level_ok L M)"
proof
  fix s n b assume ok: "level_ok L M s"
  note defs = level_getInterface_def level_getBlock_def level_addBlock_def level_deleteBlock_def dbGet_M
  show "level_contents L M s n = Some b \<Longrightarrow> getter (level_getInterface L D) n s = Inr b"
    by (auto simp: defs level_contents_def bind_eq_Some_conv)
  show "level_contents L M s n = None \<Longrightarrow> \<exists>m. getter (level_getInterface L D) n s = Inl (RuntimeError m)"
    using ok by (simp add: contents_None_iff defs)
  show "level_contents L M s n = None \<Longrightarrow> wf_block b \<Longrightarrow>
    \<exists>s'. adder (level_getInterface L D) n b s = (Inr (), s') \<and> level_ok L M s' \<and>
      level_contents L M s' = (level_contents L M s)(n \<mapsto> b)"
    using ok dbPut_M [of "toUri L n" "wire L b" s]
    by (auto simp: contents_None_iff defs level_ok_def readBlock_wire contents_put)
  show "level_contents L M s n \<noteq> None \<Longrightarrow>
    \<exists>m. adder (level_getInterface L D) n b s = (Inl (RuntimeError m), s)"
    using ok by (auto simp: contents_None_iff defs)
  show "level_contents L M s n \<noteq> None \<Longrightarrow>
    \<exists>s'. deleter (level_getInterface L D) n s = (Inr (), s') \<and> level_ok L M s' \<and>
      level_contents L M s' = (level_contents L M s)(n := None)"
    using ok dbDelete_M [of "toUri L n" s]
    by (auto simp: contents_None_iff defs level_ok_def contents_delete simp del: not_None_eq
        split: option.splits)
  show "level_contents L M s n = None \<Longrightarrow>
    \<exists>m. deleter (level_getInterface L D) n s = (Inl (RuntimeError m), s)"
    using ok by (simp add: contents_None_iff defs)
qed

end

sublocale level_database \<subseteq> level: block_store "level_getInterface L D" "level_contents L M" "level_ok L M"
  by (rule level_block_store)

text \<open>A database kept as a map from keys to values meets the assumptions.\<close>

definition map_database :: "(bytes \<rightharpoonup> bytes) leveldb" where
  "map_database = \<lparr>dbGet = (\<lambda>k db. db k), dbPut = (\<lambda>k x db. (True, db(k \<mapsto> x))),
     dbDelete = (\<lambda>k db. (True, db(k := None)))\<rparr>"

interpretation map_level: level_database ndnTlv map_database "\<lambda>db. db"
  by unfold_locales (simp_all add: map_database_def)

section \<open>The registry of backends\<close>

text \<open>\<open>CLEDGER_REGISTER_STORAGE\<close> enters each class under its \<open>STORAGE_TYPE\<close>;
  \<open>createLedgerStorage\<close> looks one up, and \<open>None\<close> is the null pointer it returns otherwise.\<close>

datatype storage_class = LedgerMemory | LedgerLevelDB

type_synonym storage_factory = "string \<rightharpoonup> storage_class"

definition registerLedgerStorage :: "string \<Rightarrow> storage_class \<Rightarrow> storage_factory \<Rightarrow> storage_factory" where
  "registerLedgerStorage t c factory = factory(t \<mapsto> c)"

definition STORAGE_TYPE :: "storage_class \<Rightarrow> string" where
  "STORAGE_TYPE c = (case c of LedgerMemory \<Rightarrow> ''storage-memory'' | LedgerLevelDB \<Rightarrow> ''storage-leveldb'')"

definition storage_registry :: storage_factory where
  "storage_registry = registerLedgerStorage (STORAGE_TYPE LedgerMemory) LedgerMemory
     (registerLedgerStorage (STORAGE_TYPE LedgerLevelDB) LedgerLevelDB Map.empty)"

definition createLedgerStorage :: "string \<Rightarrow> storage_class option" where
  "createLedgerStorage t = storage_registry t"

end
