(* ===== verification/Interlock_Policy.thy ===== *)
theory Interlock_Policy
  imports Edge_State
begin

text \<open>
  The interlock policies (\<open>src/dag/interlock-policy*\<close>): which descendants of an edge state vouch for
  its record, and how many. \<open>policy-descendants\<close> counts every descendant, \<open>policy-witness\<close> one
  descendant per producer (the prefix of the record name). The locale \<open>interlock_policy\<close> is what the
  DAG relies on: the value depends on the descendants only, counts no more than there are, and a
  record without descendants has value 0.
\<close>

definition descendants_select :: "edge_state \<Rightarrow> name list" where
  "descendants_select s = descendants s"

definition descendants_evaluate :: "edge_state \<Rightarrow> 32 word" where
  "descendants_evaluate s = word_of_nat (length (descendants_select s))"

definition producer :: "name \<Rightarrow> name" where
  "producer item = name_prefix (fromStateName item) (- 1)"

definition witness_step :: "name list \<times> name list \<Rightarrow> name \<Rightarrow> name list \<times> name list" where
  "witness_step wr item = (case wr of (witness, sel) \<Rightarrow>
     let dataPrefix = producer item in
     if dataPrefix \<notin> set witness
     then (insort_insert dataPrefix witness, insort_insert item sel)
     else (witness, sel))"

definition witness_select :: "edge_state \<Rightarrow> name list" where
  "witness_select s = snd (foldl witness_step ([], []) (descendants s))"

definition witness_evaluate :: "edge_state \<Rightarrow> 32 word" where
  "witness_evaluate s = word_of_nat (length (witness_select s))"

section \<open>What the selections are\<close>

lemma witness_fold:
  assumes "foldl witness_step ([], []) ds = (w, r)"
  shows "set w = producer ` set ds" and "set_wf r" and "set r \<subseteq> set ds"
    and "inj_on producer (set r)" and "producer ` set r = producer ` set ds"
proof -
  have "set w = producer ` set ds \<and> set_wf r \<and> set r \<subseteq> set ds \<and> inj_on producer (set r)
      \<and> producer ` set r = producer ` set ds"
    using assms
  proof (induction ds arbitrary: w r rule: rev_induct)
    case (snoc d ds)
    obtain w0 r0 where f: "foldl witness_step ([], []) ds = (w0, r0)" by force
    note IH = snoc.IH [OF this]
    from snoc.prems f have "witness_step (w0, r0) d = (w, r)" by simp
    then have wr: "(w, r) = (if producer d \<in> producer ` set ds then (w0, r0)
        else (insort_insert (producer d) w0, insort_insert d r0))"
      using IH by (auto simp: witness_step_def Let_def split: if_splits)
    show ?case
    proof (cases "producer d \<in> producer ` set ds")
      case True
      with wr IH show ?thesis by auto
    next
      case False
      with wr have "w = insort_insert (producer d) w0" "r = insort_insert d r0" by auto
      moreover have "producer d \<notin> producer ` set r0" using False IH by simp
      ultimately show ?thesis using IH by auto
    qed
  qed simp
  then show "set w = producer ` set ds" "set_wf r" "set r \<subseteq> set ds"
    "inj_on producer (set r)" "producer ` set r = producer ` set ds" by blast+
qed

lemma witness_select_facts:
  "set_wf (witness_select s)" "set (witness_select s) \<subseteq> set (descendants s)"
  "inj_on producer (set (witness_select s))"
  "producer ` set (witness_select s) = producer ` set (descendants s)"
  using witness_fold [of "descendants s" "fst (foldl witness_step ([], []) (descendants s))" "witness_select s"]
  by (simp_all add: witness_select_def)

lemma length_witness_select: "length (witness_select s) = card (producer ` set (descendants s))"
proof -
  have "length (witness_select s) = card (set (witness_select s))"
    using witness_select_facts(1) by (simp add: set_wf_def distinct_card)
  also have "\<dots> = card (producer ` set (witness_select s))"
    using witness_select_facts(3) by (simp add: card_image)
  finally show ?thesis by (simp add: witness_select_facts(4))
qed

section \<open>The contract\<close>

locale interlock_policy =
  fixes P :: "edge_state \<Rightarrow> 32 word"
  assumes policy_descendants: "descendants s = descendants t \<Longrightarrow> P s = P t"
    and policy_none: "descendants s = [] \<Longrightarrow> P s = 0"
    and policy_bound: "set_wf (descendants s) \<Longrightarrow> unat (P s) \<le> length (descendants s)"

lemma unat_word_of_nat_le: "unat (word_of_nat n :: 32 word) \<le> n"
  by (simp add: unsigned_of_nat take_bit_eq_mod)

interpretation descendants_policy: interlock_policy descendants_evaluate
  by unfold_locales (simp_all add: descendants_evaluate_def descendants_select_def unat_word_of_nat_le)

interpretation witness_policy: interlock_policy witness_evaluate
proof
  fix s t :: edge_state
  show "descendants s = descendants t \<Longrightarrow> witness_evaluate s = witness_evaluate t"
    by (simp add: witness_evaluate_def witness_select_def)
  show "descendants s = [] \<Longrightarrow> witness_evaluate s = 0"
    by (simp add: witness_evaluate_def witness_select_def)
  have "card (producer ` set (descendants s)) \<le> length (descendants s)"
    using card_image_le card_length le_trans by blast
  then show "unat (witness_evaluate s) \<le> length (descendants s)"
    unfolding witness_evaluate_def length_witness_select
    using unat_word_of_nat_le le_trans by blast
qed

section \<open>The registry of policies\<close>

datatype policy_class = InterlockPolicyDescendants | InterlockPolicyWitness

type_synonym policy_factory = "string \<rightharpoonup> policy_class"

definition POLICY_TYPE :: "policy_class \<Rightarrow> string" where
  "POLICY_TYPE c = (case c of InterlockPolicyDescendants \<Rightarrow> ''policy-descendants''
     | InterlockPolicyWitness \<Rightarrow> ''policy-witness'')"

definition registerInterlockPolicy :: "string \<Rightarrow> policy_class \<Rightarrow> policy_factory \<Rightarrow> policy_factory" where
  "registerInterlockPolicy t c factory = factory(t \<mapsto> c)"

definition policy_registry :: policy_factory where
  "policy_registry = registerInterlockPolicy (POLICY_TYPE InterlockPolicyDescendants) InterlockPolicyDescendants
     (registerInterlockPolicy (POLICY_TYPE InterlockPolicyWitness) InterlockPolicyWitness Map.empty)"

definition createInterlockPolicy :: "string \<Rightarrow> policy_class option" where
  "createInterlockPolicy t = policy_registry t"

definition policy_select :: "policy_class \<Rightarrow> edge_state \<Rightarrow> name list" where
  "policy_select c = (case c of InterlockPolicyDescendants \<Rightarrow> descendants_select
     | InterlockPolicyWitness \<Rightarrow> witness_select)"

definition policy_getInterface :: "policy_class \<Rightarrow> edge_state \<Rightarrow> 32 word" where
  "policy_getInterface c = (case c of InterlockPolicyDescendants \<Rightarrow> descendants_evaluate
     | InterlockPolicyWitness \<Rightarrow> witness_evaluate)"

lemma interlock_policy_getInterface: "interlock_policy (policy_getInterface c)"
  by (cases c) (simp_all add: policy_getInterface_def descendants_policy.interlock_policy_axioms
      witness_policy.interlock_policy_axioms)

end
