(* ===== verification/Dag_Module.thy ===== *)
theory Dag_Module
  imports Ledger_Objects Storage Interlock_Policy
begin

text \<open>
  The model of \<open>DagModule\<close> (\<open>src/dag/dag-module\<close>): edge states live in the storage backend in
  encoded form, and \<open>m_waitlist\<close> files the names of the records that wait for interlock under the
  value the policy gives them. Every operation goes through \<open>getOrConstruct\<close>, which reads and
  decodes an edge state or stores a fresh one, and \<open>update\<close>, which replaces it.

  The state \<open>dag_state\<close> is an extensible record, so that the ledger module can run these operations
  on its own state; \<open>tick\<close> counts the readings of the system clock.
\<close>

type_synonym waitlist = "(32 word \<times> name list) list"

record 's dag_state =
  waitlist :: waitlist
  store :: 's
  tick :: nat

section \<open>Storage access\<close>

definition getBlockM :: "'s storage_intf \<Rightarrow> name \<Rightarrow> (('s, 'z) dag_state_scheme, block) cm" where
  "getBlockM I n = (\<lambda>st. (getter I n (store st), st))"

definition addBlockM :: "'s storage_intf \<Rightarrow> name \<Rightarrow> block \<Rightarrow> (('s, 'z) dag_state_scheme, unit) cm" where
  "addBlockM I n b = (\<lambda>st. case adder I n b (store st) of (r, s') \<Rightarrow> (r, st\<lparr>store := s'\<rparr>))"

definition deleteBlockM :: "'s storage_intf \<Rightarrow> name \<Rightarrow> (('s, 'z) dag_state_scheme, unit) cm" where
  "deleteBlockM I n = (\<lambda>st. case deleter I n (store st) of (r, s') \<Rightarrow> (r, st\<lparr>store := s'\<rparr>))"

definition nowM :: "ndn \<Rightarrow> (('s, 'z) dag_state_scheme, int) cm" where
  "nowM L = (\<lambda>st. (Inr (clock L (tick st)), st\<lparr>tick := Suc (tick st)\<rparr>))"

section \<open>Edge states in storage\<close>

definition construct :: "name \<Rightarrow> int \<Rightarrow> int \<Rightarrow> edge_state" where
  "construct n t1 t2 = \<lparr>stateName = n, erecord = newRecord, descendants = [],
     status = INITIALIZED, created = t1 + 1, interlocked = t2\<rparr>"

definition getOrConstruct ::
  "ndn \<Rightarrow> 's storage_intf \<Rightarrow> name \<Rightarrow> (('s, 'z) dag_state_scheme, edge_state) cm" where
  "getOrConstruct L I n = catchM
     (bindM (getBlockM I n) (\<lambda>b. liftE (decodeEdgeState L b)))
     is_std_exception
     (\<lambda>_. bindM (nowM L) (\<lambda>t1. bindM (nowM L) (\<lambda>t2.
        let s = construct n t1 t2 in
        bindM (addBlockM I (stateName s) (encodeEdgeState L s)) (\<lambda>_. ret s))))"

definition update ::
  "ndn \<Rightarrow> 's storage_intf \<Rightarrow> edge_state \<Rightarrow> (('s, 'z) dag_state_scheme, unit) cm" where
  "update L I s = bindM (deleteBlockM I (stateName s)) (\<lambda>_.
     addBlockM I (stateName s) (encodeEdgeState L s))"

section \<open>The search for ancestors\<close>

text \<open>The two places where the search meets a pending parent record the state as a descendant.\<close>

definition addDescendant :: "name \<Rightarrow> edge_state \<Rightarrow> edge_state" where
  "addDescendant n s = s\<lparr>descendants := insort_insert n (descendants s)\<rparr>"

definition visitDirect :: "ndn \<Rightarrow> 's storage_intf \<Rightarrow> name \<Rightarrow> name list \<times> name list \<Rightarrow> name \<Rightarrow>
    (('s, 'z) dag_state_scheme, name list \<times> name list) cm" where
  "visitDirect L I me acc ptr = (case acc of (ancestors, frontier) \<Rightarrow>
     bindM (getOrConstruct L I (toStateName ptr)) (\<lambda>parent.
     let ancestors' = (if status parent \<noteq> INTERLOCKED then ancestors @ [stateName parent] else ancestors) in
     if status parent = INITIALIZED then
       bindM (update L I (addDescendant me parent)) (\<lambda>_. ret (ancestors', frontier))
     else if status parent \<noteq> INTERLOCKED then ret (ancestors', frontier @ [stateName parent])
     else ret (ancestors', frontier)))"

definition visitNext :: "ndn \<Rightarrow> 's storage_intf \<Rightarrow> name \<Rightarrow> name list \<times> name list \<Rightarrow> name \<Rightarrow>
    (('s, 'z) dag_state_scheme, name list \<times> name list) cm" where
  "visitNext L I me acc ptr = (case acc of (ancestors, nextFrontier) \<Rightarrow>
     bindM (getOrConstruct L I (toStateName ptr)) (\<lambda>parent.
     let hasSeen = stateName parent \<in> set ancestors;
         ancestors' = (if \<not> hasSeen \<and> status parent \<noteq> INTERLOCKED
                       then ancestors @ [stateName parent] else ancestors) in
     if status parent = INITIALIZED then
       bindM (update L I (addDescendant me parent)) (\<lambda>_. ret (ancestors', nextFrontier))
     else if status parent \<noteq> INTERLOCKED then ret (ancestors', nextFrontier @ [stateName parent])
     else ret (ancestors', nextFrontier)))"

definition expandFrontier :: "ndn \<Rightarrow> 's storage_intf \<Rightarrow> name \<Rightarrow> name list \<Rightarrow> name list \<Rightarrow>
    (('s, 'z) dag_state_scheme, name list \<times> name list) cm" where
  "expandFrontier L I me ancestors frontier = foldM
     (\<lambda>acc f. bindM (getOrConstruct L I f) (\<lambda>fs. foldM (visitNext L I me) acc (pointers (erecord fs))))
     (ancestors, []) frontier"

text \<open>The \<open>while\<close> loop compares the sizes as \<open>uint32_t\<close>; the older size grows in every round, so the
  loop ends.\<close>

function ancestorsLoop :: "ndn \<Rightarrow> 's storage_intf \<Rightarrow> name \<Rightarrow> 32 word \<Rightarrow> 32 word \<Rightarrow> name list \<Rightarrow> name list \<Rightarrow>
    (('s, 'z) dag_state_scheme, name list) cm" where
  "ancestorsLoop L I me prevAncestors currAncestors ancestors frontier =
     (if currAncestors > prevAncestors then
        bindM (expandFrontier L I me ancestors frontier) (\<lambda>r.
          ancestorsLoop L I me currAncestors (word_of_nat (length (fst r))) (fst r) (snd r))
      else ret ancestors)"
  by pat_completeness auto
termination
  by (relation "measure (\<lambda>(L, I, me, p, c, a, f). 2 ^ 32 - unat p)")
     (auto dest: word_gap_less)

declare ancestorsLoop.simps [simp del]

definition getAncestors :: "ndn \<Rightarrow> 's storage_intf \<Rightarrow> edge_state \<Rightarrow>
    (('s, 'z) dag_state_scheme, name list) cm" where
  "getAncestors L I s =
     bindM (foldM (visitDirect L I (stateName s)) ([], []) (pointers (erecord s))) (\<lambda>r.
     bindM (ancestorsLoop L I (stateName s) 0 (word_of_nat (length (fst r))) (fst r) (snd r)) (\<lambda>ancestors.
     ret (rev ancestors)))"

section \<open>The waitlist\<close>

definition waitlist_erase :: "name \<Rightarrow> waitlist \<Rightarrow> waitlist" where
  "waitlist_erase n w = map (\<lambda>(k, names). (k, filter (\<lambda>m. m \<noteq> n) names)) w"

definition evaluateWaitlist :: "(edge_state \<Rightarrow> 32 word) \<Rightarrow> edge_state \<Rightarrow>
    (('s, 'z) dag_state_scheme, unit) cm" where
  "evaluateWaitlist P s =
     (if status s = INTERLOCKED then ret ()
      else modifyM (\<lambda>st. st\<lparr>waitlist :=
        map_at (P s) [] (insort_insert (stateName s)) (waitlist_erase (stateName s) (waitlist st))\<rparr>))"

text \<open>\<open>getWaitList(value)\<close> reads \<open>m_waitlist[value]\<close>, which creates a missing entry.\<close>

definition getWaitList :: "32 word \<Rightarrow> (('s, 'z) dag_state_scheme, name list) cm" where
  "getWaitList k =
     bindM (modifyM (\<lambda>st. st\<lparr>waitlist := map_at k [] (\<lambda>names. names) (waitlist st)\<rparr>)) (\<lambda>_.
     getsM (\<lambda>st. the (map_of (waitlist st) k)))"

section \<open>Adding a record\<close>

definition evaluateAncestors :: "ndn \<Rightarrow> 's storage_intf \<Rightarrow> (edge_state \<Rightarrow> 32 word) \<Rightarrow> edge_state \<Rightarrow>
    (('s, 'z) dag_state_scheme, unit) cm" where
  "evaluateAncestors L I P s =
     bindM (getAncestors L I s) (\<lambda>ancestors.
     forM (\<lambda>a. bindM (getOrConstruct L I a) (\<lambda>aState.
       let aState' = addDescendant (stateName s) aState in
       bindM (update L I aState') (\<lambda>_. evaluateWaitlist P aState'))) ancestors)"

definition onNewRecord :: "ndn \<Rightarrow> 's storage_intf \<Rightarrow> (edge_state \<Rightarrow> 32 word) \<Rightarrow> edge_state \<Rightarrow>
    (('s, 'z) dag_state_scheme, unit) cm" where
  "onNewRecord L I P s0 =
     (let s = s0\<lparr>status := LOADED\<rparr> in
      bindM (update L I s) (\<lambda>_.
      bindM (evaluateWaitlist P s) (\<lambda>_.
      bindM (if \<not> isGenesis (erecord s) then evaluateAncestors L I P s else ret ()) (\<lambda>_.
      forM (\<lambda>desc. bindM (getOrConstruct L I desc) (\<lambda>descState.
        if \<not> isGenesis (erecord descState) then evaluateAncestors L I P descState else ret ()))
        (descendants s)))))"

definition add :: "ndn \<Rightarrow> 's storage_intf \<Rightarrow> (edge_state \<Rightarrow> 32 word) \<Rightarrow> ledger_record \<Rightarrow>
    (('s, 'z) dag_state_scheme, name) cm" where
  "add L I P r =
     bindM (getOrConstruct L I (toStateName (recName r))) (\<lambda>s0.
     let s = s0\<lparr>erecord := r\<rparr> in
     case status s of
       INITIALIZED \<Rightarrow> bindM (onNewRecord L I P s) (\<lambda>_. ret (stateName s))
     | LOADED \<Rightarrow> ret (stateName s)
     | INTERLOCKED \<Rightarrow> ret (stateName s)
     | Unnamed _ \<Rightarrow> ret (stateName s))"

section \<open>Harvesting\<close>

definition harvestBelow :: "ndn \<Rightarrow> 's storage_intf \<Rightarrow> 32 word \<Rightarrow>
    (('s, 'z) dag_state_scheme, ledger_record list) cm" where
  "harvestBelow L I threshold =
     bindM (getsM waitlist) (foldM (\<lambda>acc bucket. case bucket of (k, names) \<Rightarrow>
       if k < threshold then
         foldM (\<lambda>acc n. bindM (getOrConstruct L I n) (\<lambda>s.
           ret (if status s \<noteq> INITIALIZED then acc @ [erecord s] else acc))) acc names
       else ret acc) [])"

definition harvestOne :: "ndn \<Rightarrow> 's storage_intf \<Rightarrow> bool \<Rightarrow> ledger_record list \<times> name list \<Rightarrow> name \<Rightarrow>
    (('s, 'z) dag_state_scheme, ledger_record list \<times> name list) cm" where
  "harvestOne L I remove acc n = (case acc of (records, rm) \<Rightarrow>
     bindM (getOrConstruct L I n) (\<lambda>s.
     if status s \<noteq> INITIALIZED then
       bindM (update L I (s\<lparr>status := INTERLOCKED\<rparr>)) (\<lambda>_.
       ret (records @ [erecord s], if remove then rm @ [n] else rm))
     else ret (records, rm)))"

definition eraseFromBucket :: "32 word \<Rightarrow> name list \<Rightarrow> waitlist \<Rightarrow> waitlist" where
  "eraseFromBucket k rm w =
     map (\<lambda>(k', names). (k', if k' = k then filter (\<lambda>m. m \<notin> set rm) names else names)) w"

definition harvestAbove :: "ndn \<Rightarrow> 's storage_intf \<Rightarrow> 32 word \<Rightarrow> bool \<Rightarrow>
    (('s, 'z) dag_state_scheme, ledger_record list) cm" where
  "harvestAbove L I threshold remove =
     bindM (getsM waitlist) (foldM (\<lambda>acc bucket. case bucket of (k, names) \<Rightarrow>
       if k \<ge> threshold then
         bindM (foldM (harvestOne L I remove) (acc, []) names) (\<lambda>r.
         bindM (modifyM (\<lambda>st. st\<lparr>waitlist := eraseFromBucket k (snd r) (waitlist st)\<rparr>)) (\<lambda>_.
         ret (fst r)))
       else ret acc) [])"

end
