(* ===== verification/Dag_Spec.thy ===== *)
theory Dag_Spec
  imports Ledger_Objects Interlock_Policy
begin

text \<open>
  The abstract DAG: a graph from state names to nodes (status, record, listed descendants), without
  storage, encoding or clock. It says which nodes the search for ancestors visits (\<open>ancestor\<close>), what
  the module does to the graph when a record cites its ancestors (\<open>cite\<close>), and the invariant
  \<open>graph_good\<close> that ties the listed descendants to the pointers of the accepted records.
  \<open>Dag_Refine\<close> shows that \<open>Dag_Module\<close> implements it.
\<close>

record node =
  nstatus :: status
  nrec :: ledger_record
  ndesc :: "name list"

type_synonym graph = "name \<rightharpoonup> node"

definition emptyNode :: "name \<Rightarrow> node" where
  "emptyNode n = \<lparr>nstatus = INITIALIZED, nrec = setName newRecord (fromStateName n), ndesc = []\<rparr>"

definition nodeAt :: "graph \<Rightarrow> name \<Rightarrow> node" where
  "nodeAt G n = (case G n of None \<Rightarrow> emptyNode n | Some x \<Rightarrow> x)"

definition parents :: "ledger_record \<Rightarrow> name list" where
  "parents r = map toStateName (pointers r)"

definition parentsAt :: "graph \<Rightarrow> name \<Rightarrow> name list" where
  "parentsAt G n = parents (nrec (nodeAt G n))"

definition open_at :: "graph \<Rightarrow> name \<Rightarrow> bool" where
  "open_at G n \<longleftrightarrow> nstatus (nodeAt G n) \<noteq> INTERLOCKED"

definition pending_at :: "graph \<Rightarrow> name \<Rightarrow> bool" where
  "pending_at G n \<longleftrightarrow> nstatus (nodeAt G n) = INITIALIZED"

definition expandable_at :: "graph \<Rightarrow> name \<Rightarrow> bool" where
  "expandable_at G n \<longleftrightarrow> open_at G n \<and> \<not> pending_at G n"

definition nodeCite :: "name \<Rightarrow> node \<Rightarrow> node" where
  "nodeCite x a = a\<lparr>ndesc := insort_insert x (ndesc a)\<rparr>"

lemma nodeAt_simps [simp]:
  "nodeAt (G(n \<mapsto> x)) n = x" "m \<noteq> n \<Longrightarrow> nodeAt (G(n \<mapsto> x)) m = nodeAt G m"
  "G n = Some x \<Longrightarrow> nodeAt G n = x"
  by (simp_all add: nodeAt_def)

lemma nodeCite_simps [simp]:
  "nstatus (nodeCite x a) = nstatus a" "nrec (nodeCite x a) = nrec a"
  "set (ndesc (nodeCite x a)) = insert x (set (ndesc a))" "nodeCite x (nodeCite x a) = nodeCite x a"
  by (simp_all add: nodeCite_def insort_insert_triv)

lemma parentsAt_Nil: "G n = None \<Longrightarrow> parentsAt G n = []"
  by (simp add: parentsAt_def nodeAt_def emptyNode_def parents_def setName_def newRecord_def)

text \<open>The nodes the search can meet from the parents \<open>ps\<close>: it goes through accepted records that are
  not interlocked yet, and stops at pending ones.\<close>

inductive ancestor :: "graph \<Rightarrow> name list \<Rightarrow> name \<Rightarrow> bool" for G ps where
  direct: "p \<in> set ps \<Longrightarrow> open_at G p \<Longrightarrow> ancestor G ps p"
| further: "ancestor G ps p \<Longrightarrow> expandable_at G p \<Longrightarrow> q \<in> set (parentsAt G p) \<Longrightarrow> open_at G q \<Longrightarrow>
    ancestor G ps q"

lemma ancestor_open: "ancestor G ps a \<Longrightarrow> open_at G a"
  by (induction rule: ancestor.induct)

text \<open>Two graphs with the same statuses and records have the same ancestors.\<close>

definition same_shape :: "graph \<Rightarrow> graph \<Rightarrow> bool" where
  "same_shape G H \<longleftrightarrow> (\<forall>n. nstatus (nodeAt H n) = nstatus (nodeAt G n) \<and> nrec (nodeAt H n) = nrec (nodeAt G n))"

lemma same_shape_refl [simp]: "same_shape G G"
  by (simp add: same_shape_def)

lemma same_shape_trans: "same_shape G H \<Longrightarrow> same_shape H K \<Longrightarrow> same_shape G K"
  by (simp add: same_shape_def)

lemma same_shape_simps:
  assumes "same_shape G H"
  shows "open_at H = open_at G" "pending_at H = pending_at G" "expandable_at H = expandable_at G"
    "parentsAt H = parentsAt G"
  using assms
  by (auto simp: same_shape_def open_at_def pending_at_def expandable_at_def parentsAt_def fun_eq_iff)

lemma same_shape_ancestor:
  assumes "same_shape G H"
  shows "ancestor H = ancestor G"
proof -
  have "ancestor G ps a" if "ancestor H ps a" for ps a
    using that by (induction rule: ancestor.induct)
      (auto simp: same_shape_simps [OF assms] intro: ancestor.intros)
  moreover have "ancestor H ps a" if "ancestor G ps a" for ps a
    using that by (induction rule: ancestor.induct)
      (auto simp: same_shape_simps [OF assms, symmetric] intro: ancestor.intros)
  ultimately show ?thesis by (auto simp: fun_eq_iff)
qed

section \<open>Effects of the search and of a citation\<close>

text \<open>\<open>touch\<close>: reading a missing node stores an empty one. \<open>pend\<close>: the search from \<open>me\<close> has visited
  \<open>V\<close> and recorded \<open>me\<close> at the pending nodes there. \<open>cite\<close>: \<open>me\<close> is recorded at all of \<open>A\<close>.\<close>

definition touch :: "graph \<Rightarrow> name \<Rightarrow> graph" where
  "touch G n = G(n \<mapsto> nodeAt G n)"

definition cite :: "graph \<Rightarrow> name \<Rightarrow> name set \<Rightarrow> graph" where
  "cite G me A = (\<lambda>n. if n \<in> A then Some (nodeCite me (nodeAt G n)) else G n)"

definition pend :: "graph \<Rightarrow> name \<Rightarrow> name set \<Rightarrow> graph" where
  "pend G me V = cite G me {n \<in> V. pending_at G n}"

lemma touch_present [simp]: "G n \<noteq> None \<Longrightarrow> touch G n = G"
  by (auto simp: touch_def nodeAt_def fun_eq_iff)

lemma nodeAt_touch [simp]: "nodeAt (touch G n) = nodeAt G"
  by (auto simp: touch_def nodeAt_def fun_eq_iff)

lemma nodeAt_cite: "nodeAt (cite G me A) n = (if n \<in> A then nodeCite me (nodeAt G n) else nodeAt G n)"
  by (simp add: nodeAt_def cite_def)

lemma same_shape_cite [simp]: "same_shape G (cite G me A)"
  by (simp add: same_shape_def nodeAt_cite)

lemma same_shape_pend [simp]: "same_shape G (pend G me V)"
  by (simp add: pend_def)

lemma same_shape_touch [simp]: "same_shape G (touch G n)"
  by (simp add: same_shape_def)

lemma cite_empty [simp]: "cite G me {} = G"
  by (simp add: cite_def)

lemma cite_cite [simp]: "cite (cite G me A) me B = cite G me (A \<union> B)"
  by (auto simp: cite_def nodeAt_def fun_eq_iff)

lemma cite_single: "G(n \<mapsto> nodeCite me (nodeAt G n)) = cite G me {n}"
  by (auto simp: cite_def fun_eq_iff)

lemma pend_cong: "(\<And>n. pending_at G n \<Longrightarrow> n \<in> V \<longleftrightarrow> n \<in> W) \<Longrightarrow> pend G me V = pend G me W"
  by (auto simp: pend_def intro!: arg_cong [where f = "cite G me"])

lemma pend_empty [simp]: "pend G me {} = G"
  by (simp add: pend_def)

lemma cite_pend: "V \<subseteq> A \<Longrightarrow> cite (pend G me V) me A = cite G me A"
  by (simp add: pend_def) (rule arg_cong [where f = "cite G me"], auto)

lemma touch_pend: "\<not> pending_at G n \<Longrightarrow> touch (pend G me V) n = pend G me V"
proof -
  assume "\<not> pending_at G n"
  then have "G n \<noteq> None" by (auto simp: pending_at_def nodeAt_def emptyNode_def split: option.splits)
  then show ?thesis by (intro touch_present) (auto simp: pend_def cite_def)
qed

text \<open>Visiting \<open>p\<close> after \<open>V\<close>: read it, and if it is pending record \<open>me\<close> there.\<close>

lemma pend_visit:
  "pend G me (insert p V) = (if pending_at G p then cite (pend G me V) me {p} else pend G me V)"
  by (auto simp: pend_def intro!: arg_cong [where f = "cite G me"])

section \<open>The search as a function on lists\<close>

definition addSeen :: "graph \<Rightarrow> name list \<Rightarrow> name \<Rightarrow> name list" where
  "addSeen G as q = (if q \<notin> set as \<and> open_at G q then as @ [q] else as)"

definition bfsRound :: "graph \<Rightarrow> name list \<Rightarrow> name list \<Rightarrow> name list \<times> name list" where
  "bfsRound G as frontier = (let qs = concat (map (parentsAt G) frontier) in
     (foldl (addSeen G) as qs, filter (expandable_at G) qs))"

lemma addSeen_fold: "\<exists>new. foldl (addSeen G) as qs = as @ new \<and> distinct new \<and>
    set new = {q \<in> set qs. open_at G q} - set as"
proof (induction qs arbitrary: as)
  case (Cons q qs)
  show ?case
  proof (cases "q \<notin> set as \<and> open_at G q")
    case True
    obtain new where "foldl (addSeen G) (as @ [q]) qs = (as @ [q]) @ new" and d: "distinct new"
      "set new = {q \<in> set qs. open_at G q} - set (as @ [q])"
      using Cons.IH by blast
    then have "foldl (addSeen G) as (q # qs) = as @ (q # new)"
      using True by (simp add: addSeen_def)
    moreover from d True have "distinct (q # new)"
      "set (q # new) = {q' \<in> set (q # qs). open_at G q'} - set as" by auto
    ultimately show ?thesis by blast
  next
    case False
    then show ?thesis using Cons.IH [of as] by (auto simp: addSeen_def)
  qed
qed simp

text \<open>The invariant of the \<open>while\<close> loop. \<open>as\<close> splits into the direct parents (possibly repeated) and
  the names found later (never repeated).\<close>

definition search_inv :: "graph \<Rightarrow> name list \<Rightarrow> name list \<Rightarrow> name list \<Rightarrow> bool" where
  "search_inv G ps as frontier \<longleftrightarrow>
     (\<forall>a \<in> set as. ancestor G ps a)
     \<and> (\<forall>f \<in> set frontier. f \<in> set as \<and> expandable_at G f)
     \<and> (\<forall>p \<in> set ps. open_at G p \<longrightarrow> p \<in> set as)
     \<and> (\<forall>a \<in> set as. expandable_at G a \<longrightarrow> a \<in> set frontier \<or>
          (\<forall>q \<in> set (parentsAt G a). open_at G q \<longrightarrow> q \<in> set as))
     \<and> (\<exists>d e. as = d @ e \<and> length d \<le> length ps \<and> distinct e)"

lemma search_inv_start:
  "search_inv G ps (filter (open_at G) ps) (filter (expandable_at G) ps)"
proof -
  let ?as = "filter (open_at G) ps"
  have "?as = ?as @ [] \<and> length ?as \<le> length ps \<and> distinct ([] :: name list)" by simp
  then have "\<exists>d e. ?as = d @ e \<and> length d \<le> length ps \<and> distinct e" by blast
  then show ?thesis
    unfolding search_inv_def by (simp add: ancestor.direct expandable_at_def)
qed

lemma search_inv_round:
  assumes "search_inv G ps as fr" and "bfsRound G as fr = (as', fr')"
  shows "search_inv G ps as' fr'" and "\<exists>new. as' = as @ new"
    and "as' = as \<Longrightarrow> {a. ancestor G ps a} = set as"
proof -
  define qs where "qs = concat (map (parentsAt G) fr)"
  obtain new where new: "as' = as @ new" "distinct new" "set new = {q \<in> set qs. open_at G q} - set as"
    using assms(2) addSeen_fold [of G as qs] by (auto simp: bfsRound_def qs_def Let_def)
  have fr': "set fr' = {q \<in> set qs. expandable_at G q}"
    using assms(2) by (auto simp: bfsRound_def qs_def Let_def)
  have qs: "q \<in> set qs \<longleftrightarrow> (\<exists>f \<in> set fr. q \<in> set (parentsAt G f))" for q
    by (auto simp: qs_def)
  note inv = assms(1) [unfolded search_inv_def]
  show "\<exists>new. as' = as @ new" using new by blast
  have anc: "ancestor G ps a" if "a \<in> set as'" for a
    using that inv by (auto simp: new qs intro: ancestor.further)
  moreover have "\<exists>d e. as' = d @ e \<and> length d \<le> length ps \<and> distinct e"
  proof -
    obtain d e where "as = d @ e" "length d \<le> length ps" "distinct e" using inv by blast
    with new show ?thesis by (intro exI [of _ d] exI [of _ "e @ new"]) auto
  qed
  ultimately show "search_inv G ps as' fr'"
    using inv unfolding search_inv_def new(1) fr'
    by (auto simp: new(3) qs expandable_at_def)
  assume "as' = as"
  with new have closed: "q \<in> set as" if "f \<in> set fr" "q \<in> set (parentsAt G f)" "open_at G q" for f q
    using that by (auto simp: qs)
  have "a \<in> set as" if "ancestor G ps a" for a
    using that
  proof (induction rule: ancestor.induct)
    case (direct p)
    then show ?case using inv by blast
  next
    case (further p q)
    then show ?case using inv closed by blast
  qed
  with inv show "{a. ancestor G ps a} = set as" by blast
qed

lemma search_inv_empty: "search_inv G ps [] fr \<Longrightarrow> {a. ancestor G ps a} = {}"
proof -
  assume inv: "search_inv G ps [] fr"
  have "\<not> ancestor G ps a" for a
  proof
    assume "ancestor G ps a"
    then show False by (induction rule: ancestor.induct) (use inv in \<open>auto simp: search_inv_def\<close>)
  qed
  then show ?thesis by blast
qed

definition small :: "graph \<Rightarrow> name list \<Rightarrow> bool" where
  "small G ps \<longleftrightarrow> finite {a. ancestor G ps a} \<and> length ps + card {a. ancestor G ps a} < 2 ^ 32"

lemma search_inv_length:
  assumes "search_inv G ps as fr" and "small G ps"
  shows "length as < 2 ^ 32"
proof -
  obtain d e where as: "as = d @ e" "length d \<le> length ps" "distinct e"
    using assms(1) by (auto simp: search_inv_def)
  have "set e \<subseteq> {a. ancestor G ps a}"
    using assms(1) as by (auto simp: search_inv_def)
  then have "length e \<le> card {a. ancestor G ps a}"
    using assms(2) as(3) by (metis card_mono distinct_card small_def)
  with as assms(2) show ?thesis by (simp add: small_def)
qed

section \<open>The operations on the graph\<close>

text \<open>\<open>loadNode\<close> accepts a pending record; \<open>resolve\<close> lets every listed record that is no genesis
  record cite its ancestors; \<open>graphAdd\<close> is what \<open>DagModule::add\<close> does; \<open>interlockAll\<close> marks nodes as
  interlocked.\<close>

definition loadNode :: "graph \<Rightarrow> ledger_record \<Rightarrow> graph" where
  "loadNode G r = (let n = toStateName (recName r) in
     G(n \<mapsto> (nodeAt G n)\<lparr>nstatus := LOADED, nrec := r\<rparr>))"

definition citeAncestors :: "graph \<Rightarrow> name \<Rightarrow> graph" where
  "citeAncestors G x = (if isGenesis (nrec (nodeAt G x)) then G
     else cite G x {a. ancestor G (parentsAt G x) a})"

definition resolve :: "graph \<Rightarrow> name list \<Rightarrow> graph" where
  "resolve G xs = foldl citeAncestors G xs"

definition graphAdd :: "graph \<Rightarrow> ledger_record \<Rightarrow> graph" where
  "graphAdd G r = (let n = toStateName (recName r) in
     if pending_at G n then resolve (loadNode G r) (n # ndesc (nodeAt G n)) else G)"

definition nodeInterlock :: "node \<Rightarrow> node" where
  "nodeInterlock x = x\<lparr>nstatus := INTERLOCKED\<rparr>"

definition interlockAll :: "graph \<Rightarrow> name set \<Rightarrow> graph" where
  "interlockAll G N = (\<lambda>n. if n \<in> N then Some (nodeInterlock (nodeAt G n)) else G n)"

lemma nodeAt_interlockAll:
  "nodeAt (interlockAll G N) n = (if n \<in> N then nodeInterlock (nodeAt G n) else nodeAt G n)"
  by (simp add: interlockAll_def nodeAt_def)

lemma interlockAll_empty [simp]: "interlockAll G {} = G"
  by (simp add: interlockAll_def)

lemma nodeInterlock_simps [simp]:
  "nstatus (nodeInterlock x) = INTERLOCKED" "nrec (nodeInterlock x) = nrec x" "ndesc (nodeInterlock x) = ndesc x"
  by (simp_all add: nodeInterlock_def)

lemma interlockAll_step:
  "(interlockAll G N)(n \<mapsto> nodeInterlock (nodeAt (interlockAll G N) n)) = interlockAll G (insert n N)"
  by (auto simp: interlockAll_def nodeAt_def nodeInterlock_def fun_eq_iff)

lemma same_shape_citeAncestors [simp]: "same_shape G (citeAncestors G x)"
  by (simp add: citeAncestors_def)

lemma same_shape_resolve: "same_shape G (resolve G xs)"
  unfolding resolve_def
  by (induction xs rule: rev_induct) (auto intro: same_shape_trans [OF _ same_shape_citeAncestors])

lemma ndesc_citeAncestors: "set (ndesc (nodeAt (citeAncestors G x) a)) = set (ndesc (nodeAt G a)) \<union>
   (if \<not> isGenesis (nrec (nodeAt G x)) \<and> ancestor G (parentsAt G x) a then {x} else {})"
  by (auto simp: citeAncestors_def nodeAt_cite)

text \<open>What the resolution of a list of records adds to a node.\<close>

lemma ndesc_resolve: "set (ndesc (nodeAt (resolve G xs) a)) = set (ndesc (nodeAt G a)) \<union>
   {x \<in> set xs. \<not> isGenesis (nrec (nodeAt G x)) \<and> ancestor G (parentsAt G x) a}"
proof (induction xs rule: rev_induct)
  case (snoc x xs)
  have shape: "same_shape G (resolve G xs)" by (rule same_shape_resolve)
  have "resolve G (xs @ [x]) = citeAncestors (resolve G xs) x" by (simp add: resolve_def)
  moreover have "nrec (nodeAt (resolve G xs) x) = nrec (nodeAt G x)"
    using shape by (simp add: same_shape_def)
  ultimately show ?case
    using snoc.IH
    by (auto simp: ndesc_citeAncestors same_shape_ancestor [OF shape] same_shape_simps [OF shape])
qed (simp add: resolve_def)

lemma ancestors_below:
  "{a. ancestor G ps a} \<subseteq> set ps \<union> (\<Union>n \<in> dom G. set (parentsAt G n))"
proof
  fix a assume "a \<in> {a. ancestor G ps a}"
  then have "ancestor G ps a" by simp
  then show "a \<in> set ps \<union> (\<Union>n \<in> dom G. set (parentsAt G n))"
  proof cases
    case (further p)
    then have "p \<in> dom G" using parentsAt_Nil [of G p] by (cases "G p") auto
    with further show ?thesis by blast
  qed simp
qed

lemma finite_ancestors: "finite (dom G) \<Longrightarrow> finite {a. ancestor G ps a}"
  by (rule finite_subset [OF ancestors_below]) simp

lemma finite_dom_cite [simp]: "finite (dom G) \<Longrightarrow> finite A \<Longrightarrow> finite (dom (cite G me A))"
proof -
  assume "finite (dom G)" "finite A"
  moreover have "dom (cite G me A) = dom G \<union> A" by (auto simp: cite_def split: if_splits)
  ultimately show ?thesis by simp
qed

lemma finite_dom_resolve: "finite (dom G) \<Longrightarrow> finite (dom (resolve G xs))"
  unfolding resolve_def
  by (induction xs rule: rev_induct) (simp_all add: citeAncestors_def finite_ancestors)

section \<open>The invariant\<close>

text \<open>\<open>citer G x\<close>: the record at \<open>x\<close> has been accepted and cites other records. \<open>reaches G x a\<close>: from
  \<open>x\<close> one gets to \<open>a\<close> by following pointers.\<close>

definition citer :: "graph \<Rightarrow> name \<Rightarrow> bool" where
  "citer G x \<longleftrightarrow> \<not> pending_at G x \<and> \<not> isGenesis (nrec (nodeAt G x))"

definition reaches :: "graph \<Rightarrow> name \<Rightarrow> name \<Rightarrow> bool" where
  "reaches G = (\<lambda>x a. a \<in> set (parentsAt G x))\<^sup>+\<^sup>+"

definition desc_sound :: "graph \<Rightarrow> bool" where
  "desc_sound G \<longleftrightarrow> (\<forall>a. \<forall>x \<in> set (ndesc (nodeAt G a)). citer G x \<and> reaches G x a)"

definition desc_complete :: "graph \<Rightarrow> bool" where
  "desc_complete G \<longleftrightarrow>
     (\<forall>x a. citer G x \<longrightarrow> ancestor G (parentsAt G x) a \<longrightarrow> x \<in> set (ndesc (nodeAt G a)))"

definition statuses_known :: "graph \<Rightarrow> bool" where
  "statuses_known G \<longleftrightarrow> (\<forall>n. nstatus (nodeAt G n) \<in> {INITIALIZED, LOADED, INTERLOCKED})"

definition pending_bare :: "graph \<Rightarrow> bool" where
  "pending_bare G \<longleftrightarrow> (\<forall>n. pending_at G n \<longrightarrow> pointers (nrec (nodeAt G n)) = [])"

definition graph_good :: "graph \<Rightarrow> bool" where
  "graph_good G \<longleftrightarrow> desc_sound G \<and> desc_complete G \<and> statuses_known G \<and> pending_bare G \<and> finite (dom G)"

lemma graph_good_empty: "graph_good Map.empty"
proof -
  have pend: "pending_at Map.empty n" for n
    by (simp add: pending_at_def nodeAt_def emptyNode_def)
  have "nodeAt Map.empty n = emptyNode n" for n by (simp add: nodeAt_def)
  with pend show ?thesis
    by (simp add: graph_good_def desc_sound_def desc_complete_def statuses_known_def pending_bare_def
        citer_def emptyNode_def setName_def newRecord_def)
qed

lemma ancestor_reaches: "ancestor G (parentsAt G x) a \<Longrightarrow> reaches G x a"
  unfolding reaches_def
  by (induction rule: ancestor.induct) (auto intro: tranclp.intros)

text \<open>Loading \<open>n\<close> opens new paths only through \<open>n\<close>.\<close>

lemma ancestor_load:
  assumes "ancestor (loadNode G r) ps a" and "pending_at G (toStateName (recName r))"
  shows "ancestor G ps a \<or> ancestor G ps (toStateName (recName r))"
proof -
  let ?n = "toStateName (recName r)"
  have op: "open_at (loadNode G r) m \<Longrightarrow> open_at G m" for m
    using assms(2) by (cases "m = ?n") (auto simp: open_at_def loadNode_def pending_at_def Let_def)
  have ex: "m \<noteq> ?n \<Longrightarrow> expandable_at (loadNode G r) m \<Longrightarrow> expandable_at G m" for m
    by (auto simp: expandable_at_def open_at_def loadNode_def pending_at_def Let_def)
  have pa: "m \<noteq> ?n \<Longrightarrow> parentsAt (loadNode G r) m = parentsAt G m" for m
    by (simp add: parentsAt_def loadNode_def Let_def)
  from assms(1) show ?thesis
  proof (induction rule: ancestor.induct)
    case (direct p)
    then show ?case by (auto intro: ancestor.direct op)
  next
    case (further p q)
    show ?case
    proof (cases "p = ?n")
      case True
      then show ?thesis using further.IH by auto
    next
      case False
      then show ?thesis using further by (auto intro: ancestor.further op ex simp: pa)
    qed
  qed
qed

lemma load_at:
  "n = toStateName (recName r) \<Longrightarrow> nodeAt (loadNode G r) n = (nodeAt G n)\<lparr>nstatus := LOADED, nrec := r\<rparr>"
  "n \<noteq> toStateName (recName r) \<Longrightarrow> nodeAt (loadNode G r) n = nodeAt G n"
  by (simp_all add: loadNode_def Let_def)

lemma ndesc_load [simp]: "ndesc (nodeAt (loadNode G r) a) = ndesc (nodeAt G a)"
  by (cases "a = toStateName (recName r)") (simp_all add: load_at)

text \<open>A citation of accepted records keeps the descendants sound.\<close>

lemma same_shape_citer:
  assumes "same_shape G H"
  shows "citer H = citer G" "reaches H = reaches G"
  using same_shape_simps [OF assms] assms by (simp_all add: citer_def reaches_def same_shape_def fun_eq_iff)

lemma desc_sound_resolve:
  assumes "desc_sound H" and "\<forall>x \<in> set xs. \<not> pending_at H x"
  shows "desc_sound (resolve H xs)"
  using assms
  by (auto simp: desc_sound_def ndesc_resolve same_shape_citer [OF same_shape_resolve] citer_def
      intro: ancestor_reaches)

lemma resolve_facts:
  assumes "statuses_known H" and "pending_bare H" and "finite (dom H)"
  shows "statuses_known (resolve H xs)" "pending_bare (resolve H xs)" "finite (dom (resolve H xs))"
  using assms same_shape_resolve [of H xs] same_shape_simps [OF same_shape_resolve, of H xs]
  by (simp_all add: statuses_known_def pending_bare_def same_shape_def finite_dom_resolve)

text \<open>Accepting a pending record.\<close>

lemma load_shape:
  assumes "pending_at G (toStateName (recName r))"
  shows "pending_at (loadNode G r) x \<longleftrightarrow> pending_at G x \<and> x \<noteq> toStateName (recName r)"
    and "citer (loadNode G r) x \<longleftrightarrow>
      (if x = toStateName (recName r) then \<not> isGenesis r else citer G x)"
  using load_at(2) [of x r] assms
  by (cases "x = toStateName (recName r)"; simp add: pending_at_def citer_def load_at(1))+

lemma reaches_load:
  assumes "pending_bare G" and "pending_at G (toStateName (recName r))"
  shows "reaches G x a \<Longrightarrow> reaches (loadNode G r) x a"
proof -
  have mono: "q \<in> set (parentsAt (loadNode G r) p)" if "q \<in> set (parentsAt G p)" for p q
    using that assms load_at(2) [where r = r and n = p]
    by (cases "p = toStateName (recName r)")
       (auto simp: pending_bare_def parentsAt_def parents_def)
  have "reaches (loadNode G r) x a" if "reaches G x a"
    using that unfolding reaches_def
    by (induction rule: tranclp.induct) (auto intro: mono tranclp.intros(1) tranclp.intros(2))
  then show "reaches G x a \<Longrightarrow> reaches (loadNode G r) x a" .
qed

lemma desc_sound_load:
  assumes "graph_good G" and "pending_at G (toStateName (recName r))"
  shows "desc_sound (loadNode G r)"
proof -
  have "\<not> citer G (toStateName (recName r))" using assms(2) by (simp add: citer_def)
  with assms show ?thesis
    by (auto simp: graph_good_def desc_sound_def load_shape(2) intro: reaches_load)
qed

lemma desc_complete_load:
  assumes good: "graph_good G" and pend: "pending_at G (toStateName (recName r))"
    and H: "H = loadNode G r" and n: "n = toStateName (recName r)"
  shows "desc_complete (resolve H (n # ndesc (nodeAt G n)))"
proof (unfold desc_complete_def same_shape_citer [OF same_shape_resolve]
    same_shape_simps [OF same_shape_resolve] same_shape_ancestor [OF same_shape_resolve], intro allI impI)
  let ?xs = "n # ndesc (nodeAt G n)"
  fix x a assume cx: "citer H x" and anc: "ancestor H (parentsAt H x) a"
  have new: "x \<in> set ?xs \<Longrightarrow> x \<in> set (ndesc (nodeAt (resolve H ?xs) a))"
    using cx anc by (simp add: ndesc_resolve citer_def)
  show "x \<in> set (ndesc (nodeAt (resolve H ?xs) a))"
  proof (cases "x = n")
    case False
    then have "citer G x" "parentsAt H x = parentsAt G x"
      using cx load_shape(2) [OF pend, of x] load_at(2) [of x r] by (simp_all add: H n parentsAt_def)
    moreover have "ancestor G (parentsAt H x) a \<or> ancestor G (parentsAt H x) n"
      using ancestor_load anc pend by (simp add: H n)
    ultimately have "x \<in> set (ndesc (nodeAt G a)) \<or> x \<in> set (ndesc (nodeAt G n))"
      using good by (auto simp: graph_good_def desc_complete_def)
    then show ?thesis
    proof
      assume "x \<in> set (ndesc (nodeAt G a))"
      then show ?thesis by (simp add: ndesc_resolve H)
    qed (simp add: new)
  next
    case True
    then show ?thesis by (intro new) simp
  qed
qed

lemma graph_good_load:
  assumes good: "graph_good G" and pend: "pending_at G (toStateName (recName r))"
  shows "statuses_known (loadNode G r)" "pending_bare (loadNode G r)" "finite (dom (loadNode G r))"
proof -
  show "statuses_known (loadNode G r)"
    unfolding statuses_known_def
  proof
    fix m show "nstatus (nodeAt (loadNode G r) m) \<in> {INITIALIZED, LOADED, INTERLOCKED}"
      using good load_at(2) [of m r]
      by (cases "m = toStateName (recName r)")
         (simp_all add: graph_good_def statuses_known_def load_at(1))
  qed
  show "pending_bare (loadNode G r)"
    using good load_at(2) [of _ r] by (auto simp: graph_good_def pending_bare_def load_shape(1) [OF pend])
  show "finite (dom (loadNode G r))"
    using good by (simp add: graph_good_def loadNode_def Let_def)
qed

theorem graph_good_add:
  assumes good: "graph_good G"
  shows "graph_good (graphAdd G r)"
proof (cases "pending_at G (toStateName (recName r))")
  case False
  with good show ?thesis by (simp add: graphAdd_def Let_def)
next
  case True
  let ?n = "toStateName (recName r)"
  have "\<not> pending_at (loadNode G r) x" if "x \<in> set (?n # ndesc (nodeAt G ?n))" for x
    using that good by (auto simp: load_shape(1) [OF True] graph_good_def desc_sound_def citer_def)
  then have "desc_sound (resolve (loadNode G r) (?n # ndesc (nodeAt G ?n)))"
    by (intro desc_sound_resolve desc_sound_load good True) blast
  with True graph_good_load [OF good True] show ?thesis
    by (simp add: graphAdd_def Let_def graph_good_def resolve_facts desc_complete_load [OF good True])
qed

text \<open>Marking accepted nodes as interlocked.\<close>

lemma interlock_shape:
  assumes "\<forall>n \<in> N. \<not> pending_at G n"
  shows "pending_at (interlockAll G N) = pending_at G" "parentsAt (interlockAll G N) = parentsAt G"
    "citer (interlockAll G N) = citer G" "reaches (interlockAll G N) = reaches G"
    "ndesc (nodeAt (interlockAll G N) n) = ndesc (nodeAt G n)"
    "nrec (nodeAt (interlockAll G N) n) = nrec (nodeAt G n)"
proof -
  show p: "parentsAt (interlockAll G N) = parentsAt G"
    by (auto simp: parentsAt_def nodeAt_interlockAll fun_eq_iff)
  then show "reaches (interlockAll G N) = reaches G" by (simp add: reaches_def)
qed (use assms in \<open>auto simp: pending_at_def citer_def nodeAt_interlockAll fun_eq_iff\<close>)

lemma ancestor_interlockAll: "ancestor (interlockAll G N) ps a \<Longrightarrow> ancestor G ps a"
proof (induction rule: ancestor.induct)
  case (direct p)
  then show ?case by (auto intro!: ancestor.direct simp: open_at_def nodeAt_interlockAll split: if_splits)
next
  case (further p q)
  then show ?case
    by (auto intro!: ancestor.further [of G ps p q]
        simp: expandable_at_def pending_at_def open_at_def parentsAt_def nodeAt_interlockAll split: if_splits)
qed

theorem graph_good_interlock:
  assumes "graph_good G" and N: "\<forall>n \<in> N. \<not> pending_at G n"
  shows "graph_good (interlockAll G N)"
proof -
  have sub: "N \<subseteq> dom G"
    using N by (auto simp: pending_at_def nodeAt_def emptyNode_def split: option.splits)
  have "dom (interlockAll G N) = dom G"
    using sub by (auto simp: interlockAll_def split: if_splits)
  moreover have "statuses_known (interlockAll G N)"
    using assms(1) by (auto simp: graph_good_def statuses_known_def nodeAt_interlockAll)
  ultimately show ?thesis
    using assms(1) unfolding graph_good_def
    by (auto simp: interlock_shape [OF N] desc_sound_def desc_complete_def pending_bare_def
        dest: ancestor_interlockAll)
qed

section \<open>Room for the 32-bit counter\<close>

text \<open>The pointers of all stored records together bound the length of every search.\<close>

definition pointer_count :: "graph \<Rightarrow> nat" where
  "pointer_count G = (\<Sum>n \<in> dom G. length (pointers (nrec (nodeAt G n))))"

lemma card_parents: "finite (dom G) \<Longrightarrow> card (\<Union>n \<in> dom G. set (parentsAt G n)) \<le> pointer_count G"
proof -
  assume fin: "finite (dom G)"
  then have "card (\<Union>n \<in> dom G. set (parentsAt G n)) \<le> (\<Sum>n \<in> dom G. card (set (parentsAt G n)))"
    by (rule card_UN_le)
  also have "\<dots> \<le> pointer_count G"
    unfolding pointer_count_def
    by (intro sum_mono) (metis card_length length_map parentsAt_def parents_def)
  finally show ?thesis .
qed

lemma small_parents:
  assumes "finite (dom G)" and "2 * length ps + pointer_count G < 2 ^ 32"
  shows "small G ps"
proof -
  let ?S = "\<Union>n \<in> dom G. set (parentsAt G n)"
  have "card {a. ancestor G ps a} \<le> card (set ps \<union> ?S)"
    using assms(1) ancestors_below by (intro card_mono) auto
  also have "\<dots> \<le> card (set ps) + card ?S" by (rule card_Un_le)
  also have "\<dots> \<le> length ps + pointer_count G"
    using card_parents [OF assms(1)] card_length [of ps] by linarith
  finally show ?thesis using assms by (simp add: small_def finite_ancestors)
qed

lemma small_parentsAt:
  assumes "finite (dom G)" and "pointer_count G < 2 ^ 30"
  shows "small G (parentsAt G x)"
proof (rule small_parents [OF assms(1)])
  have "length (parentsAt G x) \<le> pointer_count G"
  proof (cases "G x")
    case None
    then show ?thesis by (simp add: parentsAt_Nil)
  next
    case (Some y)
    then have "x \<in> dom G" by blast
    with assms(1) show ?thesis
      unfolding pointer_count_def parentsAt_def parents_def length_map by (intro member_le_sum) auto
  qed
  with assms(2) show "2 * length (parentsAt G x) + pointer_count G < 2 ^ 32" by simp
qed

end
