(* ===== verification/Dag_Refine.thy ===== *)
theory Dag_Refine
  imports Dag_Module Dag_Spec
begin

text \<open>
  \<open>Dag_Module\<close> implements \<open>Dag_Spec\<close>. A storage state shows a graph (\<open>graphOf\<close>: decode what is
  stored under each state name). \<open>dag_view\<close> relates a module state to a graph and a waitlist and says
  that everything else (packets, records, other objects in storage, other fields of the state) is as
  in a given earlier state. The locale \<open>dag_store\<close> proves, for any backend that is a \<open>block_store\<close> and
  any codec that is an \<open>ndn_codec\<close>, that every operation returns normally and has the abstract effect.
\<close>

section \<open>The graph in storage\<close>

definition nodeOf :: "edge_state \<Rightarrow> node" where
  "nodeOf s = \<lparr>nstatus = status s, nrec = setName (erecord s) (fromStateName (stateName s)),
     ndesc = descendants s\<rparr>"

definition graphOf :: "ndn \<Rightarrow> (name \<Rightarrow> block option) \<Rightarrow> graph" where
  "graphOf L c n = (if is_state_name n then (case c n of
       None \<Rightarrow> None
     | Some b \<Rightarrow> (case decodeEdgeState L b of Inl _ \<Rightarrow> None | Inr s \<Rightarrow> Some (nodeOf s)))
     else None)"

text \<open>What is stored under a state name is an edge state of that name.\<close>

definition states_stored :: "ndn \<Rightarrow> (name \<Rightarrow> block option) \<Rightarrow> bool" where
  "states_stored L c \<longleftrightarrow> (\<forall>n b. is_state_name n \<longrightarrow> c n = Some b \<longrightarrow>
     (\<exists>s. decodeEdgeState L b = Inr s \<and> stateName s = n \<and> recName (erecord s) = fromStateName n))"

lemma graphOf_put: "is_state_name n \<Longrightarrow> decodeEdgeState L b = Inr s \<Longrightarrow>
  graphOf L (c(n \<mapsto> b)) = (graphOf L c)(n \<mapsto> nodeOf s)"
  by (simp add: graphOf_def fun_eq_iff)

lemma graphOf_delete: "graphOf L (c(n := None)) = (graphOf L c)(n := None)"
  by (simp add: graphOf_def fun_eq_iff)

lemma graphOf_other: "\<not> is_state_name n \<Longrightarrow> graphOf L (c(n := x)) = graphOf L c"
  by (simp add: graphOf_def fun_eq_iff)

lemma graphOf_Some: "graphOf L c n = Some x \<Longrightarrow>
  is_state_name n \<and> (\<exists>b s. c n = Some b \<and> decodeEdgeState L b = Inr s \<and> x = nodeOf s)"
  by (auto simp: graphOf_def split: if_splits option.splits sum.splits)

lemma states_stored_put: "states_stored L c \<Longrightarrow> decodeEdgeState L b = Inr s \<Longrightarrow> stateName s = n \<Longrightarrow>
  recName (erecord s) = fromStateName n \<Longrightarrow> states_stored L (c(n \<mapsto> b))"
  by (simp add: states_stored_def)

lemma states_stored_delete: "states_stored L c \<Longrightarrow> states_stored L (c(n := None))"
  by (simp add: states_stored_def)

lemma states_stored_other: "\<not> is_state_name n \<Longrightarrow> states_stored L (c(n := x)) = states_stored L c"
  by (auto simp: states_stored_def)

definition dag_view :: "ndn \<Rightarrow> ('s \<Rightarrow> name \<Rightarrow> block option) \<Rightarrow> ('s \<Rightarrow> bool) \<Rightarrow>
    ('s, 'z) dag_state_scheme \<Rightarrow> graph \<Rightarrow> waitlist \<Rightarrow> ('s, 'z) dag_state_scheme \<Rightarrow> bool" where
  "dag_view L C ok st0 G w st \<longleftrightarrow> ok (store st) \<and> states_stored L (C (store st))
     \<and> graphOf L (C (store st)) = G \<and> waitlist st = w
     \<and> (\<forall>n. \<not> is_state_name n \<longrightarrow> C (store st) n = C (store st0) n)
     \<and> dag_state.more st = dag_state.more st0"

lemma dag_view_trans: "dag_view L C ok st0 G w st \<Longrightarrow> dag_view L C ok st H v st' \<Longrightarrow> dag_view L C ok st0 H v st'"
  by (simp add: dag_view_def)

lemma nodeOf_simps [simp]:
  "nstatus (nodeOf s) = status s" "ndesc (nodeOf s) = descendants s"
  "pointers (nrec (nodeOf s)) = pointers (erecord s)" "isGenesis (nrec (nodeOf s)) = isGenesis (erecord s)"
  by (simp_all add: nodeOf_def setName_def isGenesis_def)

lemma nodeOf_cite: "nodeOf (addDescendant x s) = nodeCite x (nodeOf s)"
  by (simp add: nodeOf_def addDescendant_def nodeCite_def)

text \<open>The names that occur in a graph can be encoded.\<close>

definition node_wf :: "name \<Rightarrow> node \<Rightarrow> bool" where
  "node_wf n x \<longleftrightarrow> wf_name n \<and> list_all wf_name (pointers (nrec x)) \<and> set_wf (ndesc x)
     \<and> list_all wf_name (ndesc x)"

locale dag_store = ndn_codec L + block_store I C ok
  for L :: ndn and I :: "'s storage_intf" and C :: "'s \<Rightarrow> name \<Rightarrow> block option" and ok :: "'s \<Rightarrow> bool"
begin

abbreviation view :: "('s, 'z) dag_state_scheme \<Rightarrow> graph \<Rightarrow> waitlist \<Rightarrow> ('s, 'z) dag_state_scheme \<Rightarrow> bool" where
  "view \<equiv> dag_view L C ok"

lemma decode_stored:
  "wf_state s \<Longrightarrow> \<exists>s'. decodeEdgeState L (encodeEdgeState L s) = Inr s' \<and> nodeOf s' = nodeOf s
     \<and> stateName s' = stateName s \<and> recName (erecord s') = fromStateName (stateName s)"
  by (simp add: decode_encodeEdgeState storedState_def nodeOf_def setName_def)

lemma graph_node_wf:
  assumes "view st0 G w st" and "G n = Some x"
  shows "node_wf n x" and "is_state_name n" and "recName (nrec x) = fromStateName n"
proof -
  obtain b s where b: "is_state_name n" "C (store st) n = Some b" "decodeEdgeState L b = Inr s" "x = nodeOf s"
    using assms by (auto simp: dag_view_def graphOf_def split: if_splits option.splits sum.splits)
  with assms have "stateName s = n"
    by (force simp: dag_view_def states_stored_def)
  moreover have "wf_state s" using b(3) by (rule decodeEdgeState_wf)
  ultimately show "node_wf n x" "is_state_name n" "recName (nrec x) = fromStateName n"
    using b by (simp_all add: node_wf_def wf_state_def nodeOf_def setName_def)
qed

lemma parentsAt_wf: "view st0 G w st \<Longrightarrow> p \<in> set (parentsAt G n) \<Longrightarrow> wf_name p \<and> is_state_name p"
  using parentsAt_Nil [of G n] graph_node_wf(1) [of st0 G w st n]
  by (cases "G n") (auto simp: parentsAt_def parents_def node_wf_def list_all_iff)

section \<open>Reading and writing an edge state\<close>

lemma stateName_construct [simp]: "stateName (construct n t1 t2) = n"
  by (simp add: construct_def)

lemma wf_construct [simp]: "wf_name n \<Longrightarrow> wf_state (construct n t1 t2)"
  by (simp add: construct_def wf_state_def newRecord_def)

lemma nodeOf_construct [simp]: "nodeOf (construct n t1 t2) = emptyNode n"
  by (simp add: construct_def nodeOf_def emptyNode_def)

lemma adder_view:
  assumes "view st0 G w st" and "C (store st) (stateName s) = None" and "wf_state s"
    and "is_state_name (stateName s)"
  shows "runs (addBlockM I (stateName s) (encodeEdgeState L s)) st
    (\<lambda>_. view st0 (G(stateName s \<mapsto> nodeOf s)) w)"
proof -
  obtain t where t: "adder I (stateName s) (encodeEdgeState L s) (store st) = (Inr (), t)" "ok t"
    "C t = (C (store st))(stateName s \<mapsto> encodeEdgeState L s)"
    using adder_new [of "store st" "stateName s" "encodeEdgeState L s"] assms
    by (auto simp: dag_view_def)
  obtain s' where "decodeEdgeState L (encodeEdgeState L s) = Inr s'" "nodeOf s' = nodeOf s"
    "stateName s' = stateName s" "recName (erecord s') = fromStateName (stateName s)"
    using decode_stored assms(3) by blast
  with assms t have "view st0 (G(stateName s \<mapsto> nodeOf s)) w (st\<lparr>store := t\<rparr>)"
    by (auto simp: dag_view_def graphOf_put states_stored_put)
  with t show ?thesis
    by (auto simp: addBlockM_def intro: runsI)
qed

lemma deleter_view:
  assumes "view st0 G w st" and "G n \<noteq> None"
  shows "runs (deleteBlockM I n) st (\<lambda>_ st'. view st0 (G(n := None)) w st' \<and> C (store st') n = None)"
proof -
  have n: "C (store st) n \<noteq> None" "is_state_name n"
    using assms by (auto simp: dag_view_def dest!: graphOf_Some)
  obtain t where t: "deleter I n (store st) = (Inr (), t)" "ok t" "C t = (C (store st))(n := None)"
    using deleter_Some [of "store st" n] n assms(1) by (auto simp: dag_view_def)
  with assms n have "view st0 (G(n := None)) w (st\<lparr>store := t\<rparr>)"
    by (auto simp: dag_view_def graphOf_delete states_stored_delete)
  with t show ?thesis
    by (auto simp: deleteBlockM_def intro: runsI)
qed

lemma update_view:
  assumes "view st0 G w st" and "G (stateName s) \<noteq> None" and "wf_state s"
  shows "runs (update L I s) st (\<lambda>_. view st0 (G(stateName s \<mapsto> nodeOf s)) w)"
proof -
  have "is_state_name (stateName s)"
    using assms graph_node_wf(2) by blast
  then have "view st0 (G(stateName s := None)) w st' \<and> C (store st') (stateName s) = None \<Longrightarrow>
      runs (addBlockM I (stateName s) (encodeEdgeState L s)) st' (\<lambda>_. view st0 (G(stateName s \<mapsto> nodeOf s)) w)"
    for st'
    using adder_view [of st0 "G(stateName s := None)" w st' s] assms(3) by simp
  then show ?thesis
    unfolding update_def by (rule runs_bindI [OF deleter_view [OF assms(1,2)]])
qed

lemma getOrConstruct_view:
  assumes "view st0 G w st" and "is_state_name n" and "wf_name n"
  shows "runs (getOrConstruct L I n) st (\<lambda>s st'. view st0 (touch G n) w st' \<and> stateName s = n \<and> wf_state s
    \<and> nodeOf s = nodeAt G n \<and> (G n \<noteq> None \<longrightarrow> erecord s = nrec (nodeAt G n)))"
proof (cases "C (store st) n")
  case (Some b)
  then obtain s where s: "decodeEdgeState L b = Inr s" "stateName s = n" "recName (erecord s) = fromStateName n"
    using assms by (auto simp: dag_view_def states_stored_def)
  then have G: "G n = Some (nodeOf s)"
    using assms Some by (auto simp: dag_view_def graphOf_def)
  have "getter I n (store st) = Inr b"
    using assms Some by (simp add: dag_view_def getter_Some)
  with s have "bindM (getBlockM I n) (\<lambda>b. liftE (decodeEdgeState L b)) st = (Inr s, st)"
    by (simp add: bindM_def getBlockM_def liftE_def)
  then have "getOrConstruct L I n st = (Inr s, st)"
    unfolding getOrConstruct_def by (rule catchM_Inr)
  moreover have "erecord s = nrec (nodeOf s)" using s by (simp add: nodeOf_def setName_def)
  ultimately show ?thesis
    using assms s decodeEdgeState_wf [OF s(1)] G by (auto intro!: runsI)
next
  case None
  then have G: "G n = None" "nodeAt G n = emptyNode n"
    using assms by (auto simp: dag_view_def graphOf_def nodeAt_def)
  obtain m where "getter I n (store st) = Inl (RuntimeError m)"
    using assms None getter_None [of "store st" n] by (auto simp: dag_view_def)
  then have "bindM (getBlockM I n) (\<lambda>b. liftE (decodeEdgeState L b)) st = (Inl (RuntimeError m), st)"
    by (simp add: bindM_def getBlockM_def)
  then have eq: "getOrConstruct L I n st =
      bindM (nowM L) (\<lambda>t1. bindM (nowM L) (\<lambda>t2. let s = construct n t1 t2 in
        bindM (addBlockM I (stateName s) (encodeEdgeState L s)) (\<lambda>_. ret s))) st"
    unfolding getOrConstruct_def by (rule catchM_Inl) simp
  define s where "s = construct n (clock L (tick st)) (clock L (Suc (tick st)))"
  have s: "stateName s = n" "wf_state s" "nodeOf s = emptyNode n"
    using assms by (simp_all add: s_def)
  have "view st0 G w (st\<lparr>tick := Suc (Suc (tick st))\<rparr>)"
    using assms by (simp add: dag_view_def)
  from adder_view [OF this, of s] s None assms
  have "runs (addBlockM I (stateName s) (encodeEdgeState L s)) (st\<lparr>tick := Suc (Suc (tick st))\<rparr>)
      (\<lambda>_. view st0 (touch G n) w)"
    by (simp add: touch_def G(2))
  then obtain st' where st': "view st0 (touch G n) w st'"
    "addBlockM I (stateName s) (encodeEdgeState L s) (st\<lparr>tick := Suc (Suc (tick st))\<rparr>) = (Inr (), st')"
    by (auto simp: runs_def)
  then have "getOrConstruct L I n st = (Inr s, st')"
    by (simp add: eq bindM_def nowM_def ret_def Let_def s_def)
  then show ?thesis
    using s G st' by (intro runsI) auto
qed

section \<open>The search\<close>

text \<open>Visiting a parent reads it, and if it is pending records \<open>me\<close> there.\<close>

lemma addDescendant_wf: "wf_state s \<Longrightarrow> wf_name me \<Longrightarrow> wf_state (addDescendant me s)"
  by (auto simp: wf_state_def addDescendant_def list_all_iff)

lemma addDescendant_simps [simp]:
  "stateName (addDescendant me s) = stateName s" "status (addDescendant me s) = status s"
  by (simp_all add: addDescendant_def)

lemma visit_view:
  assumes "view st0 (pend G me V) w st" and "is_state_name p" and "wf_name p" and "wf_name me"
  shows "runs (bindM (getOrConstruct L I p) (\<lambda>parent.
      bindM (if status parent = INITIALIZED then update L I (addDescendant me parent) else ret ()) (\<lambda>_.
      ret parent))) st
    (\<lambda>s st'. view st0 (pend G me (insert p V)) w st' \<and> stateName s = p \<and> status s = nstatus (nodeAt G p))"
proof (rule runs_bindI [OF getOrConstruct_view [OF assms(1-3)]], elim conjE)
  fix s st'
  let ?H = "pend G me V"
  assume s: "view st0 (touch ?H p) w st'" "stateName s = p" "wf_state s" "nodeOf s = nodeAt ?H p"
  have st: "status s = nstatus (nodeAt G p)"
    using arg_cong [OF s(4), of nstatus] same_shape_pend [of G me V] by (simp add: same_shape_def)
  show "runs (bindM (if status s = INITIALIZED then update L I (addDescendant me s) else ret ()) (\<lambda>_. ret s)) st'
    (\<lambda>s st'. view st0 (pend G me (insert p V)) w st' \<and> stateName s = p \<and> status s = nstatus (nodeAt G p))"
  proof (cases "pending_at G p")
    case True
    then have "status s = INITIALIZED" using st by (simp add: pending_at_def)
    moreover have "(touch ?H p)(p \<mapsto> nodeOf (addDescendant me s)) = pend G me (insert p V)"
      using True s by (simp add: nodeOf_cite touch_def pend_visit cite_single)
    ultimately show ?thesis
      using update_view [OF s(1), of "addDescendant me s"] s st assms(4)
      by (auto simp: runs_rules addDescendant_wf touch_def elim!: runs_mono)
  next
    case False
    then show ?thesis
      using s st by (auto simp: runs_rules pending_at_def touch_pend pend_visit)
  qed
qed

text \<open>Both loop bodies are a visit followed by a pure update of the two lists.\<close>

lemma bindM_if: "bindM (if b then m else m') f = (if b then bindM m f else bindM m' f)"
  by simp

lemma visitDirect_eq: "visitDirect L I me (as, fr) ptr =
  bindM (bindM (getOrConstruct L I (toStateName ptr)) (\<lambda>parent.
      bindM (if status parent = INITIALIZED then update L I (addDescendant me parent) else ret ()) (\<lambda>_.
      ret parent))) (\<lambda>parent. ret
    (if status parent \<noteq> INTERLOCKED then as @ [stateName parent] else as,
     if status parent \<noteq> INTERLOCKED \<and> status parent \<noteq> INITIALIZED then fr @ [stateName parent] else fr))"
  by (auto simp: visitDirect_def bindM_def ret_def Let_def fun_eq_iff split: prod.splits sum.splits)

lemma visitNext_eq: "visitNext L I me (as, fr) ptr =
  bindM (bindM (getOrConstruct L I (toStateName ptr)) (\<lambda>parent.
      bindM (if status parent = INITIALIZED then update L I (addDescendant me parent) else ret ()) (\<lambda>_.
      ret parent))) (\<lambda>parent. ret
    (if stateName parent \<notin> set as \<and> status parent \<noteq> INTERLOCKED then as @ [stateName parent] else as,
     if status parent \<noteq> INTERLOCKED \<and> status parent \<noteq> INITIALIZED then fr @ [stateName parent] else fr))"
  by (auto simp: visitNext_def bindM_def ret_def Let_def fun_eq_iff split: prod.splits sum.splits)

lemma visitDirect_view:
  assumes "view st0 (pend G me V) w st" and "wf_name ptr" and "wf_name me"
  shows "runs (visitDirect L I me (as, fr) ptr) st
    (\<lambda>r st'. view st0 (pend G me (insert (toStateName ptr) V)) w st' \<and>
      r = (if open_at G (toStateName ptr) then as @ [toStateName ptr] else as,
           if expandable_at G (toStateName ptr) then fr @ [toStateName ptr] else fr))"
  unfolding visitDirect_eq
  by (rule runs_bindI [OF visit_view [OF assms(1)]])
     (use assms in \<open>auto simp: runs_rules open_at_def expandable_at_def pending_at_def\<close>)

lemma visitNext_view:
  assumes "view st0 (pend G me V) w st" and "wf_name ptr" and "wf_name me"
  shows "runs (visitNext L I me (as, fr) ptr) st
    (\<lambda>r st'. view st0 (pend G me (insert (toStateName ptr) V)) w st' \<and>
      r = (addSeen G as (toStateName ptr),
           if expandable_at G (toStateName ptr) then fr @ [toStateName ptr] else fr))"
  unfolding visitNext_eq
  by (rule runs_bindI [OF visit_view [OF assms(1)]])
     (use assms in \<open>auto simp: runs_rules open_at_def expandable_at_def pending_at_def addSeen_def\<close>)

lemma directs_view:
  assumes "view st0 G w st" and "list_all wf_name ptrs" and "wf_name me"
  shows "runs (foldM (visitDirect L I me) ([], []) ptrs) st
    (\<lambda>r st'. view st0 (pend G me (set (map toStateName ptrs))) w st' \<and>
      r = (filter (open_at G) (map toStateName ptrs), filter (expandable_at G) (map toStateName ptrs)))"
proof (rule runs_foldM [where J = "\<lambda>vs r st'. view st0 (pend G me (set (map toStateName vs))) w st' \<and>
      r = (filter (open_at G) (map toStateName vs), filter (expandable_at G) (map toStateName vs))"])
  fix vs p rest b t
  assume ps: "ptrs = vs @ p # rest"
    and J: "view st0 (pend G me (set (map toStateName vs))) w t \<and>
      b = (filter (open_at G) (map toStateName vs), filter (expandable_at G) (map toStateName vs))"
  from J have "runs (visitDirect L I me b p) t (\<lambda>r st'.
      view st0 (pend G me (insert (toStateName p) (set (map toStateName vs)))) w st' \<and>
      r = (if open_at G (toStateName p) then fst b @ [toStateName p] else fst b,
           if expandable_at G (toStateName p) then snd b @ [toStateName p] else snd b))"
    using visitDirect_view [of st0 G me _ w t p "fst b" "snd b"] assms(2,3) ps by simp
  then show "runs (visitDirect L I me b p) t (\<lambda>r st'. view st0 (pend G me (set (map toStateName (vs @ [p])))) w st' \<and>
      r = (filter (open_at G) (map toStateName (vs @ [p])), filter (expandable_at G) (map toStateName (vs @ [p]))))"
    by (rule runs_mono) (use J in auto)
qed (use assms(1) in simp)

lemma nexts_view:
  assumes "view st0 (pend G me V) w st" and "list_all wf_name ptrs" and "wf_name me"
  shows "runs (foldM (visitNext L I me) (as, fr) ptrs) st
    (\<lambda>r st'. view st0 (pend G me (V \<union> set (map toStateName ptrs))) w st' \<and>
      r = (foldl (addSeen G) as (map toStateName ptrs), fr @ filter (expandable_at G) (map toStateName ptrs)))"
proof (rule runs_foldM [where J = "\<lambda>vs r st'. view st0 (pend G me (V \<union> set (map toStateName vs))) w st' \<and>
      r = (foldl (addSeen G) as (map toStateName vs), fr @ filter (expandable_at G) (map toStateName vs))"])
  fix vs p rest b t
  assume ps: "ptrs = vs @ p # rest"
    and J: "view st0 (pend G me (V \<union> set (map toStateName vs))) w t \<and>
      b = (foldl (addSeen G) as (map toStateName vs), fr @ filter (expandable_at G) (map toStateName vs))"
  from J have "runs (visitNext L I me b p) t (\<lambda>r st'.
      view st0 (pend G me (insert (toStateName p) (V \<union> set (map toStateName vs)))) w st' \<and>
      r = (addSeen G (fst b) (toStateName p),
           if expandable_at G (toStateName p) then snd b @ [toStateName p] else snd b))"
    using visitNext_view [of st0 G me _ w t p "fst b" "snd b"] assms(2,3) ps by simp
  then show "runs (visitNext L I me b p) t (\<lambda>r st'. view st0 (pend G me (V \<union> set (map toStateName (vs @ [p])))) w st' \<and>
      r = (foldl (addSeen G) as (map toStateName (vs @ [p])),
           fr @ filter (expandable_at G) (map toStateName (vs @ [p]))))"
    by (rule runs_mono) (use J in auto)
qed (use assms(1) in simp)

text \<open>One round of the \<open>while\<close> loop is \<open>bfsRound\<close>.\<close>

lemma pend_present: "expandable_at G f \<Longrightarrow> pend G me V f \<noteq> None \<and> nrec (nodeAt (pend G me V) f) = nrec (nodeAt G f)"
  using same_shape_pend [of G me V]
  by (cases "G f")
     (auto simp: expandable_at_def pending_at_def nodeAt_def emptyNode_def pend_def cite_def same_shape_def)

lemma expandFrontier_view:
  assumes "view st0 (pend G me V) w st" and "\<forall>f \<in> set frontier. expandable_at G f" and "wf_name me"
  shows "runs (expandFrontier L I me as frontier) st
    (\<lambda>r st'. view st0 (pend G me (V \<union> set (concat (map (parentsAt G) frontier)))) w st' \<and>
      r = bfsRound G as frontier)"
  unfolding expandFrontier_def
proof (rule runs_foldM [where J = "\<lambda>vs r st'.
      view st0 (pend G me (V \<union> set (concat (map (parentsAt G) vs)))) w st' \<and> r = bfsRound G as vs"])
  fix vs f rest b t
  let ?V = "V \<union> set (concat (map (parentsAt G) vs))"
  assume fr: "frontier = vs @ f # rest" and J: "view st0 (pend G me ?V) w t \<and> b = bfsRound G as vs"
  then have ex: "expandable_at G f" and vw: "view st0 (pend G me ?V) w t"
    using assms(2) by simp_all
  obtain x where x: "pend G me ?V f = Some x"
    using pend_present [OF ex, of me ?V] by blast
  note wf = graph_node_wf [OF vw x]
  show "runs (bindM (getOrConstruct L I f) (\<lambda>fs. foldM (visitNext L I me) b (pointers (erecord fs)))) t
      (\<lambda>r st'. view st0 (pend G me (V \<union> set (concat (map (parentsAt G) (vs @ [f]))))) w st' \<and>
        r = bfsRound G as (vs @ [f]))"
  proof (rule runs_bindI [OF getOrConstruct_view [OF vw wf(2)]], goal_cases)
    case 1
    then show ?case using wf(1) by (simp add: node_wf_def)
  next
    case (2 s st')
    then have s: "view st0 (pend G me ?V) w st'" "nodeOf s = nodeAt (pend G me ?V) f" using x by auto
    then have ptrs: "pointers (erecord s) = pointers (nrec (nodeAt G f))"
      using arg_cong [OF s(2), of nrec] pend_present [OF ex, of me ?V]
      by (metis nodeOf_simps(3))
    have "list_all wf_name (pointers (erecord s))"
      using wf(1) arg_cong [OF s(2), of nrec] x by (metis nodeAt_simps(3) node_wf_def nodeOf_simps(3))
    from nexts_view [OF s(1) this assms(3), of "fst b" "snd b"] J show ?case
      by (auto simp: ptrs bfsRound_def Let_def parentsAt_def parents_def Un_assoc elim!: runs_mono)
  qed
qed (use assms(1) in \<open>simp add: bfsRound_def\<close>)

lemma pend_search: "search_inv G ps as fr \<Longrightarrow> bfsRound G as fr = (as', fr') \<Longrightarrow>
  pend G me (set as \<union> set (concat (map (parentsAt G) fr))) = pend G me (set as')"
proof (rule pend_cong)
  fix n assume "bfsRound G as fr = (as', fr')" and "pending_at G n"
  then show "n \<in> set as \<union> set (concat (map (parentsAt G) fr)) \<longleftrightarrow> n \<in> set as'"
    using addSeen_fold [of G as "concat (map (parentsAt G) fr)"]
    by (auto simp: bfsRound_def Let_def pending_at_def open_at_def)
qed

lemma ancestorsLoop_view:
  assumes "search_inv G ps as fr" and "small G ps" and "view st0 (pend G me (set as)) w st" and "wf_name me"
    and "p < word_of_nat (length as) \<or> p = word_of_nat (length as) \<and> {a. ancestor G ps a} = set as"
  shows "runs (ancestorsLoop L I me p (word_of_nat (length as)) as fr) st
    (\<lambda>r st'. view st0 (pend G me {a. ancestor G ps a}) w st' \<and> set r = {a. ancestor G ps a})"
  using assms
proof (induction "2 ^ 32 - unat p" arbitrary: p as fr st rule: less_induct)
  case less
  note len = search_inv_length [OF less.prems(1,2)]
  show ?case
  proof (cases "p < word_of_nat (length as)")
    case False
    with less.prems show ?thesis
      by (subst ancestorsLoop.simps) (auto simp: runs_rules)
  next
    case True
    obtain as' fr' where round: "bfsRound G as fr = (as', fr')" by force
    note inv' = search_inv_round [OF less.prems(1) round]
    obtain new where new: "as' = as @ new" using inv'(2) by blast
    have len': "length as' < 2 ^ 32" by (rule search_inv_length [OF inv'(1) less.prems(2)])
    have next_guard: "word_of_nat (length as) < (word_of_nat (length as') :: 32 word) \<or>
        word_of_nat (length as) = (word_of_nat (length as') :: 32 word) \<and> {a. ancestor G ps a} = set as'"
    proof (cases "new = []")
      case True
      then show ?thesis using inv'(3) new by simp
    next
      case False
      then have "length as < length as'" using new by simp
      then show ?thesis using len' by (blast intro: word_of_nat_strict)
    qed
    have dec: "2 ^ 32 - unat (word_of_nat (length as) :: 32 word) < 2 ^ 32 - unat p"
      using word_gap_less [OF True] by simp
    have "\<forall>f \<in> set fr. expandable_at G f" using less.prems(1) by (simp add: search_inv_def)
    from expandFrontier_view [OF less.prems(3) this less.prems(4), of as] True show ?thesis
      unfolding round pend_search [OF less.prems(1) round]
      by (subst ancestorsLoop.simps)
         (auto intro!: runs_bindI less.hyps [OF dec inv'(1) less.prems(2) _ less.prems(4) next_guard])
  qed
qed

theorem getAncestors_view:
  assumes "view st0 G w st" and "wf_state s" and "small G (parents (erecord s))"
  shows "runs (getAncestors L I s) st (\<lambda>r st'.
    view st0 (pend G (stateName s) {a. ancestor G (parents (erecord s)) a}) w st' \<and>
    set r = {a. ancestor G (parents (erecord s)) a})"
proof -
  let ?ps = "parents (erecord s)"
  let ?as = "filter (open_at G) ?ps" and ?fr = "filter (expandable_at G) ?ps"
  note inv = search_inv_start [of G ?ps]
  have "pend G (stateName s) (set ?ps) = pend G (stateName s) (set ?as)"
    by (rule pend_cong) (auto simp: pending_at_def open_at_def)
  moreover have "runs (foldM (visitDirect L I (stateName s)) ([], []) (pointers (erecord s))) st
      (\<lambda>r st'. view st0 (pend G (stateName s) (set ?ps)) w st' \<and> r = (?as, ?fr))"
    using directs_view [OF assms(1), of "pointers (erecord s)" "stateName s"] assms(2)
    by (simp add: wf_state_def parents_def)
  moreover have "0 < (word_of_nat (length ?as) :: 32 word) \<or>
      0 = (word_of_nat (length ?as) :: 32 word) \<and> {a. ancestor G ?ps a} = set ?as"
    using search_inv_length [OF inv assms(3)] search_inv_empty [of G ?ps ?fr] inv
    by (cases "?as = []") (auto simp: word_less_nat_alt unat_word_of_nat)
  ultimately show ?thesis
    unfolding getAncestors_def
    using ancestorsLoop_view [OF inv assms(3) _ _ , of st0 "stateName s" w _ 0] assms(2)
    by (auto simp: wf_state_def runs_rules elim!: runs_mono)
qed

end

end
