(* ===== verification/Dag_Waitlist.thy ===== *)
theory Dag_Waitlist
  imports Dag_Refine
begin

text \<open>
  The waitlist against the graph, and the refinement of the module's public operations. Every
  accepted record that is not interlocked is filed under the value the policy gives it
  (\<open>waitlist_good\<close>); interlocked records are filed only where a harvest without removal kept them.
\<close>

section \<open>Where a name is filed\<close>

definition filed :: "waitlist \<Rightarrow> name \<Rightarrow> 32 word \<Rightarrow> bool" where
  "filed w n k \<longleftrightarrow> (\<exists>names. map_of w k = Some names \<and> n \<in> set names)"

definition waitlist_wf :: "waitlist \<Rightarrow> bool" where
  "waitlist_wf w \<longleftrightarrow> map_wf w \<and> (\<forall>(k, names) \<in> set w. set_wf names)"

definition fileAt :: "32 word \<Rightarrow> name \<Rightarrow> waitlist \<Rightarrow> waitlist" where
  "fileAt k n w = map_at k [] (insort_insert n) (waitlist_erase n w)"

definition polv :: "(edge_state \<Rightarrow> 32 word) \<Rightarrow> node \<Rightarrow> 32 word" where
  "polv P x = P \<lparr>stateName = [], erecord = newRecord, descendants = ndesc x, status = LOADED,
     created = 0, interlocked = 0\<rparr>"

context interlock_policy
begin

lemma polv_nodeOf: "P s = polv P (nodeOf s)"
  unfolding polv_def by (rule policy_descendants) simp

end

lemma waitlist_wf_bucket: "waitlist_wf w \<Longrightarrow> map_of w k = Some names \<Longrightarrow> set_wf names"
  by (auto simp: waitlist_wf_def dest!: map_of_SomeD)

lemma waitlist_wfI:
  "map_wf w \<Longrightarrow> (\<And>k names. map_of w k = Some names \<Longrightarrow> set_wf names) \<Longrightarrow> waitlist_wf w"
  by (auto simp: waitlist_wf_def map_wf_def map_of_eq_Some_iff)

lemma waitlist_wf_Nil [simp]: "waitlist_wf []" "\<not> filed [] n k"
  by (simp_all add: waitlist_wf_def filed_def)

lemma map_of_waitlist_erase:
  "map_of (waitlist_erase n w) k = map_option (filter (\<lambda>m. m \<noteq> n)) (map_of w k)"
  unfolding waitlist_erase_def using map_of_map_snd [of "\<lambda>_. filter (\<lambda>m. m \<noteq> n)" w k] by simp

lemma map_wf_waitlist_erase [simp]: "map_wf (waitlist_erase n w) = map_wf w"
  unfolding waitlist_erase_def using map_wf_map_snd [of "\<lambda>_. filter (\<lambda>m. m \<noteq> n)" w] by simp

lemma map_of_fileAt: "map_wf w \<Longrightarrow> map_of (fileAt k n w) =
  (map_of (waitlist_erase n w))(k \<mapsto> insort_insert n
     (case map_of w k of None \<Rightarrow> [] | Some names \<Rightarrow> filter (\<lambda>m. m \<noteq> n) names))"
  by (simp add: fileAt_def map_of_waitlist_erase split: option.split)

lemma waitlist_wf_fileAt: "waitlist_wf w \<Longrightarrow> waitlist_wf (fileAt k n w)"
proof (rule waitlist_wfI)
  assume w: "waitlist_wf w"
  then have m: "map_wf w" by (simp add: waitlist_wf_def)
  then show "map_wf (fileAt k n w)" by (simp add: fileAt_def)
  show "set_wf names" if "map_of (fileAt k n w) j = Some names" for j names
    using that waitlist_wf_bucket [OF w]
    by (auto simp: map_of_fileAt [OF m] map_of_waitlist_erase split: if_splits option.splits)
qed

lemma filed_fileAt: "map_wf w \<Longrightarrow> filed (fileAt k n w) m j \<longleftrightarrow> (if m = n then j = k else filed w m j)"
  by (cases "map_of w k") (auto simp: filed_def map_of_fileAt map_of_waitlist_erase)

section \<open>The waitlist of a graph\<close>

definition waitlist_good :: "(edge_state \<Rightarrow> 32 word) \<Rightarrow> graph \<Rightarrow> waitlist \<Rightarrow> bool" where
  "waitlist_good P G w \<longleftrightarrow> waitlist_wf w
     \<and> (\<forall>n k. filed w n k \<longrightarrow> G n \<noteq> None \<and> k = polv P (nodeAt G n))
     \<and> (\<forall>n. nstatus (nodeAt G n) = LOADED \<longrightarrow> filed w n (polv P (nodeAt G n)))"

text \<open>No interlocked record is filed (as long as every harvest removes what it returns).\<close>

definition waitlist_open :: "graph \<Rightarrow> waitlist \<Rightarrow> bool" where
  "waitlist_open G w \<longleftrightarrow> (\<forall>n k. filed w n k \<longrightarrow> open_at G n)"

text \<open>The interlocked records that are still filed, since a harvest that does not remove returned them.\<close>

definition keptNames :: "graph \<Rightarrow> waitlist \<Rightarrow> name set" where
  "keptNames G w = {n. \<not> open_at G n \<and> (\<exists>k. filed w n k)}"

lemma waitlist_open_iff: "waitlist_open G w \<longleftrightarrow> keptNames G w = {}"
  by (auto simp: waitlist_open_def keptNames_def)

lemma waitlist_good_empty: "waitlist_good P Map.empty []" "waitlist_open Map.empty []"
  by (simp_all add: waitlist_good_def waitlist_open_def nodeAt_def emptyNode_def)

text \<open>\<open>refiled\<close>: the names of \<open>A\<close> have been filed anew, with the values they have in \<open>G\<close>.\<close>

definition refiled :: "(edge_state \<Rightarrow> 32 word) \<Rightarrow> graph \<Rightarrow> name set \<Rightarrow> waitlist \<Rightarrow> waitlist \<Rightarrow> bool" where
  "refiled P G A w w' \<longleftrightarrow> waitlist_wf w'
     \<and> (\<forall>n k. filed w' n k \<longleftrightarrow> (if n \<in> A then k = polv P (nodeAt G n) else filed w n k))"

lemma refiled_empty: "waitlist_wf w \<Longrightarrow> refiled P G {} w w"
  by (simp add: refiled_def)

lemma refiled_insert:
  "refiled P G A w w' \<Longrightarrow> k = polv P (nodeAt G n) \<Longrightarrow> refiled P G (insert n A) w (fileAt k n w')"
proof -
  assume r: "refiled P G A w w'" and k: "k = polv P (nodeAt G n)"
  then have "map_wf w'" by (simp add: refiled_def waitlist_wf_def)
  with r k show ?thesis by (auto simp: refiled_def waitlist_wf_fileAt filed_fileAt)
qed

lemma waitlist_good_cite:
  assumes "waitlist_good P G w" and "refiled P (cite G x A) A w w'" and "A \<subseteq> {a. open_at G a}"
  shows "waitlist_good P (cite G x A) w'" and "keptNames (cite G x A) w' = keptNames G w"
proof -
  show "waitlist_good P (cite G x A) w'"
  proof -
    have "cite G x A n \<noteq> None \<longleftrightarrow> n \<in> A \<or> G n \<noteq> None" for n by (simp add: cite_def)
    then show ?thesis
      using assms(1,2) by (auto simp: waitlist_good_def refiled_def nodeAt_cite simp del: not_None_eq)
  qed
  show "keptNames (cite G x A) w' = keptNames G w"
    using assms(2,3) by (auto simp: keptNames_def refiled_def same_shape_simps [OF same_shape_cite])
qed

lemma waitlist_good_load:
  assumes "waitlist_good P G w" and "n = toStateName (recName r)" and "k = polv P (nodeAt G n)"
  shows "waitlist_good P (loadNode G r) (fileAt k n w)"
    and "open_at G n \<Longrightarrow> keptNames (loadNode G r) (fileAt k n w) = keptNames G w"
proof -
  have wf: "map_wf w" "waitlist_wf w" using assms(1) by (simp_all add: waitlist_good_def waitlist_wf_def)
  have pol: "polv P (nodeAt (loadNode G r) m) = polv P (nodeAt G m)" for m
    by (simp add: polv_def)
  have dom: "loadNode G r m \<noteq> None \<longleftrightarrow> G m \<noteq> None \<or> m = n" for m
    by (simp add: loadNode_def Let_def assms(2))
  have st: "nstatus (nodeAt (loadNode G r) m) = (if m = n then LOADED else nstatus (nodeAt G m))" for m
    using load_at [where n = m and r = r] by (simp add: assms(2))
  show "waitlist_good P (loadNode G r) (fileAt k n w)"
    using assms(1) by (auto simp: waitlist_good_def waitlist_wf_fileAt filed_fileAt wf pol dom st assms(3)
        simp del: not_None_eq)
  show "open_at G n \<Longrightarrow> keptNames (loadNode G r) (fileAt k n w) = keptNames G w"
    by (auto simp: keptNames_def filed_fileAt wf open_at_def st)
qed

section \<open>Citing the ancestors of a record\<close>

text \<open>What every operation preserves, with the graph it produces; \<open>dag_good\<close> collects the facts about
  graph and waitlist where every harvest removes, \<open>dag_good_in K\<close> those in general, with the interlocked
  names \<open>K\<close> still filed.\<close>

definition dag_good :: "(edge_state \<Rightarrow> 32 word) \<Rightarrow> graph \<Rightarrow> waitlist \<Rightarrow> bool" where
  "dag_good P G w \<longleftrightarrow> waitlist_good P G w \<and> waitlist_open G w"

definition dag_good_in :: "name set \<Rightarrow> (edge_state \<Rightarrow> 32 word) \<Rightarrow> graph \<Rightarrow> waitlist \<Rightarrow> bool" where
  "dag_good_in K P G w \<longleftrightarrow> waitlist_good P G w \<and> keptNames G w = K"

lemma dag_good_in: "dag_good P G w = dag_good_in {} P G w"
  by (simp add: dag_good_def dag_good_in_def waitlist_open_iff)

lemma dag_good_cite: "dag_good_in K P G w \<Longrightarrow> refiled P (cite G x A) A w w' \<Longrightarrow> A \<subseteq> {a. open_at G a} \<Longrightarrow>
  dag_good_in K P (cite G x A) w'"
  using waitlist_good_cite [of P G w x A w'] by (simp add: dag_good_in_def)

lemma dag_good_load: "dag_good_in K P G w \<Longrightarrow> n = toStateName (recName r) \<Longrightarrow> k = polv P (nodeAt G n) \<Longrightarrow>
  open_at G n \<Longrightarrow> dag_good_in K P (loadNode G r) (fileAt k n w)"
  using waitlist_good_load [of P G w n r k] by (simp add: dag_good_in_def)

text \<open>A module over a store, with a policy.\<close>

locale dag_module = dag_store L I C ok + interlock_policy P
  for L :: ndn and I :: "'s storage_intf" and C :: "'s \<Rightarrow> name \<Rightarrow> block option" and ok :: "'s \<Rightarrow> bool"
  and P :: "edge_state \<Rightarrow> 32 word"
begin

lemma evaluateWaitlist_view:
  assumes "view st0 G w st"
  shows "runs (evaluateWaitlist P s) st (\<lambda>_. view st0 G
    (if status s = INTERLOCKED then w else fileAt (P s) (stateName s) w))"
  using assms by (simp add: evaluateWaitlist_def runs_rules fileAt_def dag_view_def)

lemma ancestor_wf: "view st0 G w st \<Longrightarrow> list_all wf_name (pointers r) \<Longrightarrow> ancestor G (parents r) a \<Longrightarrow>
  is_state_name a \<and> wf_name a"
  by (erule ancestor.cases) (auto simp: parents_def list_all_iff dest: parentsAt_wf)

text \<open>One step of the loop of \<open>evaluateAncestors\<close>.\<close>

lemma citeOne_view:
  assumes "view st0 H w st" and "is_state_name a" and "wf_name a" and "wf_name me" and "open_at H a"
  shows "runs (bindM (getOrConstruct L I a) (\<lambda>aState. let aState' = addDescendant me aState in
      bindM (update L I aState') (\<lambda>_. evaluateWaitlist P aState'))) st
    (\<lambda>_. view st0 (cite H me {a}) (fileAt (polv P (nodeCite me (nodeAt H a))) a w))"
proof (rule runs_bindI [OF getOrConstruct_view [OF assms(1-3)]], elim conjE)
  fix s st'
  assume s: "view st0 (touch H a) w st'" "stateName s = a" "wf_state s" "nodeOf s = nodeAt H a"
  let ?s = "addDescendant me s"
  have eq: "(touch H a)(stateName ?s \<mapsto> nodeOf ?s) = cite H me {a}"
    using s by (simp add: touch_def nodeOf_cite cite_single)
  have "runs (update L I ?s) st' (\<lambda>_. view st0 (cite H me {a}) w)"
    unfolding eq [symmetric]
    by (rule update_view [OF s(1)]) (use s assms(4) in \<open>simp_all add: touch_def addDescendant_wf\<close>)
  moreover have "status ?s \<noteq> INTERLOCKED"
    using assms(5) arg_cong [OF s(4), of nstatus] by (simp add: open_at_def)
  moreover have "P ?s = polv P (nodeCite me (nodeAt H a))"
    using polv_nodeOf [of ?s] s by (simp add: nodeOf_cite)
  ultimately show "runs (let aState' = ?s in bindM (update L I aState') (\<lambda>_. evaluateWaitlist P aState')) st'
      (\<lambda>_. view st0 (cite H me {a}) (fileAt (polv P (nodeCite me (nodeAt H a))) a w))"
    using evaluateWaitlist_view [of st0 "cite H me {a}" w _ ?s] s(2)
    by (auto simp: Let_def runs_bind elim!: runs_mono)
qed

theorem evaluateAncestors_view:
  assumes "view st0 G w st" and "wf_state s" and "small G (parents (erecord s))" and "waitlist_wf w"
  shows "runs (evaluateAncestors L I P s) st (\<lambda>_ st'. \<exists>w'.
    view st0 (cite G (stateName s) {a. ancestor G (parents (erecord s)) a}) w' st' \<and>
    refiled P (cite G (stateName s) {a. ancestor G (parents (erecord s)) a})
      {a. ancestor G (parents (erecord s)) a} w w')"
proof -
  define A where "A = {a. ancestor G (parents (erecord s)) a}"
  define me where "me = stateName s"
  have wf: "is_state_name a" "wf_name a" "open_at G a" if "a \<in> A" for a
    using that ancestor_wf [OF assms(1)] assms(2)
    by (auto simp: A_def wf_state_def intro: ancestor_open)
  have me: "wf_name me" using assms(2) by (simp add: wf_state_def me_def)
  have loop: "runs (forM (\<lambda>a. bindM (getOrConstruct L I a) (\<lambda>aState. let aState' = addDescendant me aState in
      bindM (update L I aState') (\<lambda>_. evaluateWaitlist P aState'))) as) t
      (\<lambda>_ st'. \<exists>w'. view st0 (cite (pend G me A) me (set as)) w' st' \<and> refiled P (cite G me A) (set as) w w')"
    if t: "view st0 (pend G me A) w t" and as: "set as = A" for as t
  proof (rule runs_forM [where J = "\<lambda>vs st'. \<exists>w'. view st0 (cite (pend G me A) me (set vs)) w' st' \<and>
      refiled P (cite G me A) (set vs) w w'"])
    show "\<exists>w'. view st0 (cite (pend G me A) me (set [])) w' t \<and> refiled P (cite G me A) (set []) w w'"
      using t assms(4) by (auto intro: refiled_empty)
    fix vs a rest u
    assume split: "as = vs @ a # rest"
      and "\<exists>w'. view st0 (cite (pend G me A) me (set vs)) w' u \<and> refiled P (cite G me A) (set vs) w w'"
    then obtain w1 where w1: "view st0 (cite (pend G me A) me (set vs)) w1 u"
      "refiled P (cite G me A) (set vs) w w1" by blast
    let ?H = "cite (pend G me A) me (set vs)"
    have a: "a \<in> A" using split as by auto
    have shape: "same_shape G ?H"
      by (rule same_shape_trans [OF same_shape_pend same_shape_cite])
    have "open_at ?H a" using wf(3) [OF a] by (simp add: same_shape_simps [OF shape])
    moreover have "polv P (nodeCite me (nodeAt ?H a)) = polv P (nodeAt (cite G me A) a)"
      using a by (simp add: nodeAt_cite pend_def)
    ultimately show "runs (bindM (getOrConstruct L I a) (\<lambda>aState. let aState' = addDescendant me aState in
        bindM (update L I aState') (\<lambda>_. evaluateWaitlist P aState'))) u
        (\<lambda>_ st'. \<exists>w'. view st0 (cite (pend G me A) me (set (vs @ [a]))) w' st' \<and>
          refiled P (cite G me A) (set (vs @ [a])) w w')"
      using citeOne_view [OF w1(1) wf(1,2) [OF a] me] refiled_insert [OF w1(2)]
      by (force simp: Un_commute elim!: runs_mono)
  qed
  have "runs (getAncestors L I s) st (\<lambda>r st'. view st0 (pend G me A) w st' \<and> set r = A)"
    using getAncestors_view [OF assms(1-3)] by (simp add: A_def me_def)
  then have "runs (evaluateAncestors L I P s) st
      (\<lambda>_ st'. \<exists>w'. view st0 (cite G me A) w' st' \<and> refiled P (cite G me A) A w w')"
    unfolding evaluateAncestors_def me_def [symmetric]
    by (rule runs_bindI) (use loop in \<open>force simp: cite_pend elim!: runs_mono\<close>)
  then show ?thesis by (simp add: A_def me_def)
qed

end

end
