(* ===== verification/Dag_Operations.thy ===== *)
theory Dag_Operations
  imports Dag_Waitlist
begin

text \<open>
  The public operations of the module against the graph: \<open>add\<close>, \<open>harvestAbove\<close>, \<open>harvestBelow\<close>,
  \<open>getWaitList\<close>. Each returns normally, has the abstract effect and keeps the waitlist
  consistent with the graph, so every sequence of them does (\<open>Dag_Session\<close>). A harvest may remove what it
  returns from the waitlist or keep it there.
\<close>

section \<open>add\<close>

text \<open>The pointers that are stored after \<open>r\<close> has been accepted still fit the counter of the search.\<close>

definition room :: "graph \<Rightarrow> bool" where
  "room G \<longleftrightarrow> finite (dom G) \<and> pointer_count G < 2 ^ 30"

lemma room_small: "room G \<Longrightarrow> small G (parentsAt G x)"
  by (simp add: room_def small_parentsAt)

lemma small_shape: "same_shape G H \<Longrightarrow> small H = small G"
  by (simp add: small_def same_shape_ancestor fun_eq_iff)

lemma touch_load: "loadNode (touch G n) r = (touch G n)(toStateName (recName r) \<mapsto>
  (nodeAt G (toStateName (recName r)))\<lparr>nstatus := LOADED, nrec := r\<rparr>)"
  by (simp add: loadNode_def Let_def)

lemma loadNode_touch: "n = toStateName (recName r) \<Longrightarrow> loadNode (touch G n) r = loadNode G r"
  by (simp add: loadNode_def Let_def touch_def nodeAt_def)

lemma resolve_append: "resolve G (xs @ [x]) = citeAncestors (resolve G xs) x"
  by (simp add: resolve_def)

lemma touch_stored: "touch G n m \<noteq> None \<longleftrightarrow> m = n \<or> G m \<noteq> None"
  by (simp add: touch_def)

lemma dag_good_touch: "dag_good_in K P G w \<Longrightarrow> dag_good_in K P (touch G n) w"
  by (auto simp: dag_good_in_def waitlist_good_def keptNames_def open_at_def touch_stored
      simp del: not_None_eq)

context dag_module
begin

text \<open>Letting a stored record cite its ancestors.\<close>

lemma citeState_view:
  assumes "view st0 H w st" and "wf_state s" and "nodeOf s = nodeAt H (stateName s)"
    and "small H (parentsAt H (stateName s))" and "dag_good_in K P H w"
  shows "runs (if \<not> isGenesis (erecord s) then evaluateAncestors L I P s else ret ()) st
    (\<lambda>_ st'. \<exists>w'. view st0 (citeAncestors H (stateName s)) w' st' \<and> dag_good_in K P (citeAncestors H (stateName s)) w')"
proof -
  have r: "isGenesis (erecord s) = isGenesis (nrec (nodeAt H (stateName s)))"
    "parents (erecord s) = parentsAt H (stateName s)"
    using nodeOf_simps(3,4) [of s] by (simp_all only: assms(3) parentsAt_def parents_def)
  have wl: "waitlist_wf w" using assms(5) by (simp add: dag_good_in_def waitlist_good_def)
  show ?thesis
  proof (cases "isGenesis (erecord s)")
    case True
    then show ?thesis using assms(1,5) r(1) by (auto simp: runs_rules citeAncestors_def)
  next
    case False
    let ?A = "{a. ancestor H (parentsAt H (stateName s)) a}"
    have "?A \<subseteq> {a. open_at H a}" by (auto intro: ancestor_open)
    with False show ?thesis
      using evaluateAncestors_view [OF assms(1,2)] assms(4) wl r dag_good_cite [OF assms(5)]
      by (simp add: citeAncestors_def) (fastforce elim!: runs_mono)
  qed
qed

lemma resolveAll_view:
  assumes "view st0 (resolve H xs) w st" and "dag_good_in K P (resolve H xs) w"
    and "\<forall>d \<in> set ds. H d \<noteq> None" and "\<forall>x. small H (parentsAt H x)"
  shows "runs (forM (\<lambda>desc. bindM (getOrConstruct L I desc) (\<lambda>descState.
      if \<not> isGenesis (erecord descState) then evaluateAncestors L I P descState else ret ())) ds) st
    (\<lambda>_ st'. \<exists>w'. view st0 (resolve H (xs @ ds)) w' st' \<and> dag_good_in K P (resolve H (xs @ ds)) w')"
proof (rule runs_forM [where J = "\<lambda>vs st'. \<exists>w'. view st0 (resolve H (xs @ vs)) w' st' \<and>
    dag_good_in K P (resolve H (xs @ vs)) w'"])
  fix vs d rest t
  assume split: "ds = vs @ d # rest"
    and "\<exists>w'. view st0 (resolve H (xs @ vs)) w' t \<and> dag_good_in K P (resolve H (xs @ vs)) w'"
  then obtain w1 where w1: "view st0 (resolve H (xs @ vs)) w1 t" "dag_good_in K P (resolve H (xs @ vs)) w1"
    by blast
  have present: "resolve H ys d \<noteq> None" for ys
    using assms(3) split unfolding resolve_def
    by (induction ys rule: rev_induct) (auto simp: citeAncestors_def cite_def)
  then obtain x where x: "resolve H (xs @ vs) d = Some x" by blast
  note wf = graph_node_wf [OF w1(1) x]
  have wfd: "wf_name d" using wf(1) by (simp add: node_wf_def)
  have shape: "same_shape H (resolve H (xs @ vs))" by (rule same_shape_resolve)
  have "small (resolve H (xs @ vs)) (parentsAt (resolve H (xs @ vs)) d)"
    using assms(4) by (simp add: small_shape [OF shape] same_shape_simps [OF shape])
  then have c: "runs (if \<not> isGenesis (erecord s) then evaluateAncestors L I P s else ret ()) t'
      (\<lambda>_ st'. \<exists>w'. view st0 (resolve H (xs @ vs @ [d])) w' st' \<and> dag_good_in K P (resolve H (xs @ vs @ [d])) w')"
    if "view st0 (touch (resolve H (xs @ vs)) d) w1 t'" "stateName s = d" "wf_state s"
      "nodeOf s = nodeAt (resolve H (xs @ vs)) d" for s t'
    using citeState_view [of st0 "resolve H (xs @ vs)" w1 t' s] that present w1(2)
      resolve_append [of H "xs @ vs" d] by simp
  show "runs (bindM (getOrConstruct L I d) (\<lambda>descState.
      if \<not> isGenesis (erecord descState) then evaluateAncestors L I P descState else ret ())) t
    (\<lambda>_ st'. \<exists>w'. view st0 (resolve H (xs @ vs @ [d])) w' st' \<and> dag_good_in K P (resolve H (xs @ vs @ [d])) w')"
    by (rule runs_bindI [OF getOrConstruct_view [OF w1(1) wf(2) wfd]]) (elim conjE, rule c)
qed (use assms(1,2) in auto)

lemma onNewRecord_view:
  assumes "view st0 G w st" and "dag_good_in K P G w" and "wf_state s" and "nodeOf s = (nodeAt G n)\<lparr>nrec := r\<rparr>"
    and "stateName s = n" and "erecord s = r" and n: "n = toStateName (recName r)" and "G n \<noteq> None"
    and "open_at G n"
    and "\<forall>d \<in> set (ndesc (nodeAt G n)). G d \<noteq> None" and "room (loadNode G r)"
  shows "runs (onNewRecord L I P s) st (\<lambda>_ st'. \<exists>w'.
    view st0 (resolve (loadNode G r) (n # ndesc (nodeAt G n))) w' st' \<and>
    dag_good_in K P (resolve (loadNode G r) (n # ndesc (nodeAt G n))) w')"
proof -
  let ?s = "s\<lparr>status := LOADED\<rparr>"
  let ?H = "loadNode G r" and ?k = "polv P (nodeAt G n)"
  have desc: "descendants s = ndesc (nodeAt G n)"
    using arg_cong [OF assms(4), of ndesc] by simp
  have wf: "wf_state ?s" using assms(3) by (simp add: wf_state_def)
  have node: "nodeOf ?s = nodeAt ?H n"
  proof -
    have "nodeOf ?s = (nodeOf s)\<lparr>nstatus := LOADED\<rparr>" by (simp add: nodeOf_def)
    then show ?thesis using assms(4) n by (simp add: load_at)
  qed
  have H: "G(stateName ?s \<mapsto> nodeOf ?s) = ?H"
    unfolding node using assms(5) n by (simp add: loadNode_def Let_def)
  have policy: "P ?s = ?k"
    using polv_nodeOf [of ?s] by (simp add: node polv_def)
  have upd: "runs (update L I ?s) st (\<lambda>_. view st0 ?H w)"
    using update_view [OF assms(1), of ?s] wf assms(5,8) H by simp
  have good: "dag_good_in K P ?H (fileAt ?k n w)"
    using assms(2) n \<open>open_at G n\<close> by (intro dag_good_load) simp_all
  have small: "\<forall>x. small ?H (parentsAt ?H x)"
    using assms(11) by (simp add: room_small)
  have cited: "resolve ?H [n] = citeAncestors ?H n" by (simp add: resolve_def)
  have present: "\<forall>d \<in> set (descendants s). ?H d \<noteq> None"
    using assms(10) desc by (auto simp: loadNode_def Let_def)
  show ?thesis
    unfolding onNewRecord_def Let_def
  proof (rule runs_bindI [OF upd], rule runs_bindI [OF evaluateWaitlist_view], assumption)
    fix t assume "view st0 ?H (if status ?s = INTERLOCKED then w else fileAt (P ?s) (stateName ?s) w) t"
    then have t: "view st0 ?H (fileAt ?k n w) t" by (simp only: policy assms(5)) (simp add: assms(5))
    have c: "runs (if \<not> isGenesis (erecord ?s) then evaluateAncestors L I P ?s else ret ()) t
      (\<lambda>_ st'. \<exists>w'. view st0 (resolve ?H [n]) w' st' \<and> dag_good_in K P (resolve ?H [n]) w')"
      using citeState_view [OF t wf, OF _ _ good] small assms(5) node unfolding cited by simp
    show "runs (bindM (if \<not> isGenesis (erecord ?s) then evaluateAncestors L I P ?s else ret ()) (\<lambda>_.
        forM (\<lambda>desc. bindM (getOrConstruct L I desc) (\<lambda>descState.
          if \<not> isGenesis (erecord descState) then evaluateAncestors L I P descState else ret ()))
        (descendants ?s))) t
      (\<lambda>_ st'. \<exists>w'. view st0 (resolve ?H (n # ndesc (nodeAt G n))) w' st' \<and>
        dag_good_in K P (resolve ?H (n # ndesc (nodeAt G n))) w')"
      using resolveAll_view [of st0 ?H "[n]"] present small
      by (intro runs_bindI [OF c]) (auto simp: desc)
  qed
qed

theorem add_view:
  assumes "view st0 G w st" and "graph_good G" and "dag_good_in K P G w" and "wf_record r"
    and "pending_at G (toStateName (recName r)) \<Longrightarrow> room (loadNode G r)"
  shows "runs (add L I P r) st (\<lambda>n st'. n = toStateName (recName r) \<and>
    (\<exists>w'. view st0 (graphAdd G r) w' st' \<and> dag_good_in K P (graphAdd G r) w'))"
proof -
  let ?n = "toStateName (recName r)"
  have wfn: "is_state_name ?n" "wf_name ?n" using assms(4) by (simp_all add: wf_record_def)
  show ?thesis
    unfolding add_def
  proof (rule runs_bindI [OF getOrConstruct_view [OF assms(1) wfn]], elim conjE)
    fix s t
    assume t: "view st0 (touch G ?n) w t" and s: "stateName s = ?n" "wf_state s" "nodeOf s = nodeAt G ?n"
    let ?s = "s\<lparr>erecord := r\<rparr>"
    have st: "status s = nstatus (nodeAt G ?n)" using arg_cong [OF s(3), of nstatus] by simp
    show "runs (let s = ?s in case status s of
         INITIALIZED \<Rightarrow> bindM (onNewRecord L I P s) (\<lambda>_. ret (stateName s))
       | LOADED \<Rightarrow> ret (stateName s) | INTERLOCKED \<Rightarrow> ret (stateName s) | Unnamed _ \<Rightarrow> ret (stateName s)) t
      (\<lambda>n st'. n = ?n \<and> (\<exists>w'. view st0 (graphAdd G r) w' st' \<and> dag_good_in K P (graphAdd G r) w'))"
    proof (cases "pending_at G ?n")
      case False
      then have "G ?n \<noteq> None"
        by (auto simp: pending_at_def nodeAt_def emptyNode_def split: option.splits)
      with False t assms(3) st s(1) show ?thesis
        by (auto simp: graphAdd_def Let_def pending_at_def runs_rules split: status.split)
    next
      case True
      have "nodeOf ?s = (nodeAt (touch G ?n) ?n)\<lparr>nrec := r\<rparr>"
        using s by (simp add: nodeOf_def setName_def flip: s(3))
      moreover have "wf_state ?s" using s(2) assms(4) by (simp add: wf_state_def wf_record_def)
      moreover have "G d \<noteq> None" if "d \<in> set (ndesc (nodeAt G ?n))" for d
        using that assms(2)
        by (auto simp: graph_good_def desc_sound_def citer_def pending_at_def nodeAt_def emptyNode_def
            split: option.splits)
      ultimately have "runs (onNewRecord L I P ?s) t (\<lambda>_ st'. \<exists>w'.
          view st0 (resolve (loadNode G r) (?n # ndesc (nodeAt G ?n))) w' st' \<and>
          dag_good_in K P (resolve (loadNode G r) (?n # ndesc (nodeAt G ?n))) w')"
        using onNewRecord_view [OF t dag_good_touch [OF assms(3)], where s = ?s and n = ?n and r = r] s(1) assms(5) [OF True]
          True by (simp add: loadNode_touch touch_stored open_at_def pending_at_def del: not_None_eq)
      with True st s(1) show ?thesis
        by (auto simp: graphAdd_def Let_def pending_at_def runs_rules elim!: runs_mono)
    qed
  qed
qed

end

section \<open>Harvesting\<close>

definition harvestNames :: "32 word \<Rightarrow> graph \<Rightarrow> waitlist \<Rightarrow> name list" where
  "harvestNames th G w = concat (map (\<lambda>(k, names).
     if k \<ge> th then filter (\<lambda>n. \<not> pending_at G n) names else []) w)"

definition afterHarvest :: "32 word \<Rightarrow> bool \<Rightarrow> graph \<Rightarrow> waitlist \<Rightarrow> waitlist" where
  "afterHarvest th remove G w = map (\<lambda>(k, names).
     (k, if k \<ge> th \<and> remove then filter (pending_at G) names else names)) w"

lemma harvest_append [simp]:
  "harvestNames th G (vs @ [(k, names)]) =
     harvestNames th G vs @ (if k \<ge> th then filter (\<lambda>n. \<not> pending_at G n) names else [])"
  "afterHarvest th remove G (vs @ [(k, names)]) =
     afterHarvest th remove G vs @ [(k, if k \<ge> th \<and> remove then filter (pending_at G) names else names)]"
  by (simp_all add: harvestNames_def afterHarvest_def)

lemma filed_afterHarvest: "filed (afterHarvest th remove G w) n k \<longleftrightarrow>
  filed w n k \<and> \<not> (k \<ge> th \<and> remove \<and> \<not> pending_at G n)"
  unfolding filed_def afterHarvest_def
    map_of_map_snd [of "\<lambda>k names. if k \<ge> th \<and> remove then filter (pending_at G) names else names"]
  by (cases "map_of w k") auto

lemma waitlist_wf_afterHarvest: "waitlist_wf w \<Longrightarrow> waitlist_wf (afterHarvest th remove G w)"
  unfolding waitlist_wf_def afterHarvest_def
    map_wf_map_snd [of "\<lambda>k names. if k \<ge> th \<and> remove then filter (pending_at G) names else names"]
  by auto

lemma set_harvestNames:
  "waitlist_wf w \<Longrightarrow> set (harvestNames th G w) = {n. \<exists>k. filed w n k \<and> k \<ge> th \<and> \<not> pending_at G n}"
proof -
  assume "waitlist_wf w"
  then have "map_of w k = Some names \<longleftrightarrow> (k, names) \<in> set w" for k names
    by (simp add: waitlist_wf_def map_wf_def)
  then show ?thesis by (force simp: harvestNames_def filed_def)
qed

lemma distinct_harvestNames:
  assumes "waitlist_wf w" and "\<And>n j k. filed w n j \<Longrightarrow> filed w n k \<Longrightarrow> j = k"
  shows "distinct (harvestNames th G w)"
proof -
  from assms(1) have m: "distinct (map fst w)" by (simp add: waitlist_wf_def map_wf_def)
  from m assms(2) have dj: "(j, a) \<in> set w \<Longrightarrow> (k, b) \<in> set w \<Longrightarrow> n \<in> set a \<Longrightarrow> n \<in> set b \<Longrightarrow> j = k" for j a k b n
    by (auto simp: filed_def)
  have "distinct (map fst v) \<Longrightarrow> set v \<subseteq> set w \<Longrightarrow> distinct (harvestNames th G v)" for v
  proof (induction v)
    case (Cons kn v)
    obtain k names where kn: "kn = (k, names)" by force
    have "distinct names" using assms(1) Cons.prems by (auto simp: waitlist_wf_def set_wf_def kn)
    moreover have "n \<notin> set (harvestNames th G v)" if "n \<in> set names" for n
    proof
      assume "n \<in> set (harvestNames th G v)"
      then obtain j b where "(j, b) \<in> set v" "n \<in> set b"
        by (auto simp: harvestNames_def split: if_splits)
      with dj [of k names j b n] that Cons.prems have "(k, b) \<in> set v" by (auto simp: kn)
      with Cons.prems show False by (force simp: kn image_iff)
    qed
    ultimately show ?case using Cons by (auto simp: harvestNames_def kn)
  qed (simp add: harvestNames_def)
  with m show ?thesis by simp
qed

lemma eraseFromBucket_middle:
  assumes "distinct (map fst (vs @ (k, names) # rest))"
  shows "eraseFromBucket k rm (vs @ (k, names) # rest) =
    vs @ (k, filter (\<lambda>m. m \<notin> set rm) names) # rest"
proof -
  have "map (\<lambda>(k', ns). (k', if k' = k then filter (\<lambda>m. m \<notin> set rm) ns else ns)) v = v"
    if "k \<notin> fst ` set v" for v
    using that by (induction v) auto
  with assms show ?thesis by (simp add: eraseFromBucket_def)
qed

text \<open>Good graphs and waitlists stay good.\<close>

lemma dag_good_harvest:
  assumes "dag_good_in K P G w" and "N = set (harvestNames th G w)"
  shows "dag_good_in (if remove then K - N else K \<union> N) P (interlockAll G N) (afterHarvest th remove G w)"
proof -
  have wl: "waitlist_wf w" and filed: "\<And>n k. filed w n k \<Longrightarrow> G n \<noteq> None \<and> k = polv P (nodeAt G n)"
    and all: "\<And>n. nstatus (nodeAt G n) = LOADED \<Longrightarrow> filed w n (polv P (nodeAt G n))"
    and K: "K = {n. \<not> open_at G n \<and> (\<exists>k. filed w n k)}"
    using assms(1) by (auto simp: dag_good_in_def waitlist_good_def keptNames_def)
  note N = set_harvestNames [OF wl, of th G, folded assms(2)]
  have pol: "polv P (nodeAt (interlockAll G N) n) = polv P (nodeAt G n)" for n
    by (simp add: nodeAt_interlockAll polv_def)
  have st: "nstatus (nodeAt (interlockAll G N) n) = (if n \<in> N then INTERLOCKED else nstatus (nodeAt G n))" for n
    by (simp add: nodeAt_interlockAll)
  have dom: "G n \<noteq> None \<Longrightarrow> interlockAll G N n \<noteq> None" for n by (simp add: interlockAll_def)
  have keep: "filed (afterHarvest th remove G w) n (polv P (nodeAt G n))"
    if "nstatus (nodeAt G n) = LOADED" "n \<notin> N" for n
    using all [OF that(1)] that(2) by (auto simp: filed_afterHarvest N)
  have good: "waitlist_good P (interlockAll G N) (afterHarvest th remove G w)"
    unfolding waitlist_good_def pol
  proof (intro conjI allI impI)
    fix n k
    show "filed (afterHarvest th remove G w) n k \<Longrightarrow> interlockAll G N n \<noteq> None"
      by (rule dom) (use filed filed_afterHarvest in blast)
    show "filed (afterHarvest th remove G w) n k \<Longrightarrow> k = polv P (nodeAt G n)"
      using filed by (simp add: filed_afterHarvest)
    show "nstatus (nodeAt (interlockAll G N) n) = LOADED \<Longrightarrow>
        filed (afterHarvest th remove G w) n (polv P (nodeAt G n))"
      by (rule keep) (auto simp: st split: if_splits)
  qed (rule waitlist_wf_afterHarvest [OF wl])
  have "keptNames (interlockAll G N) (afterHarvest th remove G w) = (if remove then K - N else K \<union> N)"
  proof (rule set_eqI)
    fix n
    have closed: "open_at (interlockAll G N) n \<longleftrightarrow> n \<notin> N \<and> open_at G n" by (simp add: open_at_def st)
    have acc: "\<not> open_at G n \<Longrightarrow> \<not> pending_at G n" by (simp add: open_at_def pending_at_def)
    have one: "n \<in> N \<longleftrightarrow> filed w n (polv P (nodeAt G n)) \<and> th \<le> polv P (nodeAt G n) \<and> \<not> pending_at G n"
      unfolding N using filed by blast
    have ex: "(\<exists>k. filed w n k \<and> Q k) \<longleftrightarrow> filed w n (polv P (nodeAt G n)) \<and> Q (polv P (nodeAt G n))" for Q
      using filed by blast
    have "n \<in> keptNames (interlockAll G N) (afterHarvest th remove G w) \<longleftrightarrow> (n \<in> N \<or> \<not> open_at G n)
        \<and> filed w n (polv P (nodeAt G n)) \<and> \<not> (th \<le> polv P (nodeAt G n) \<and> remove \<and> \<not> pending_at G n)"
      by (simp add: keptNames_def closed filed_afterHarvest ex)
    moreover have "n \<in> K \<longleftrightarrow> \<not> open_at G n \<and> filed w n (polv P (nodeAt G n))"
      unfolding K using filed by blast
    ultimately show "n \<in> keptNames (interlockAll G N) (afterHarvest th remove G w) \<longleftrightarrow>
        n \<in> (if remove then K - N else K \<union> N)"
      using acc one by auto
  qed
  with good show ?thesis by (simp add: dag_good_in_def)
qed

context dag_module
begin

text \<open>The inner loop over one bucket, then the loop over the buckets.\<close>

lemma harvestOne_view:
  assumes "view st0 (interlockAll G N) w st" and "G n \<noteq> None" and "\<forall>m \<in> N. \<not> pending_at G m"
  shows "runs (harvestOne L I remove (rs, rm) n) st (\<lambda>r st'.
    view st0 (interlockAll G (if pending_at G n then N else insert n N)) w st' \<and>
    r = (if pending_at G n then (rs, rm) else (rs @ [nrec (nodeAt G n)], if remove then rm @ [n] else rm)))"
proof -
  let ?G = "interlockAll G N"
  obtain x where x: "?G n = Some x"
    using assms(2) by (cases "n \<in> N") (auto simp: interlockAll_def)
  note wf = graph_node_wf [OF assms(1) x]
  have wfn: "wf_name n" using wf(1) by (simp add: node_wf_def)
  have st: "nstatus (nodeAt ?G n) = INITIALIZED \<longleftrightarrow> pending_at G n"
    using interlock_shape(1) [OF assms(3)] by (simp add: pending_at_def fun_eq_iff)
  show ?thesis
    unfolding harvestOne_def prod.case
  proof (rule runs_bindI [OF getOrConstruct_view [OF assms(1) wf(2) wfn]], elim conjE)
    fix s t
    assume s: "view st0 (touch ?G n) w t" "stateName s = n" "wf_state s" "nodeOf s = nodeAt ?G n"
      "?G n \<noteq> None \<longrightarrow> erecord s = nrec (nodeAt ?G n)"
    then have t: "view st0 ?G w t" and rec: "erecord s = nrec (nodeAt G n)"
      using x interlock_shape(6) [OF assms(3), of n] by auto
    have pend: "status s = INITIALIZED \<longleftrightarrow> pending_at G n"
      using st arg_cong [OF s(4), of nstatus] by simp
    have "nodeOf (s\<lparr>status := INTERLOCKED\<rparr>) = nodeInterlock (nodeAt ?G n)"
      unfolding s(4) [symmetric] by (simp add: nodeOf_def nodeInterlock_def)
    then have "runs (update L I (s\<lparr>status := INTERLOCKED\<rparr>)) t (\<lambda>_. view st0 (interlockAll G (insert n N)) w)"
      using update_view [OF t, of "s\<lparr>status := INTERLOCKED\<rparr>"] s(2,3) x interlockAll_step [of G N n]
      by (simp add: wf_state_def)
    then show "runs (if status s \<noteq> INITIALIZED then bindM (update L I (s\<lparr>status := INTERLOCKED\<rparr>)) (\<lambda>_.
        ret (rs @ [erecord s], if remove then rm @ [n] else rm)) else ret (rs, rm)) t
      (\<lambda>r st'. view st0 (interlockAll G (if pending_at G n then N else insert n N)) w st' \<and>
        r = (if pending_at G n then (rs, rm) else (rs @ [nrec (nodeAt G n)], if remove then rm @ [n] else rm)))"
      using t by (auto simp: runs_rules pend rec elim!: runs_mono)
  qed
qed

lemma harvestBucket_view:
  assumes "view st0 (interlockAll G N) w st" and "\<forall>n \<in> set names. G n \<noteq> None" and "\<forall>m \<in> N. \<not> pending_at G m"
  shows "runs (foldM (harvestOne L I remove) (rs, []) names) st (\<lambda>r st'.
    let new = filter (\<lambda>n. \<not> pending_at G n) names in
    view st0 (interlockAll G (N \<union> set new)) w st' \<and>
    r = (rs @ map (\<lambda>n. nrec (nodeAt G n)) new, if remove then new else []))"
proof -
  define J where "J = (\<lambda>vs (r :: ledger_record list \<times> name list) st'.
    let new = filter (\<lambda>n. \<not> pending_at G n) vs in
    view st0 (interlockAll G (N \<union> set new)) w st' \<and>
    r = (rs @ map (\<lambda>n. nrec (nodeAt G n)) new, if remove then new else []))"
  have "runs (foldM (harvestOne L I remove) (rs, []) names) st (J names)"
  proof (rule runs_foldM)
    show "J [] (rs, []) st" using assms(1) by (simp add: J_def)
    fix vs n rest b t
    assume split: "names = vs @ n # rest" and J: "J vs b t"
    let ?M = "N \<union> set (filter (\<lambda>n. \<not> pending_at G n) vs)"
    obtain rs' rm where b: "b = (rs', rm)" by force
    have vw: "view st0 (interlockAll G ?M) w t"
      and acc: "rs' = rs @ map (\<lambda>n. nrec (nodeAt G n)) (filter (\<lambda>n. \<not> pending_at G n) vs)"
        "rm = (if remove then filter (\<lambda>n. \<not> pending_at G n) vs else [])"
      using J by (simp_all add: J_def Let_def b)
    have "runs (harvestOne L I remove (rs', rm) n) t (\<lambda>r st'.
      view st0 (interlockAll G (if pending_at G n then ?M else insert n ?M)) w st' \<and>
      r = (if pending_at G n then (rs', rm)
           else (rs' @ [nrec (nodeAt G n)], if remove then rm @ [n] else rm)))"
      by (rule harvestOne_view [OF vw]) (use assms(2,3) split in auto)
    then show "runs (harvestOne L I remove b n) t (J (vs @ [n]))"
      unfolding b
      by (rule runs_mono) (cases "pending_at G n", simp_all add: J_def acc Let_def del: set_filter)
  qed
  then show ?thesis by (simp only: J_def)
qed

lemma harvestAbove_loop:
  assumes vw: "view st0 G w st" and keys: "distinct (map fst w)"
    and known: "\<forall>(k, names) \<in> set w. \<forall>n \<in> set names. G n \<noteq> None"
  shows "runs (harvestAbove L I th remove) st (\<lambda>rs st'.
    view st0 (interlockAll G (set (harvestNames th G w))) (afterHarvest th remove G w) st' \<and>
    rs = map (\<lambda>n. nrec (nodeAt G n)) (harvestNames th G w))"
proof -
  define J where "J = (\<lambda>vs (rs :: ledger_record list) st'.
    view st0 (interlockAll G (set (harvestNames th G vs))) (afterHarvest th remove G vs @ drop (length vs) w) st' \<and>
    rs = map (\<lambda>n. nrec (nodeAt G n)) (harvestNames th G vs))"
  have "runs (foldM (\<lambda>acc bucket. case bucket of (k, names) \<Rightarrow> if k \<ge> th then
        bindM (foldM (harvestOne L I remove) (acc, []) names) (\<lambda>r.
        bindM (modifyM (\<lambda>st. st\<lparr>waitlist := eraseFromBucket k (snd r) (waitlist st)\<rparr>)) (\<lambda>_. ret (fst r)))
      else ret acc) [] w) st (J w)"
  proof (rule runs_foldM)
    show "J [] [] st" using vw by (simp add: J_def harvestNames_def afterHarvest_def)
    fix vs bucket rest rs t
    assume split: "w = vs @ bucket # rest" and J: "J vs rs t"
    obtain k names where bucket: "bucket = (k, names)" by force
    let ?N = "set (harvestNames th G vs)" and ?w = "afterHarvest th remove G vs @ (k, names) # rest"
    have t: "view st0 (interlockAll G ?N) ?w t"
      using J split by (simp add: J_def bucket)
    have free: "\<forall>m \<in> ?N. \<not> pending_at G m" by (auto simp: harvestNames_def)
    have names: "\<forall>n \<in> set names. G n \<noteq> None" using known split by (auto simp: bucket)
    have fst_after: "map fst (afterHarvest th remove G vs) = map fst vs"
      by (auto simp: afterHarvest_def)
    have erase: "eraseFromBucket k rm ?w = afterHarvest th remove G vs @ (k, filter (\<lambda>m. m \<notin> set rm) names) # rest" for rm
      by (rule eraseFromBucket_middle) (use keys split bucket fst_after in simp)
    have kept: "filter (\<lambda>m. m \<notin> set (if remove then filter (\<lambda>n. \<not> pending_at G n) names else [])) names =
        (if remove then filter (pending_at G) names else names)"
      by (auto intro: filter_cong)
    show "runs (case bucket of (k, names) \<Rightarrow> if k \<ge> th then
        bindM (foldM (harvestOne L I remove) (rs, []) names) (\<lambda>r.
        bindM (modifyM (\<lambda>st. st\<lparr>waitlist := eraseFromBucket k (snd r) (waitlist st)\<rparr>)) (\<lambda>_. ret (fst r)))
      else ret rs) t (J (vs @ [bucket]))"
    proof (cases "k \<ge> th")
      case False
      then show ?thesis using J split by (simp add: bucket runs_rules J_def)
    next
      case True
      have "runs (foldM (harvestOne L I remove) (rs, []) names) t (\<lambda>r st'.
          runs (modifyM (\<lambda>st. st\<lparr>waitlist := eraseFromBucket k (snd r) (waitlist st)\<rparr>)) st'
            (\<lambda>_ st''. J (vs @ [bucket]) (fst r) st''))"
        by (rule runs_mono [OF harvestBucket_view [OF t names free, of remove rs]])
           (use J split erase kept True in \<open>simp add: bucket J_def Let_def runs_rules dag_view_def del: set_filter\<close>)
      then show ?thesis by (simp add: bucket True runs_rules)
    qed
  qed
  then show ?thesis
    using vw by (simp add: harvestAbove_def runs_rules J_def dag_view_def)
qed

end

end
