(* ===== verification/Dag_Session.thy ===== *)
theory Dag_Session
  imports Dag_Operations
begin

text \<open>
  Whole sessions of the module: any sequence of its public operations, started on a storage without
  edge states, returns normally and leaves a state with the invariant \<open>dag_inv_in\<close>, as long as the
  records together have fewer than \<open>2 ^ 30\<close> pointers. The properties of the DAG are stated here, for
  any backend that is a \<open>block_store\<close> and any policy that is an \<open>interlock_policy\<close>.
\<close>

section \<open>Counting pointers\<close>

lemma pointer_count_superset:
  assumes "finite D" and "dom G \<subseteq> D"
  shows "pointer_count G = (\<Sum>n \<in> D. length (pointers (nrec (nodeAt G n))))"
  unfolding pointer_count_def
  by (rule sum.mono_neutral_left [OF assms])
     (auto simp: nodeAt_def emptyNode_def setName_def newRecord_def dom_def)

lemma pointer_count_shape:
  assumes "same_shape G H" and "finite (dom G)" and "finite (dom H)"
  shows "pointer_count H = pointer_count G"
  using assms pointer_count_superset [of "dom G \<union> dom H" G] pointer_count_superset [of "dom G \<union> dom H" H]
  by (simp add: same_shape_def)

lemma pointer_count_load:
  assumes "graph_good G" and "pending_at G (toStateName (recName r))"
  shows "pointer_count (loadNode G r) = pointer_count G + length (pointers r)"
proof -
  let ?n = "toStateName (recName r)"
  let ?f = "\<lambda>G n. length (pointers (nrec (nodeAt G n)))"
  have fin: "finite (insert ?n (dom G))" using assms(1) by (simp add: graph_good_def)
  have bare: "?f G ?n = 0" using assms by (simp add: graph_good_def pending_bare_def)
  have sub: "dom (loadNode G r) \<subseteq> insert ?n (dom G)" by (auto simp: loadNode_def Let_def split: if_splits)
  have "pointer_count (loadNode G r) = sum (?f (loadNode G r)) (insert ?n (dom G))"
    by (rule pointer_count_superset [OF fin sub])
  also have "\<dots> = length (pointers r) + sum (?f (loadNode G r)) (dom G - {?n})"
    using fin by (simp add: sum.insert_remove load_at)
  also have "sum (?f (loadNode G r)) (dom G - {?n}) = sum (?f G) (dom G - {?n})"
    by (rule sum.cong) (auto simp: load_at)
  also have "length (pointers r) + \<dots> = length (pointers r) + sum (?f G) (insert ?n (dom G))"
    using fin bare by (simp add: sum.insert_remove)
  also have "sum (?f G) (insert ?n (dom G)) = pointer_count G"
    by (rule pointer_count_superset [OF fin, symmetric]) auto
  finally show ?thesis by simp
qed

lemma pointer_count_add:
  assumes "graph_good G"
  shows "pointer_count (graphAdd G r) \<le> pointer_count G + length (pointers r)"
    and "pending_at G (toStateName (recName r)) \<Longrightarrow> pointer_count G + length (pointers r) < 2 ^ 30 \<Longrightarrow>
      room (loadNode G r)"
proof -
  let ?n = "toStateName (recName r)"
  have fin: "finite (dom (loadNode G r))"
    using assms by (simp add: graph_good_def loadNode_def Let_def)
  then have "pointer_count (resolve (loadNode G r) xs) = pointer_count (loadNode G r)" for xs
    by (intro pointer_count_shape [OF same_shape_resolve]) (simp_all add: finite_dom_resolve)
  then show "pointer_count (graphAdd G r) \<le> pointer_count G + length (pointers r)"
    using pointer_count_load [OF assms, of r] by (simp add: graphAdd_def Let_def)
  show "pending_at G ?n \<Longrightarrow> pointer_count G + length (pointers r) < 2 ^ 30 \<Longrightarrow> room (loadNode G r)"
    using fin pointer_count_load [OF assms] by (simp add: room_def)
qed

lemma pointer_count_interlock:
  assumes "finite (dom G)" and "N \<subseteq> dom G"
  shows "pointer_count (interlockAll G N) = pointer_count G"
proof -
  have "dom (interlockAll G N) = dom G"
    using assms(2) by (auto simp: interlockAll_def split: if_splits)
  then show ?thesis
    unfolding pointer_count_def by (auto simp: nodeAt_interlockAll intro: sum.cong)
qed

section \<open>The other operations\<close>

definition belowNames :: "32 word \<Rightarrow> graph \<Rightarrow> waitlist \<Rightarrow> name list" where
  "belowNames th G w = concat (map (\<lambda>(k, names).
     if k < th then filter (\<lambda>n. \<not> pending_at G n) names else []) w)"

context dag_module
begin

lemma readNames_view:
  assumes "view st0 G w st" and "\<forall>n \<in> set names. G n \<noteq> None"
  shows "runs (foldM (\<lambda>acc n. bindM (getOrConstruct L I n) (\<lambda>s.
      ret (if status s \<noteq> INITIALIZED then acc @ [erecord s] else acc))) acc names) st
    (\<lambda>rs st'. view st0 G w st' \<and> rs = acc @ map (\<lambda>n. nrec (nodeAt G n)) (filter (\<lambda>n. \<not> pending_at G n) names))"
proof (rule runs_foldM [where J = "\<lambda>vs rs st'. view st0 G w st' \<and>
    rs = acc @ map (\<lambda>n. nrec (nodeAt G n)) (filter (\<lambda>n. \<not> pending_at G n) vs)"])
  fix vs n rest b t
  assume split: "names = vs @ n # rest"
    and J: "view st0 G w t \<and> b = acc @ map (\<lambda>n. nrec (nodeAt G n)) (filter (\<lambda>n. \<not> pending_at G n) vs)"
  obtain x where x: "G n = Some x" using assms(2) split by auto
  from J have vw: "view st0 G w t" by simp
  note wf = graph_node_wf [OF vw x]
  have wfn: "wf_name n" using wf(1) by (simp add: node_wf_def)
  show "runs (bindM (getOrConstruct L I n) (\<lambda>s. ret (if status s \<noteq> INITIALIZED then b @ [erecord s] else b))) t
    (\<lambda>rs st'. view st0 G w st' \<and>
      rs = acc @ map (\<lambda>n. nrec (nodeAt G n)) (filter (\<lambda>n. \<not> pending_at G n) (vs @ [n])))"
  proof (rule runs_bindI [OF getOrConstruct_view [OF vw wf(2) wfn]], elim conjE)
    fix s t'
    assume s: "view st0 (touch G n) w t'" "nodeOf s = nodeAt G n" "G n \<noteq> None \<longrightarrow> erecord s = nrec (nodeAt G n)"
    have "status s = nstatus (nodeAt G n)" using arg_cong [OF s(2), of nstatus] by simp
    then have "status s = INITIALIZED \<longleftrightarrow> pending_at G n" "erecord s = nrec x"
      using s(3) x by (simp_all add: pending_at_def)
    then show "runs (ret (if status s \<noteq> INITIALIZED then b @ [erecord s] else b)) t'
      (\<lambda>rs st'. view st0 G w st' \<and>
        rs = acc @ map (\<lambda>n. nrec (nodeAt G n)) (filter (\<lambda>n. \<not> pending_at G n) (vs @ [n])))"
      using s(1) x J by (simp add: runs_rules)
  qed
qed (use assms(1) in simp)

theorem harvestBelow_view:
  assumes vw: "view st0 G w st" and known: "\<forall>(k, names) \<in> set w. \<forall>n \<in> set names. G n \<noteq> None"
  shows "runs (harvestBelow L I th) st (\<lambda>rs st'. view st0 G w st' \<and>
    rs = map (\<lambda>n. nrec (nodeAt G n)) (belowNames th G w))"
proof -
  have "runs (foldM (\<lambda>acc bucket. case bucket of (k, names) \<Rightarrow> if k < th then
        foldM (\<lambda>acc n. bindM (getOrConstruct L I n) (\<lambda>s.
          ret (if status s \<noteq> INITIALIZED then acc @ [erecord s] else acc))) acc names
      else ret acc) [] w) st
    (\<lambda>rs st'. view st0 G w st' \<and> rs = map (\<lambda>n. nrec (nodeAt G n)) (belowNames th G w))"
  proof (rule runs_foldM [where J = "\<lambda>vs rs st'. view st0 G w st' \<and>
      rs = map (\<lambda>n. nrec (nodeAt G n)) (belowNames th G vs)"])
    fix vs bucket rest rs t
    assume split: "w = vs @ bucket # rest"
      and J: "view st0 G w t \<and> rs = map (\<lambda>n. nrec (nodeAt G n)) (belowNames th G vs)"
    obtain k names where bucket: "bucket = (k, names)" by force
    have "\<forall>n \<in> set names. G n \<noteq> None" using known split by (auto simp: bucket)
    with readNames_view [of st0 G w t names rs] J
    show "runs (case bucket of (k, names) \<Rightarrow> if k < th then
        foldM (\<lambda>acc n. bindM (getOrConstruct L I n) (\<lambda>s.
          ret (if status s \<noteq> INITIALIZED then acc @ [erecord s] else acc))) rs names
      else ret rs) t (\<lambda>rs st'. view st0 G w st' \<and> rs = map (\<lambda>n. nrec (nodeAt G n)) (belowNames th G (vs @ [bucket])))"
      by (auto simp: bucket belowNames_def runs_rules elim!: runs_mono)
  qed (use vw in \<open>simp add: belowNames_def\<close>)
  then show ?thesis
    using vw by (simp add: harvestBelow_def runs_rules dag_view_def)
qed

end

lemma waitlist_good_known: "waitlist_good P G w \<Longrightarrow> \<forall>(k, names) \<in> set w. \<forall>n \<in> set names. G n \<noteq> None"
  by (force simp: waitlist_good_def waitlist_wf_def map_wf_def filed_def)

lemma filed_map_at: "map_wf w \<Longrightarrow> filed (map_at k [] (\<lambda>names. names) w) n j \<longleftrightarrow> filed w n j"
  by (cases "map_of w k") (auto simp: filed_def)

lemma waitlist_wf_map_at: "waitlist_wf w \<Longrightarrow> waitlist_wf (map_at k [] (\<lambda>names. names) w)"
proof (rule waitlist_wfI)
  assume w: "waitlist_wf w"
  then show "map_wf (map_at k [] (\<lambda>names. names) w)" by (simp add: waitlist_wf_def)
  show "set_wf names" if "map_of (map_at k [] (\<lambda>names. names) w) j = Some names" for j names
    using that w waitlist_wf_bucket [OF w]
    by (auto simp: waitlist_wf_def split: if_splits option.splits)
qed

lemma dag_good_in_map_at: "dag_good_in K P G w \<Longrightarrow> dag_good_in K P G (map_at k [] (\<lambda>names. names) w)"
proof -
  assume good: "dag_good_in K P G w"
  then have "map_wf w" "waitlist_wf w" by (simp_all add: dag_good_in_def waitlist_good_def waitlist_wf_def)
  with good show ?thesis
    by (simp add: dag_good_in_def waitlist_good_def keptNames_def filed_map_at waitlist_wf_map_at)
qed

lemmas dag_good_map_at = dag_good_in_map_at [where K = "{}", folded dag_good_in]

section \<open>Sessions\<close>

datatype dag_op =
    OpAdd ledger_record
  | OpHarvestAbove "32 word" bool
  | OpHarvestBelow "32 word"
  | OpWaitList "32 word"

fun dagStep :: "ndn \<Rightarrow> 's storage_intf \<Rightarrow> (edge_state \<Rightarrow> 32 word) \<Rightarrow> dag_op \<Rightarrow>
    (('s, 'z) dag_state_scheme, unit) cm" where
  "dagStep L I P (OpAdd r) = bindM (add L I P r) (\<lambda>_. ret ())"
| "dagStep L I P (OpHarvestAbove th remove) = bindM (harvestAbove L I th remove) (\<lambda>_. ret ())"
| "dagStep L I P (OpHarvestBelow th) = bindM (harvestBelow L I th) (\<lambda>_. ret ())"
| "dagStep L I P (OpWaitList k) = bindM (getWaitList k) (\<lambda>_. ret ())"

definition dagRun :: "ndn \<Rightarrow> 's storage_intf \<Rightarrow> (edge_state \<Rightarrow> 32 word) \<Rightarrow> dag_op list \<Rightarrow>
    (('s, 'z) dag_state_scheme, unit) cm" where
  "dagRun L I P ops = forM (dagStep L I P) ops"

fun op_pointers :: "dag_op \<Rightarrow> nat" where
  "op_pointers (OpAdd r) = length (pointers r)"
| "op_pointers _ = 0"

fun wf_op :: "dag_op \<Rightarrow> bool" where
  "wf_op (OpAdd r) = wf_record r"
| "wf_op _ = True"

definition ops_fit :: "dag_op list \<Rightarrow> bool" where
  "ops_fit ops \<longleftrightarrow> list_all wf_op ops \<and> sum_list (map op_pointers ops) < 2 ^ 30"

text \<open>What an operation does to the graph.\<close>

definition ripe :: "(edge_state \<Rightarrow> 32 word) \<Rightarrow> 32 word \<Rightarrow> graph \<Rightarrow> name set" where
  "ripe P th G = {n. nstatus (nodeAt G n) = LOADED \<and> th \<le> polv P (nodeAt G n)}"

fun opGraph :: "(edge_state \<Rightarrow> 32 word) \<Rightarrow> graph \<Rightarrow> dag_op \<Rightarrow> graph" where
  "opGraph P G (OpAdd r) = graphAdd G r"
| "opGraph P G (OpHarvestAbove th remove) = interlockAll G (ripe P th G)"
| "opGraph P G (OpHarvestBelow th) = G"
| "opGraph P G (OpWaitList k) = G"

text \<open>The interlocked records that stay in the waitlist: a harvest without removal leaves there what it
  returns, a harvest with removal takes out what it returns, these included.\<close>

fun opKept :: "(edge_state \<Rightarrow> 32 word) \<Rightarrow> graph \<Rightarrow> name set \<Rightarrow> dag_op \<Rightarrow> name set" where
  "opKept P G K (OpHarvestAbove th remove) =
     (if remove then {n \<in> K. \<not> th \<le> polv P (nodeAt G n)} else K \<union> ripe P th G)"
| "opKept P G K _ = K"

fun keptBy :: "(edge_state \<Rightarrow> 32 word) \<Rightarrow> graph \<Rightarrow> name set \<Rightarrow> dag_op list \<Rightarrow> name set" where
  "keptBy P G K [] = K"
| "keptBy P G K (x # ops) = keptBy P (opGraph P G x) (opKept P G K x) ops"

fun removing :: "dag_op \<Rightarrow> bool" where
  "removing (OpHarvestAbove th remove) = remove"
| "removing _ = True"

lemma keptBy_removing: "list_all removing ops \<Longrightarrow> keptBy P G {} ops = {}"
proof (induction ops arbitrary: G)
  case (Cons x ops)
  then have "opKept P G {} x = {}" by (cases x) simp_all
  with Cons show ?case by simp
qed simp

text \<open>The graph of a state; the invariant; a state in which nothing has been stored by the module.\<close>

definition stateGraph :: "ndn \<Rightarrow> ('s \<Rightarrow> name \<Rightarrow> block option) \<Rightarrow> ('s, 'z) dag_state_scheme \<Rightarrow> graph" where
  "stateGraph L C st = graphOf L (C (store st))"

definition dag_inv :: "ndn \<Rightarrow> ('s \<Rightarrow> name \<Rightarrow> block option) \<Rightarrow> ('s \<Rightarrow> bool) \<Rightarrow> (edge_state \<Rightarrow> 32 word) \<Rightarrow>
    ('s, 'z) dag_state_scheme \<Rightarrow> bool" where
  "dag_inv L C ok P st \<longleftrightarrow> ok (store st) \<and> states_stored L (C (store st))
     \<and> graph_good (stateGraph L C st) \<and> dag_good P (stateGraph L C st) (waitlist st)"

definition dag_inv_in :: "ndn \<Rightarrow> ('s \<Rightarrow> name \<Rightarrow> block option) \<Rightarrow> ('s \<Rightarrow> bool) \<Rightarrow> (edge_state \<Rightarrow> 32 word) \<Rightarrow>
    name set \<Rightarrow> ('s, 'z) dag_state_scheme \<Rightarrow> bool" where
  "dag_inv_in L C ok P K st \<longleftrightarrow> ok (store st) \<and> states_stored L (C (store st))
     \<and> graph_good (stateGraph L C st) \<and> dag_good_in K P (stateGraph L C st) (waitlist st)"

lemma dag_inv_in: "dag_inv L C ok P st = dag_inv_in L C ok P {} st"
  by (simp add: dag_inv_def dag_inv_in_def dag_good_in)

definition dag_fresh :: "('s \<Rightarrow> name \<Rightarrow> block option) \<Rightarrow> ('s \<Rightarrow> bool) \<Rightarrow> ('s, 'z) dag_state_scheme \<Rightarrow> bool" where
  "dag_fresh C ok st \<longleftrightarrow> ok (store st) \<and> waitlist st = [] \<and> (\<forall>n. is_state_name n \<longrightarrow> C (store st) n = None)"

text \<open>Only edge states change in storage.\<close>

definition others_same :: "('s \<Rightarrow> name \<Rightarrow> block option) \<Rightarrow> ('s, 'z) dag_state_scheme \<Rightarrow>
    ('s, 'z) dag_state_scheme \<Rightarrow> bool" where
  "others_same C st0 st \<longleftrightarrow> (\<forall>n. \<not> is_state_name n \<longrightarrow> C (store st) n = C (store st0) n)
     \<and> dag_state.more st = dag_state.more st0"

lemma dag_view_iff: "dag_view L C ok st0 G w st \<longleftrightarrow> ok (store st) \<and> states_stored L (C (store st))
  \<and> G = stateGraph L C st \<and> w = waitlist st \<and> others_same C st0 st"
  by (auto simp: dag_view_def stateGraph_def others_same_def)

lemma dag_inv_fresh: "dag_fresh C ok st \<Longrightarrow> dag_inv L C ok P st \<and> stateGraph L C st = Map.empty"
proof -
  assume fresh: "dag_fresh C ok st"
  then have "stateGraph L C st = Map.empty"
    by (auto simp: stateGraph_def graphOf_def dag_fresh_def fun_eq_iff)
  with fresh show ?thesis
    by (simp add: dag_inv_def graph_good_empty dag_good_def waitlist_good_empty states_stored_def dag_fresh_def)
qed

lemma others_same_refl [simp]: "others_same C st st"
  by (simp add: others_same_def)

lemma others_same_trans: "others_same C a b \<Longrightarrow> others_same C b c \<Longrightarrow> others_same C a c"
  by (simp add: others_same_def)

lemma harvestNames_accepted: "n \<in> set (harvestNames th G w) \<Longrightarrow> \<not> pending_at G n"
  by (auto simp: harvestNames_def split: if_splits)

lemma accepted_dom: "\<not> pending_at G n \<Longrightarrow> n \<in> dom G"
  by (auto simp: pending_at_def nodeAt_def emptyNode_def split: option.splits)

text \<open>Accepted records are loaded or interlocked; the filed ones are the loaded ones and those kept.\<close>

lemma filed_accepted:
  assumes "graph_good G" and "dag_good_in K P G w"
  shows "filed w n k \<and> \<not> pending_at G n \<longleftrightarrow> (nstatus (nodeAt G n) = LOADED \<or> n \<in> K) \<and> k = polv P (nodeAt G n)"
proof -
  have filed: "\<And>n k. filed w n k \<Longrightarrow> k = polv P (nodeAt G n)"
    and all: "nstatus (nodeAt G n) = LOADED \<Longrightarrow> filed w n (polv P (nodeAt G n))"
    and K: "K = {n. \<not> open_at G n \<and> (\<exists>k. filed w n k)}"
    using assms(2) by (auto simp: dag_good_in_def waitlist_good_def keptNames_def)
  have known: "\<not> pending_at G n \<longleftrightarrow> nstatus (nodeAt G n) = LOADED \<or> \<not> open_at G n"
    using assms(1) by (auto simp: graph_good_def statuses_known_def open_at_def pending_at_def)
  have "n \<in> K \<longleftrightarrow> \<not> open_at G n \<and> filed w n (polv P (nodeAt G n))" unfolding K using filed by blast
  with filed [of n k] all known show ?thesis by blast
qed

lemma kept_closed: "dag_good_in K P G w \<Longrightarrow> n \<in> K \<Longrightarrow> nstatus (nodeAt G n) = INTERLOCKED"
  by (auto simp: dag_good_in_def keptNames_def open_at_def)

lemma dag_good_names:
  assumes "graph_good G" and "dag_good_in K P G w"
  shows "set (harvestNames th G w) = {n. (nstatus (nodeAt G n) = LOADED \<or> n \<in> K) \<and> th \<le> polv P (nodeAt G n)}"
    and "distinct (harvestNames th G w)"
proof -
  have wl: "waitlist_wf w" and one: "\<And>n k. filed w n k \<Longrightarrow> k = polv P (nodeAt G n)"
    using assms(2) by (auto simp: dag_good_in_def waitlist_good_def)
  show "set (harvestNames th G w) = {n. (nstatus (nodeAt G n) = LOADED \<or> n \<in> K) \<and> th \<le> polv P (nodeAt G n)}"
  proof -
    have "set (harvestNames th G w) = {n. \<exists>k. (filed w n k \<and> \<not> pending_at G n) \<and> th \<le> k}"
      unfolding set_harvestNames [OF wl] by blast
    then show ?thesis unfolding filed_accepted [OF assms] by auto
  qed
  show "distinct (harvestNames th G w)"
    by (rule distinct_harvestNames [OF wl]) (use one in blast)
qed

lemma belowNames_set:
  assumes "graph_good G" and "dag_good_in K P G w"
  shows "set (belowNames th G w) = {n. (nstatus (nodeAt G n) = LOADED \<or> n \<in> K) \<and> polv P (nodeAt G n) < th}"
proof -
  have m: "map_of w k = Some names \<longleftrightarrow> (k, names) \<in> set w" for k names
    using assms(2) by (simp add: dag_good_in_def waitlist_good_def waitlist_wf_def map_wf_def)
  have "set (belowNames th G w) = {n. \<exists>k. filed w n k \<and> k < th \<and> \<not> pending_at G n}"
    by (force simp: belowNames_def filed_def m)
  also have "\<dots> = {n. \<exists>k. (filed w n k \<and> \<not> pending_at G n) \<and> k < th}" by blast
  finally show ?thesis unfolding filed_accepted [OF assms] by auto
qed

text \<open>Marking what is interlocked already changes nothing.\<close>

lemma interlock_kept:
  assumes "\<forall>n \<in> K. nstatus (nodeAt G n) = INTERLOCKED"
  shows "interlockAll G (N \<union> K) = interlockAll G N"
proof
  fix n
  have *: "interlockAll G N n = Some (nodeInterlock (nodeAt G n))" if "n \<in> K"
  proof (cases "n \<in> N")
    case False
    have "nstatus (nodeAt G n) = INTERLOCKED" using assms that by blast
    moreover from this obtain x where "G n = Some x"
      by (cases "G n") (auto simp: nodeAt_def emptyNode_def)
    ultimately show ?thesis using False by (simp add: interlockAll_def nodeInterlock_def nodeAt_def)
  qed (simp add: interlockAll_def)
  show "interlockAll G (N \<union> K) n = interlockAll G N n"
  proof (cases "n \<in> K")
    case True
    then have "interlockAll G (N \<union> K) n = Some (nodeInterlock (nodeAt G n))" by (simp add: interlockAll_def)
    with * [OF True] show ?thesis by simp
  qed (simp add: interlockAll_def)
qed

lemma ripe_facts: "n \<in> ripe P th G \<Longrightarrow> \<not> pending_at G n" "ripe P th G \<subseteq> dom G"
proof -
  show acc: "n \<in> ripe P th G \<Longrightarrow> \<not> pending_at G n" for n by (simp add: ripe_def pending_at_def)
  show "ripe P th G \<subseteq> dom G" using acc accepted_dom by blast
qed

lemma graph_good_op: "graph_good G \<Longrightarrow> graph_good (opGraph P G x)"
  by (cases x) (auto intro: graph_good_add graph_good_interlock dest: ripe_facts(1))

lemma pointer_count_op: "graph_good G \<Longrightarrow> pointer_count (opGraph P G x) \<le> pointer_count G + op_pointers x"
  using pointer_count_interlock [OF _ ripe_facts(2)]
  by (cases x) (simp_all add: pointer_count_add graph_good_def)

context dag_module
begin

text \<open>Each operation on a state with the invariant: result, effect on the graph, invariant again.\<close>

lemma inv_in_view: "dag_inv_in L C ok P K st \<Longrightarrow> view st (stateGraph L C st) (waitlist st) st"
  by (simp add: dag_view_iff dag_inv_in_def)

lemmas inv_view = inv_in_view [where K = "{}", folded dag_inv_in]

lemma ndesc_set_wf: "dag_inv_in L C ok P K st \<Longrightarrow> set_wf (ndesc (nodeAt (stateGraph L C st) n))"
  using graph_node_wf(1) [OF inv_in_view]
  by (cases "stateGraph L C st n") (auto simp: node_wf_def nodeAt_def emptyNode_def)

lemma add_inv_in:
  assumes "dag_inv_in L C ok P K st" and "wf_record r"
    and "pointer_count (stateGraph L C st) + length (pointers r) < 2 ^ 30"
  shows "runs (add L I P r) st (\<lambda>n st'. n = toStateName (recName r) \<and> dag_inv_in L C ok P K st'
    \<and> stateGraph L C st' = graphAdd (stateGraph L C st) r \<and> others_same C st st')"
proof -
  have good: "graph_good (stateGraph L C st)" "dag_good_in K P (stateGraph L C st) (waitlist st)"
    using assms(1) by (simp_all add: dag_inv_in_def)
  show ?thesis
    by (rule runs_mono [OF add_view [OF inv_in_view [OF assms(1)] good assms(2)
        pointer_count_add(2) [OF good(1) _ assms(3)]]])
       (auto simp: dag_view_iff dag_inv_in_def graph_good_add [OF good(1)] dest: sym)
qed

lemmas add_inv = add_inv_in [where K = "{}", folded dag_inv_in]

lemma harvestAbove_inv_in:
  assumes "dag_inv_in L C ok P K st" and G: "G = stateGraph L C st"
  shows "runs (harvestAbove L I th remove) st (\<lambda>rs st'.
    dag_inv_in L C ok P (opKept P G K (OpHarvestAbove th remove)) st' \<and> others_same C st st'
    \<and> (\<exists>ns. distinct ns \<and> rs = map (\<lambda>n. nrec (nodeAt G n)) ns
      \<and> set ns = {n. (nstatus (nodeAt G n) = LOADED \<or> n \<in> K) \<and> th \<le> polv P (nodeAt G n)})
    \<and> stateGraph L C st' = interlockAll G (ripe P th G))"
proof -
  let ?w = "waitlist st"
  have good: "graph_good G" "dag_good_in K P G ?w" using assms by (simp_all add: dag_inv_in_def)
  then have wl: "waitlist_wf ?w" "waitlist_good P G ?w" by (simp_all add: dag_good_in_def waitlist_good_def)
  define N where "N = set (harvestNames th G ?w)"
  note ns = dag_good_names [OF good, of th]
  have closed: "\<forall>n \<in> K. nstatus (nodeAt G n) = INTERLOCKED" using kept_closed [OF good(2)] by blast
  have N: "N = ripe P th G \<union> {n \<in> K. th \<le> polv P (nodeAt G n)}"
    unfolding N_def ns by (auto simp: ripe_def)
  have il: "interlockAll G N = interlockAll G (ripe P th G)"
    unfolding N by (rule interlock_kept) (use closed in blast)
  have kept: "(if remove then K - N else K \<union> N) = opKept P G K (OpHarvestAbove th remove)"
    using closed by (auto simp: N ripe_def)
  have acc: "\<forall>n \<in> N. \<not> pending_at G n" unfolding N_def by (blast dest: harvestNames_accepted)
  have "distinct (map fst ?w)" using wl(1) by (simp add: waitlist_wf_def map_wf_def)
  note loop = harvestAbove_loop [OF inv_in_view [OF assms(1)] this waitlist_good_known [OF wl(2)[unfolded G]],
      of th remove, folded G]
  show ?thesis
  proof (rule runs_mono [OF loop], intro conjI)
    fix rs st'
    assume *: "view st (interlockAll G (set (harvestNames th G ?w))) (afterHarvest th remove G ?w) st' \<and>
      rs = map (\<lambda>n. nrec (nodeAt G n)) (harvestNames th G ?w)"
    then have **: "stateGraph L C st' = interlockAll G N" "waitlist st' = afterHarvest th remove G ?w"
      "ok (store st')" "states_stored L (C (store st'))" "others_same C st st'"
      by (auto simp: dag_view_iff N_def)
    then show "stateGraph L C st' = interlockAll G (ripe P th G)" "others_same C st st'" by (simp_all add: il)
    show "dag_inv_in L C ok P (opKept P G K (OpHarvestAbove th remove)) st'"
      using ** graph_good_interlock [OF good(1) acc] dag_good_harvest [OF good(2) N_def, of remove]
      by (simp only: dag_inv_in_def kept)
    show "\<exists>ns. distinct ns \<and> rs = map (\<lambda>n. nrec (nodeAt G n)) ns
      \<and> set ns = {n. (nstatus (nodeAt G n) = LOADED \<or> n \<in> K) \<and> th \<le> polv P (nodeAt G n)}"
      using * ns by blast
  qed
qed

lemma harvestAbove_inv:
  assumes "dag_inv L C ok P st"
  shows "runs (harvestAbove L I th True) st (\<lambda>rs st'. dag_inv L C ok P st' \<and> others_same C st st'
    \<and> (\<exists>ns. distinct ns \<and> rs = map (\<lambda>n. nrec (nodeAt (stateGraph L C st) n)) ns
      \<and> set ns = {n. nstatus (nodeAt (stateGraph L C st) n) = LOADED \<and> th \<le> polv P (nodeAt (stateGraph L C st) n)}
      \<and> stateGraph L C st' = interlockAll (stateGraph L C st) (set ns)))"
  by (rule runs_mono [OF harvestAbove_inv_in [OF assms [unfolded dag_inv_in] refl]])
     (force simp: dag_inv_in ripe_def)

lemma harvestBelow_inv_in:
  assumes "dag_inv_in L C ok P K st"
  shows "runs (harvestBelow L I th) st (\<lambda>rs st'. dag_inv_in L C ok P K st' \<and> others_same C st st'
    \<and> waitlist st' = waitlist st \<and> stateGraph L C st' = stateGraph L C st
    \<and> set rs = (\<lambda>n. nrec (nodeAt (stateGraph L C st) n)) ` {n. (nstatus (nodeAt (stateGraph L C st) n) = LOADED \<or> n \<in> K)
        \<and> polv P (nodeAt (stateGraph L C st) n) < th})"
proof -
  let ?G = "stateGraph L C st" and ?w = "waitlist st"
  have good: "graph_good ?G" "dag_good_in K P ?G ?w" using assms by (simp_all add: dag_inv_in_def)
  then have "waitlist_good P ?G ?w" by (simp add: dag_good_in_def)
  note below = harvestBelow_view [OF inv_in_view [OF assms] waitlist_good_known [OF this], of th]
  show ?thesis
    by (rule runs_mono [OF below])
       (use good belowNames_set [OF good, of th] in \<open>auto simp: dag_view_iff dag_inv_in_def\<close>)
qed

lemmas harvestBelow_inv = harvestBelow_inv_in [where K = "{}", folded dag_inv_in, unfolded empty_iff simp_thms]

lemma getWaitList_inv_in:
  assumes "dag_inv_in L C ok P K st"
  shows "runs (getWaitList k) st (\<lambda>names st'. dag_inv_in L C ok P K st' \<and> others_same C st st'
    \<and> stateGraph L C st' = stateGraph L C st \<and> set names = {n. filed (waitlist st) n k})"
proof -
  have good: "dag_good_in K P (stateGraph L C st) (waitlist st)" using assms by (simp add: dag_inv_in_def)
  then have "map_wf (waitlist st)" by (simp add: dag_good_in_def waitlist_good_def waitlist_wf_def)
  with assms dag_good_in_map_at [OF good, of k] show ?thesis
    by (cases "map_of (waitlist st) k")
       (simp_all add: getWaitList_def runs_rules dag_inv_in_def stateGraph_def others_same_def filed_def)
qed

lemma dagStep_inv:
  assumes "dag_inv_in L C ok P K st" and "wf_op x" and "pointer_count (stateGraph L C st) + op_pointers x < 2 ^ 30"
  shows "runs (dagStep L I P x) st (\<lambda>_ st'. dag_inv_in L C ok P (opKept P (stateGraph L C st) K x) st'
    \<and> others_same C st st' \<and> stateGraph L C st' = opGraph P (stateGraph L C st) x)"
proof (cases x)
  case (OpAdd r)
  have "runs (add L I P r) st (\<lambda>n st'. n = toStateName (recName r) \<and> dag_inv_in L C ok P K st'
    \<and> stateGraph L C st' = graphAdd (stateGraph L C st) r \<and> others_same C st st')"
    by (rule add_inv_in [OF assms(1)]) (use assms OpAdd in simp_all)
  then show ?thesis by (auto simp: OpAdd runs_rules elim!: runs_mono)
next
  case (OpHarvestAbove th remove)
  with harvestAbove_inv_in [OF assms(1) refl, of th remove] show ?thesis
    by (auto simp: runs_rules elim!: runs_mono simp del: opKept.simps)
next
  case (OpHarvestBelow th)
  with harvestBelow_inv_in [OF assms(1), of th] show ?thesis
    by (auto simp: runs_rules elim!: runs_mono)
next
  case (OpWaitList k)
  with getWaitList_inv_in [OF assms(1), of k] show ?thesis
    by (auto simp: runs_rules elim!: runs_mono)
qed

lemma dagRun_inv:
  assumes "dag_inv_in L C ok P K st" and "list_all wf_op ops"
    and "pointer_count (stateGraph L C st) + sum_list (map op_pointers ops) < 2 ^ 30"
  shows "runs (dagRun L I P ops) st (\<lambda>_ st'. dag_inv_in L C ok P (keptBy P (stateGraph L C st) K ops) st'
    \<and> others_same C st st' \<and> stateGraph L C st' = foldl (opGraph P) (stateGraph L C st) ops)"
  using assms
proof (induction ops arbitrary: st K)
  case Nil
  then show ?case by (simp add: dagRun_def runs_rules)
next
  case (Cons x ops)
  let ?G = "stateGraph L C st" and ?K = "opKept P (stateGraph L C st) K x"
  have good: "graph_good ?G" using Cons.prems(1) by (simp add: dag_inv_in_def)
  have "runs (dagStep L I P x) st (\<lambda>_ st'. dag_inv_in L C ok P ?K st' \<and> others_same C st st'
    \<and> stateGraph L C st' = opGraph P ?G x)"
    by (rule dagStep_inv) (use Cons.prems in simp_all)
  then have "runs (bindM (dagStep L I P x) (\<lambda>_. dagRun L I P ops)) st (\<lambda>_ st'.
      dag_inv_in L C ok P (keptBy P ?G K (x # ops)) st' \<and>
      others_same C st st' \<and> stateGraph L C st' = foldl (opGraph P) ?G (x # ops))"
  proof (rule runs_bindI, elim conjE)
    fix t assume t: "dag_inv_in L C ok P ?K t" "others_same C st t" "stateGraph L C t = opGraph P ?G x"
    have "runs (dagRun L I P ops) t (\<lambda>_ st'. dag_inv_in L C ok P (keptBy P (stateGraph L C t) ?K ops) st'
        \<and> others_same C t st' \<and> stateGraph L C st' = foldl (opGraph P) (stateGraph L C t) ops)"
      using Cons.prems pointer_count_op [OF good, of P x] t by (intro Cons.IH) simp_all
    then show "runs (dagRun L I P ops) t (\<lambda>_ st'. dag_inv_in L C ok P (keptBy P ?G K (x # ops)) st' \<and>
        others_same C st st' \<and> stateGraph L C st' = foldl (opGraph P) ?G (x # ops))"
      by (rule runs_mono) (use t(2,3) others_same_trans in \<open>auto\<close>)
  qed
  then show ?case by (simp add: dagRun_def)
qed

text \<open>An edge state that is stored is returned as it is, and the state does not change.\<close>

lemma getOrConstruct_present:
  assumes "view st0 G w st" and "G n \<noteq> None"
  shows "\<exists>s. getOrConstruct L I n st = (Inr s, st) \<and> stateName s = n \<and> nodeOf s = nodeAt G n"
proof -
  obtain x where x: "graphOf L (C (store st)) n = Some x" using assms by (auto simp: dag_view_def)
  then obtain b s where b: "is_state_name n" "C (store st) n = Some b" "decodeEdgeState L b = Inr s" "x = nodeOf s"
    by (blast dest: graphOf_Some)
  then have "stateName s = n" using assms(1) by (force simp: dag_view_def states_stored_def)
  moreover have "getter I n (store st) = Inr b" using assms(1) b(2) by (simp add: dag_view_def getter_Some)
  then have "bindM (getBlockM I n) (\<lambda>b. liftE (decodeEdgeState L b)) st = (Inr s, st)"
    using b by (simp add: bindM_def getBlockM_def liftE_def)
  then have "getOrConstruct L I n st = (Inr s, st)"
    unfolding getOrConstruct_def by (rule catchM_Inr)
  ultimately show ?thesis using x b(4) assms(1) by (auto simp: dag_view_def)
qed

lemma add_duplicate_inv:
  assumes "dag_inv_in L C ok P K st" and "\<not> pending_at (stateGraph L C st) (toStateName (recName r))"
  shows "add L I P r st = (Inr (toStateName (recName r)), st)"
proof -
  obtain s where s: "getOrConstruct L I (toStateName (recName r)) st = (Inr s, st)"
    "stateName s = toStateName (recName r)" "nodeOf s = nodeAt (stateGraph L C st) (toStateName (recName r))"
    using getOrConstruct_present [OF inv_in_view [OF assms(1)]] accepted_dom [OF assms(2)] by blast
  have "status s \<noteq> INITIALIZED"
    using arg_cong [OF s(3), of nstatus] assms(2) by (simp add: pending_at_def)
  with s show ?thesis
    by (cases "status s") (simp_all add: add_def bindM_def ret_def Let_def)
qed

end

end
