(* ===== verification/Dag_Theorems.thy ===== *)
theory Dag_Theorems
  imports Dag_Session
begin

text \<open>
  The properties of the DAG module. They speak of a session: any sequence of operations on a fresh
  module, over any storage backend, codec and policy that keep their contracts (\<open>dag_setup\<close>); the
  witnesses run one on the memory backend with the witness policy.
\<close>

definition dag_setup :: "ndn \<Rightarrow> 's storage_intf \<Rightarrow> ('s \<Rightarrow> name \<Rightarrow> block option) \<Rightarrow> ('s \<Rightarrow> bool) \<Rightarrow>
    (edge_state \<Rightarrow> 32 word) \<Rightarrow> ('s, 'z) dag_state_scheme \<Rightarrow> dag_op list \<Rightarrow> bool" where
  "dag_setup L I C ok P st ops \<longleftrightarrow> ndn_codec L \<and> block_store I C ok \<and> interlock_policy P
     \<and> dag_fresh C ok st \<and> ops_fit ops"

section \<open>Facts on sessions\<close>

lemma dag_setup_module: "dag_setup L I C ok P st ops \<Longrightarrow> dag_module L I C ok P"
  by (simp add: dag_setup_def dag_module_def dag_store_def)

text \<open>The interlocked records that the harvests of a session have left in the waitlist.\<close>

abbreviation keptOf :: "(edge_state \<Rightarrow> 32 word) \<Rightarrow> dag_op list \<Rightarrow> name set" where
  "keptOf P \<equiv> keptBy P Map.empty {}"

lemma session_inv:
  assumes "dag_setup L I C ok P st ops"
  shows "runs (dagRun L I P ops) st (\<lambda>_ st'. dag_inv_in L C ok P (keptOf P ops) st' \<and> others_same C st st'
    \<and> stateGraph L C st' = foldl (opGraph P) Map.empty ops)"
proof -
  have "dag_inv_in L C ok P {} st" "stateGraph L C st = Map.empty"
    using assms dag_inv_fresh [of C ok st L P] by (simp_all add: dag_setup_def dag_inv_in)
  with dag_module.dagRun_inv [OF dag_setup_module [OF assms], of "{}" st ops] assms show ?thesis
    by (simp add: dag_setup_def ops_fit_def pointer_count_def)
qed

lemma session_then:
  assumes "dag_setup L I C ok P st ops"
    and "\<And>t. dag_inv_in L C ok P (keptOf P ops) t \<Longrightarrow> others_same C st t \<Longrightarrow>
      stateGraph L C t = foldl (opGraph P) Map.empty ops \<Longrightarrow> Q () t"
  shows "runs (dagRun L I P ops) st Q"
  by (rule runs_mono [OF session_inv [OF assms(1)]]) (use assms(2) in auto)

text \<open>The descendants of a node, as a function of statuses and records, while nothing is interlocked.\<close>

lemma ancestor_iff_reaches:
  assumes "graph_good G" and "\<forall>n. open_at G n"
  shows "ancestor G (parentsAt G x) a \<longleftrightarrow> reaches G x a"
proof
  assume "reaches G x a"
  then show "ancestor G (parentsAt G x) a"
    unfolding reaches_def
  proof (induction rule: tranclp.induct)
    case (r_into_trancl x a)
    then show ?case using assms(2) by (auto intro: ancestor.direct)
  next
    case (trancl_into_trancl x y a)
    then have "\<not> pending_at G y"
      using assms(1) by (auto simp: graph_good_def pending_bare_def parentsAt_def parents_def)
    then show ?case
      using trancl_into_trancl assms(2) by (auto intro: ancestor.further simp: expandable_at_def)
  qed
qed (rule ancestor_reaches)

lemma ndesc_shape:
  assumes "graph_good G" and "graph_good H" and "same_shape G H" and "\<forall>n. open_at G n"
  shows "set (ndesc (nodeAt H a)) = set (ndesc (nodeAt G a))"
proof -
  have op: "\<forall>n. open_at H n" using assms(4) same_shape_simps(1) [OF assms(3)] by simp
  have "x \<in> set (ndesc (nodeAt K a)) \<longleftrightarrow> citer K x \<and> reaches K x a" if "graph_good K" "\<forall>n. open_at K n" for K x
    using that ancestor_iff_reaches [OF that, of x a]
    by (auto simp: graph_good_def desc_sound_def desc_complete_def)
  from this [OF assms(1,4)] this [OF assms(2) op] show ?thesis
    by (auto simp: same_shape_citer [OF assms(3)])
qed

text \<open>Which records a sequence of additions has accepted.\<close>

lemma adds_shape:
  assumes "inj_on recName (set rs)" and "G = foldl graphAdd Map.empty rs"
  shows "graph_good G" and "r \<in> set rs \<Longrightarrow> nstatus (nodeAt G (toStateName (recName r))) = LOADED
      \<and> nrec (nodeAt G (toStateName (recName r))) = r"
    and "n \<notin> (\<lambda>r. toStateName (recName r)) ` set rs \<Longrightarrow>
      nstatus (nodeAt G n) = INITIALIZED \<and> nrec (nodeAt G n) = nrec (emptyNode n)"
proof -
  have "graph_good G \<and> (\<forall>r \<in> set rs. nstatus (nodeAt G (toStateName (recName r))) = LOADED
      \<and> nrec (nodeAt G (toStateName (recName r))) = r)
    \<and> (\<forall>n. n \<notin> (\<lambda>r. toStateName (recName r)) ` set rs \<longrightarrow>
      nstatus (nodeAt G n) = INITIALIZED \<and> nrec (nodeAt G n) = nrec (emptyNode n))"
    using assms
  proof (induction rs arbitrary: G rule: rev_induct)
    case Nil
    then show ?case by (simp add: graph_good_empty) (simp add: nodeAt_def emptyNode_def)
  next
    case (snoc r rs)
    let ?H = "foldl graphAdd Map.empty rs" and ?n = "toStateName (recName r)"
    have inj: "inj_on recName (set rs)" using snoc.prems(1) by (simp add: inj_on_def)
    note IH = snoc.IH [OF inj refl]
    have G: "G = graphAdd ?H r" using snoc.prems(2) by simp
    show ?case
    proof (cases "pending_at ?H ?n")
      case True
      then have "same_shape (loadNode ?H r) G"
        by (simp add: G graphAdd_def Let_def same_shape_resolve)
      then have "nstatus (nodeAt G m) = nstatus (nodeAt (loadNode ?H r) m)"
        "nrec (nodeAt G m) = nrec (nodeAt (loadNode ?H r) m)" for m
        by (simp_all add: same_shape_def)
      moreover have "toStateName (recName s) \<noteq> ?n" if "s \<in> set rs" for s
        using that IH True by (force simp: pending_at_def)
      ultimately show ?thesis
        using IH graph_good_add [of ?H r] by (auto simp: G load_at)
    next
      case False
      then have "?n \<in> (\<lambda>r. toStateName (recName r)) ` set rs"
        using IH by (auto simp: pending_at_def)
      then have r: "set (rs @ [r]) = set rs" using snoc.prems(1) by (auto simp: inj_on_def)
      have "G = ?H" using False by (simp add: G graphAdd_def Let_def)
      with IH r show ?thesis by simp
    qed
  qed
  then show "graph_good G" "r \<in> set rs \<Longrightarrow> nstatus (nodeAt G (toStateName (recName r))) = LOADED
      \<and> nrec (nodeAt G (toStateName (recName r))) = r"
    "n \<notin> (\<lambda>r. toStateName (recName r)) ` set rs \<Longrightarrow>
      nstatus (nodeAt G n) = INITIALIZED \<and> nrec (nodeAt G n) = nrec (emptyNode n)"
    by blast+
qed

lemma adds_order:
  assumes "inj_on recName (set rs)" and "set rs' = set rs"
    and "G = foldl graphAdd Map.empty rs" and "H = foldl graphAdd Map.empty rs'"
  shows "same_shape G H" and "set (ndesc (nodeAt H a)) = set (ndesc (nodeAt G a))"
proof -
  have inj': "inj_on recName (set rs')" using assms(1,2) by simp
  note shG = adds_shape [OF assms(1,3)] and shH = adds_shape [OF inj' assms(4)]
  show shape: "same_shape G H"
    unfolding same_shape_def
  proof
    fix n
    show "nstatus (nodeAt H n) = nstatus (nodeAt G n) \<and> nrec (nodeAt H n) = nrec (nodeAt G n)"
      using shG(2,3) shH(2,3) assms(2)
      by (cases "n \<in> (\<lambda>r. toStateName (recName r)) ` set rs") auto
  qed
  have "open_at G n" for n
    using shG(2,3) by (cases "n \<in> (\<lambda>r. toStateName (recName r)) ` set rs") (auto simp: open_at_def)
  then show "set (ndesc (nodeAt H a)) = set (ndesc (nodeAt G a))"
    using shG(1) shH(1) shape by (intro ndesc_shape) auto
qed

lemma dagRun_append: "dagRun L I P (xs @ ys) = bindM (dagRun L I P xs) (\<lambda>_. dagRun L I P ys)"
  unfolding dagRun_def
  by (induction xs) (auto simp: bindM_def ret_def fun_eq_iff split: prod.splits sum.splits)

lemma session_pointers: "pointer_count (foldl (opGraph P) Map.empty ops) \<le> sum_list (map op_pointers ops)"
proof -
  have "graph_good (foldl (opGraph P) Map.empty ops) \<and>
    pointer_count (foldl (opGraph P) Map.empty ops) \<le> sum_list (map op_pointers ops)"
  proof (induction ops rule: rev_induct)
    case Nil
    show ?case by (simp add: graph_good_empty) (simp add: pointer_count_def)
  next
    case (snoc x ops)
    then show ?case
      using pointer_count_op [of "foldl (opGraph P) Map.empty ops" P x] by (simp add: graph_good_op)
  qed
  then show ?thesis by blast
qed

lemma foldl_opGraph_adds: "foldl (opGraph P) G (map OpAdd rs) = foldl graphAdd G rs"
  by (induction rs arbitrary: G) simp_all

text \<open>Interlocked nodes do not change any more; accepted records do not change.\<close>

lemma nodeAt_resolve_closed: "\<not> open_at G n \<Longrightarrow> nodeAt (resolve G xs) n = nodeAt G n"
proof (induction xs rule: rev_induct)
  case (snoc x xs)
  have shape: "same_shape G (resolve G xs)" by (rule same_shape_resolve)
  have "\<not> ancestor (resolve G xs) ps n" for ps
    using snoc.prems ancestor_open [of "resolve G xs" ps n] by (auto simp: same_shape_simps [OF shape])
  with snoc show ?case by (simp add: resolve_append citeAncestors_def nodeAt_cite)
qed (simp add: resolve_def)

lemma opGraph_interlocked:
  "nstatus (nodeAt G n) = INTERLOCKED \<Longrightarrow> nodeAt (opGraph P G x) n = nodeAt G n"
proof (cases x)
  case (OpAdd r)
  assume il: "nstatus (nodeAt G n) = INTERLOCKED"
  show ?thesis
  proof (cases "pending_at G (toStateName (recName r))")
    case True
    then have "nodeAt (loadNode G r) n = nodeAt G n"
      using il by (intro load_at(2)) (auto simp: pending_at_def)
    with il True show ?thesis
      by (simp add: OpAdd graphAdd_def Let_def nodeAt_resolve_closed open_at_def)
  qed (simp add: OpAdd graphAdd_def Let_def)
next
  case (OpHarvestAbove th remove)
  then show "nstatus (nodeAt G n) = INTERLOCKED \<Longrightarrow> ?thesis"
    by (simp add: nodeAt_interlockAll ripe_def)
qed simp_all

lemma opGraphs_interlocked:
  "nstatus (nodeAt G n) = INTERLOCKED \<Longrightarrow> nodeAt (foldl (opGraph P) G ops) n = nodeAt G n"
proof (induction ops rule: rev_induct)
  case (snoc x ops)
  then show ?case by (simp add: opGraph_interlocked)
qed simp

lemma opGraph_accepted: "\<not> pending_at G n \<Longrightarrow>
  \<not> pending_at (opGraph P G x) n \<and> nrec (nodeAt (opGraph P G x) n) = nrec (nodeAt G n)"
proof (cases x)
  case (OpAdd r)
  assume acc: "\<not> pending_at G n"
  show ?thesis
  proof (cases "pending_at G (toStateName (recName r))")
    case True
    then have "nodeAt (loadNode G r) n = nodeAt G n"
      using acc by (intro load_at(2)) auto
    with acc True same_shape_resolve [of "loadNode G r"] show ?thesis
      by (simp add: OpAdd graphAdd_def Let_def same_shape_def pending_at_def)
  qed (simp add: OpAdd graphAdd_def Let_def acc)
next
  case (OpHarvestAbove th remove)
  then show "\<not> pending_at G n \<Longrightarrow> ?thesis"
    by (simp add: nodeAt_interlockAll pending_at_def)
qed simp_all

text \<open>The witness policy counts producers.\<close>

lemma polv_witness: "unat (polv witness_evaluate x) \<le> card (producer ` set (ndesc x))"
  using unat_word_of_nat_le by (simp add: polv_def witness_evaluate_def length_witness_select)

lemma polv_descendants: "unat (polv descendants_evaluate x) \<le> length (ndesc x)"
  using unat_word_of_nat_le by (simp add: polv_def descendants_evaluate_def descendants_select_def)

section \<open>A session for the witnesses\<close>

definition rec1 :: ledger_record where
  "rec1 = \<lparr>recName = [generic ''alice'', generic ''1''], recType = GENESIS_RECORD, pointers = [], payload = ''a''\<rparr>"

definition rec2 :: ledger_record where
  "rec2 = \<lparr>recName = [generic ''bob'', generic ''1''], recType = GENERIC_RECORD,
     pointers = [[generic ''alice'', generic ''1'']], payload = ''b''\<rparr>"

definition rec3 :: ledger_record where
  "rec3 = \<lparr>recName = [generic ''carol'', generic ''1''], recType = GENERIC_RECORD,
     pointers = [[generic ''bob'', generic ''1'']], payload = ''c''\<rparr>"

definition demoOps :: "dag_op list" where
  "demoOps = [OpAdd rec3, OpAdd rec1, OpAdd rec2]"

definition demoState :: "memory dag_state" where
  "demoState = \<lparr>waitlist = [], store = Map.empty, tick = 0\<rparr>"

lemma wf_demo [simp]: "wf_record rec1" "wf_record rec2" "wf_record rec3"
  by (simp_all add: wf_record_def rec1_def rec2_def rec3_def)

lemma ops_fit_demo: "ops_fit demoOps" "ops_fit (map OpAdd [rec1, rec2, rec3])"
  "ops_fit (map OpAdd [rec3, rec1, rec2])" "ops_fit (demoOps @ [OpHarvestAbove 1 False])"
  "ops_fit ((demoOps @ [OpHarvestAbove 1 True]) @ [OpAdd rec2])"
  by (simp_all add: ops_fit_def demoOps_def) (simp_all add: rec1_def rec2_def rec3_def)

lemma demo_setup: "ops_fit ops \<Longrightarrow>
  dag_setup ndnTlv mem_getInterface (\<lambda>m. m) (\<lambda>_. True) witness_evaluate demoState ops"
  by (simp add: dag_setup_def tlv.ndn_codec_axioms mem.block_store_axioms
      witness_policy.interlock_policy_axioms dag_fresh_def demoState_def)

section \<open>Properties\<close>

text \<open>C8: every session of the DAG module on a fresh store, its harvests with or without removal, returns
  normally (no exception, no endless search), leaves all other stored objects alone, and implements the abstract
  operations on the graph; what a harvest without removal leaves in the waitlist has no effect on it.\<close>

theorem dag_session_refines:
  assumes "dag_setup L I C ok P st ops"
  shows "runs (dagRun L I P ops) st (\<lambda>_ st'.
    stateGraph L C st' = foldl (opGraph P) Map.empty ops \<and> others_same C st st' \<and> ok (store st'))"
  by (rule session_then [OF assms]) (simp add: dag_inv_in_def)

theorem dag_session_refines_witness:
  "let ops = demoOps @ [OpHarvestAbove 1 False] in
    runs (dagRun ndnTlv mem_getInterface witness_evaluate ops) demoState (\<lambda>_ st'.
      stateGraph ndnTlv (\<lambda>m. m) st' = foldl (opGraph witness_evaluate) Map.empty ops \<and>
      others_same (\<lambda>m. m) demoState st' \<and> True)"
  using dag_session_refines [OF demo_setup [OF ops_fit_demo(4)]] by (simp add: Let_def)

text \<open>C9: after any session the descendants that an edge state lists are sound (each is an accepted
  record that is no genesis record and from which pointers lead to the state) and complete (every
  accepted record that the search for ancestors takes to the state is listed).\<close>

theorem dag_descendants_exact:
  assumes "dag_setup L I C ok P st ops"
  shows "runs (dagRun L I P ops) st (\<lambda>_ st'. let G = stateGraph L C st' in
    \<forall>x a. (x \<in> set (ndesc (nodeAt G a)) \<longrightarrow> citer G x \<and> reaches G x a) \<and>
      (citer G x \<and> ancestor G (parentsAt G x) a \<longrightarrow> x \<in> set (ndesc (nodeAt G a))))"
  by (rule session_then [OF assms])
     (simp add: dag_inv_in_def graph_good_def desc_sound_def desc_complete_def Let_def)

theorem dag_descendants_exact_witness:
  "runs (dagRun ndnTlv mem_getInterface witness_evaluate demoOps) demoState (\<lambda>_ st'.
    let G = stateGraph ndnTlv (\<lambda>m. m) st' in
    \<forall>x a. (x \<in> set (ndesc (nodeAt G a)) \<longrightarrow> citer G x \<and> reaches G x a) \<and>
      (citer G x \<and> ancestor G (parentsAt G x) a \<longrightarrow> x \<in> set (ndesc (nodeAt G a))))"
  by (rule dag_descendants_exact [OF demo_setup [OF ops_fit_demo(1)]])

text \<open>C18: after any session the waitlist is consistent with the graph: whatever is filed is filed under exactly the
  value the policy gives it, every accepted record that is not interlocked is filed, and of the interlocked ones
  exactly those that a harvest without removal returned and no later harvest with removal took out; none, when
  all harvests of the session remove.\<close>

theorem dag_waitlist_exact:
  assumes "dag_setup L I C ok P st ops"
  shows "runs (dagRun L I P ops) st (\<lambda>_ st'. let G = stateGraph L C st' in
    (\<forall>n k. (filed (waitlist st') n k \<longrightarrow> k = polv P (nodeAt G n)) \<and>
      (nstatus (nodeAt G n) = LOADED \<longrightarrow> (filed (waitlist st') n k \<longleftrightarrow> k = polv P (nodeAt G n))) \<and>
      (nstatus (nodeAt G n) = INTERLOCKED \<longrightarrow>
        (filed (waitlist st') n k \<longleftrightarrow> n \<in> keptOf P ops \<and> k = polv P (nodeAt G n)))) \<and>
    (list_all removing ops \<longrightarrow> keptOf P ops = {}))"
proof (rule session_then [OF assms], unfold Let_def, intro conjI allI impI)
  fix t n k assume "dag_inv_in L C ok P (keptOf P ops) t"
  then have good: "graph_good (stateGraph L C t)" "dag_good_in (keptOf P ops) P (stateGraph L C t) (waitlist t)"
    by (simp_all add: dag_inv_in_def)
  note filed = filed_accepted [OF good, of n k]
  show "filed (waitlist t) n k \<Longrightarrow> k = polv P (nodeAt (stateGraph L C t) n)"
    using good(2) by (simp add: dag_good_in_def waitlist_good_def)
  show "filed (waitlist t) n k \<longleftrightarrow> k = polv P (nodeAt (stateGraph L C t) n)"
    if "nstatus (nodeAt (stateGraph L C t) n) = LOADED"
    using filed that by (simp add: pending_at_def)
  show "filed (waitlist t) n k \<longleftrightarrow> n \<in> keptOf P ops \<and> k = polv P (nodeAt (stateGraph L C t) n)"
    if "nstatus (nodeAt (stateGraph L C t) n) = INTERLOCKED"
    using filed that by (simp add: pending_at_def)
qed (rule keptBy_removing)

theorem dag_waitlist_exact_witness:
  "let ops = demoOps @ [OpHarvestAbove 1 False] in
    runs (dagRun ndnTlv mem_getInterface witness_evaluate ops) demoState (\<lambda>_ st'.
    let G = stateGraph ndnTlv (\<lambda>m. m) st' in
    \<forall>n k. (nstatus (nodeAt G n) = LOADED \<longrightarrow>
        (filed (waitlist st') n k \<longleftrightarrow> k = polv witness_evaluate (nodeAt G n))) \<and>
      (nstatus (nodeAt G n) = INTERLOCKED \<longrightarrow>
        (filed (waitlist st') n k \<longleftrightarrow> n \<in> keptOf witness_evaluate ops \<and> k = polv witness_evaluate (nodeAt G n))))"
  unfolding Let_def by (rule runs_mono [OF dag_waitlist_exact [OF demo_setup [OF ops_fit_demo(4)], unfolded Let_def]]) blast

text \<open>C10: \<open>harvestAbove\<close> returns, each once, exactly the accepted records not yet interlocked whose policy value
  reaches the threshold, and marks exactly these interlocked. Together with them it returns again the interlocked
  records above the threshold that an earlier harvest without removal left in the waitlist: none, in a session
  whose harvests all remove.\<close>

theorem harvestAbove_exact:
  assumes "dag_setup L I C ok P st ops"
  shows "runs (dagRun L I P ops) st (\<lambda>_ st1. let G = stateGraph L C st1 in
    runs (harvestAbove L I th remove) st1 (\<lambda>rs st2.
      (\<exists>ns. distinct ns \<and> rs = map (\<lambda>n. nrec (nodeAt G n)) ns
        \<and> set ns = {n. (nstatus (nodeAt G n) = LOADED \<or> n \<in> keptOf P ops) \<and> th \<le> polv P (nodeAt G n)}
        \<and> (list_all removing ops \<longrightarrow> set ns = {n. nstatus (nodeAt G n) = LOADED \<and> th \<le> polv P (nodeAt G n)}))
      \<and> stateGraph L C st2 = interlockAll G {n. nstatus (nodeAt G n) = LOADED \<and> th \<le> polv P (nodeAt G n)}))"
proof (rule session_then [OF assms], unfold Let_def)
  fix t assume inv: "dag_inv_in L C ok P (keptOf P ops) t"
  have none: "list_all removing ops \<Longrightarrow> keptOf P ops = {}" by (rule keptBy_removing)
  show "runs (harvestAbove L I th remove) t (\<lambda>rs st2.
      (\<exists>ns. distinct ns \<and> rs = map (\<lambda>n. nrec (nodeAt (stateGraph L C t) n)) ns
        \<and> set ns = {n. (nstatus (nodeAt (stateGraph L C t) n) = LOADED \<or> n \<in> keptOf P ops)
            \<and> th \<le> polv P (nodeAt (stateGraph L C t) n)}
        \<and> (list_all removing ops \<longrightarrow> set ns = {n. nstatus (nodeAt (stateGraph L C t) n) = LOADED
            \<and> th \<le> polv P (nodeAt (stateGraph L C t) n)}))
      \<and> stateGraph L C st2 = interlockAll (stateGraph L C t)
          {n. nstatus (nodeAt (stateGraph L C t) n) = LOADED \<and> th \<le> polv P (nodeAt (stateGraph L C t) n)})"
    by (rule runs_mono [OF dag_module.harvestAbove_inv_in [OF dag_setup_module [OF assms] inv refl, of th remove]])
       (use none in \<open>auto simp: ripe_def\<close>)
qed

theorem harvestAbove_exact_witness:
  "runs (dagRun ndnTlv mem_getInterface witness_evaluate demoOps) demoState (\<lambda>_ st1.
    let G = stateGraph ndnTlv (\<lambda>m. m) st1 in
    runs (harvestAbove ndnTlv mem_getInterface 2 True) st1 (\<lambda>rs st2.
      (\<exists>ns. distinct ns \<and> set ns = {n. nstatus (nodeAt G n) = LOADED \<and> 2 \<le> polv witness_evaluate (nodeAt G n)} \<and>
        rs = map (\<lambda>n. nrec (nodeAt G n)) ns \<and> stateGraph ndnTlv (\<lambda>m. m) st2 = interlockAll G (set ns))))"
proof -
  have "list_all removing demoOps" by (simp add: demoOps_def)
  then show ?thesis
    unfolding Let_def
    by (intro runs_mono [OF harvestAbove_exact [where th = 2 and remove = True, OF demo_setup [OF ops_fit_demo(1)],
        unfolded Let_def]]) (auto elim!: runs_mono)
qed

text \<open>C16: with the witness policy a record is returned by a harvest, with or without removal, only if accepted
  records of at least threshold many different producers reach it by their pointers.\<close>

theorem harvest_needs_witnesses:
  assumes "dag_setup L I C ok witness_evaluate st ops"
  shows "runs (dagRun L I witness_evaluate ops) st (\<lambda>_ st1. let G = stateGraph L C st1 in
    runs (harvestAbove L I th remove) st1 (\<lambda>rs _. \<forall>r \<in> set rs. \<exists>D.
      D \<subseteq> {x. citer G x \<and> reaches G x (toStateName (recName r))} \<and> unat th \<le> card (producer ` D)))"
proof (rule session_then [OF assms], unfold Let_def)
  fix t assume inv: "dag_inv_in L C ok witness_evaluate (keptOf witness_evaluate ops) t"
  let ?G = "stateGraph L C t"
  let ?K = "keptOf witness_evaluate ops"
  note m = dag_setup_module [OF assms]
  have kept: "n \<in> ?K \<Longrightarrow> nstatus (nodeAt ?G n) = INTERLOCKED" for n
    using inv by (auto simp: dag_inv_in_def intro: kept_closed)
  have vw: "dag_view L C ok t ?G (waitlist t) t" using inv by (simp add: dag_view_iff dag_inv_in_def)
  have name: "toStateName (recName (nrec (nodeAt ?G n))) = n" if "nstatus (nodeAt ?G n) = LOADED \<or> n \<in> ?K" for n
  proof -
    have "\<not> pending_at ?G n" using that kept by (auto simp: pending_at_def)
    then have "n \<in> dom ?G" by (rule accepted_dom)
    then obtain x where x: "?G n = Some x" by blast
    have "dag_store L I C ok" using m by (simp add: dag_module_def)
    from dag_store.graph_node_wf(2,3) [OF this vw x] show ?thesis
      using x is_state_nameE [of n] by simp
  qed
  have many: "unat th \<le> card (producer ` set (ndesc (nodeAt ?G n)))" if "th \<le> polv witness_evaluate (nodeAt ?G n)" for n
    using that polv_witness [of "nodeAt ?G n"] by (simp add: word_le_nat_alt)
  have sound: "set (ndesc (nodeAt ?G n)) \<subseteq> {x. citer ?G x \<and> reaches ?G x n}" for n
    using inv by (auto simp: dag_inv_in_def graph_good_def desc_sound_def)
  show "runs (harvestAbove L I th remove) t (\<lambda>rs _. \<forall>r \<in> set rs. \<exists>D.
      D \<subseteq> {x. citer ?G x \<and> reaches ?G x (toStateName (recName r))} \<and> unat th \<le> card (producer ` D))"
  proof (rule runs_mono [OF dag_module.harvestAbove_inv_in [OF m inv refl, of th remove]], elim conjE exE, intro ballI)
    fix rs ns r
    assume "rs = map (\<lambda>n. nrec (nodeAt ?G n)) ns" "r \<in> set rs"
      "set ns = {n. (nstatus (nodeAt ?G n) = LOADED \<or> n \<in> ?K) \<and> th \<le> polv witness_evaluate (nodeAt ?G n)}"
    then obtain n where "r = nrec (nodeAt ?G n)" "nstatus (nodeAt ?G n) = LOADED \<or> n \<in> ?K"
      "th \<le> polv witness_evaluate (nodeAt ?G n)" by auto
    then show "\<exists>D. D \<subseteq> {x. citer ?G x \<and> reaches ?G x (toStateName (recName r))} \<and> unat th \<le> card (producer ` D)"
      using sound [of n] many [of n] name [of n] by (intro exI [of _ "set (ndesc (nodeAt ?G n))"]) simp
  qed
qed

theorem harvest_needs_witnesses_witness:
  "runs (dagRun ndnTlv mem_getInterface witness_evaluate demoOps) demoState (\<lambda>_ st1.
    let G = stateGraph ndnTlv (\<lambda>m. m) st1 in
    runs (harvestAbove ndnTlv mem_getInterface 2 True) st1 (\<lambda>rs _. \<forall>r \<in> set rs. \<exists>D.
      D \<subseteq> {x. citer G x \<and> reaches G x (toStateName (recName r))} \<and> unat (2 :: 32 word) \<le> card (producer ` D)))"
  by (rule harvest_needs_witnesses [OF demo_setup [OF ops_fit_demo(1)]])

text \<open>Harvesting again at once: with removal it returns nothing, no record is reported interlocked twice;
  without, it returns the same records again (\<open>tests/unit-tests/dag-edge.t.cpp\<close> relies on that).\<close>

lemma harvest_again:
  assumes "dag_setup L I C ok P st ops"
  shows "runs (dagRun L I P ops) st (\<lambda>_ st1. runs (harvestAbove L I th remove) st1 (\<lambda>rs1 st2.
    runs (harvestAbove L I th remove) st2 (\<lambda>rs2 st3. stateGraph L C st3 = stateGraph L C st2
      \<and> set rs2 = (if remove then {} else set rs1))))"
proof (rule session_then [OF assms])
  let ?K = "keptOf P ops"
  fix t assume inv: "dag_inv_in L C ok P ?K t"
  define G where "G = stateGraph L C t"
  have closed: "n \<in> ?K \<Longrightarrow> nstatus (nodeAt G n) = INTERLOCKED" for n
    using inv by (auto simp: dag_inv_in_def G_def intro: kept_closed)
  note harvest = dag_module.harvestAbove_inv_in [OF dag_setup_module [OF assms]]
  show "runs (harvestAbove L I th remove) t (\<lambda>rs1 st2. runs (harvestAbove L I th remove) st2
      (\<lambda>rs2 st3. stateGraph L C st3 = stateGraph L C st2 \<and> set rs2 = (if remove then {} else set rs1)))"
  proof (rule runs_mono [OF harvest [OF inv G_def, of th remove]], elim conjE exE)
    fix rs1 u ns
    assume u: "dag_inv_in L C ok P (opKept P G ?K (OpHarvestAbove th remove)) u"
      and rs1: "rs1 = map (\<lambda>n. nrec (nodeAt G n)) ns"
      and ns: "set ns = {n. (nstatus (nodeAt G n) = LOADED \<or> n \<in> ?K) \<and> th \<le> polv P (nodeAt G n)}"
      and Gu: "stateGraph L C u = interlockAll G (ripe P th G)"
    let ?H = "interlockAll G (ripe P th G)" and ?L = "opKept P G ?K (OpHarvestAbove th remove)"
    have pol: "polv P (nodeAt ?H n) = polv P (nodeAt G n)" "nrec (nodeAt ?H n) = nrec (nodeAt G n)" for n
      by (simp_all add: nodeAt_interlockAll polv_def)
    have st: "nstatus (nodeAt ?H n) = (if n \<in> ripe P th G then INTERLOCKED else nstatus (nodeAt G n))" for n
      by (simp add: nodeAt_interlockAll)
    have none: "ripe P th ?H = {}" unfolding ripe_def [of P th ?H] pol(1) st by (auto simp: ripe_def)
    have again: "{n. (nstatus (nodeAt ?H n) = LOADED \<or> n \<in> ?L) \<and> th \<le> polv P (nodeAt ?H n)} =
        (if remove then {} else set ns)"
      unfolding ns pol(1) st by (auto simp: ripe_def)
    show "runs (harvestAbove L I th remove) u (\<lambda>rs2 st3. stateGraph L C st3 = stateGraph L C u
        \<and> set rs2 = (if remove then {} else set rs1))"
      by (rule runs_mono [OF harvest [OF u Gu [symmetric], of th remove]])
         (unfold again none, auto simp: Gu rs1 pol(2))
  qed
qed

text \<open>\<open>harvestBelow\<close> and \<open>harvestAbove\<close> split the filed records: what \<open>harvestBelow\<close> returns
  are the records of the filed states whose value is below the threshold; it changes no state.\<close>

lemma harvestBelow_exact:
  assumes "dag_setup L I C ok P st ops"
  shows "runs (dagRun L I P ops) st (\<lambda>_ st1. let G = stateGraph L C st1 in
    runs (harvestBelow L I th) st1 (\<lambda>rs st2. stateGraph L C st2 = G \<and> waitlist st2 = waitlist st1 \<and>
      set rs = (\<lambda>n. nrec (nodeAt G n)) `
        {n. (nstatus (nodeAt G n) = LOADED \<or> n \<in> keptOf P ops) \<and> polv P (nodeAt G n) < th}))"
  by (rule session_then [OF assms])
     (auto simp: Let_def elim!: runs_mono dest!: dag_module.harvestBelow_inv_in [OF dag_setup_module [OF assms], of _ _ th])

text \<open>Adding a record under a name that is already accepted changes nothing at all and returns the
  state name: the first record stays.\<close>

lemma add_duplicate:
  assumes "dag_setup L I C ok P st ops"
  shows "runs (dagRun L I P ops) st (\<lambda>_ st1. \<forall>r.
    nstatus (nodeAt (stateGraph L C st1) (toStateName (recName r))) \<noteq> INITIALIZED \<longrightarrow>
    add L I P r st1 = (Inr (toStateName (recName r)), st1))"
  by (rule session_then [OF assms])
     (auto intro: dag_module.add_duplicate_inv [OF dag_setup_module [OF assms]] simp: pending_at_def)

text \<open>C20: an interlocked node is final: no later sequence of operations changes its status, record or
  descendants.\<close>

theorem interlocked_final:
  assumes "dag_setup L I C ok P st (ops @ ops')"
  shows "runs (dagRun L I P ops) st (\<lambda>_ st1. runs (dagRun L I P ops') st1 (\<lambda>_ st2. \<forall>n.
    nstatus (nodeAt (stateGraph L C st1) n) = INTERLOCKED \<longrightarrow>
    nodeAt (stateGraph L C st2) n = nodeAt (stateGraph L C st1) n))"
proof -
  have "runs (dagRun L I P (ops @ ops')) st (\<lambda>_ st'. stateGraph L C st' = foldl (opGraph P) Map.empty (ops @ ops'))"
    by (rule session_then [OF assms])
  then have two: "runs (dagRun L I P ops) st (\<lambda>_ st1. runs (dagRun L I P ops') st1 (\<lambda>_ st2.
      stateGraph L C st2 = foldl (opGraph P) Map.empty (ops @ ops')))"
    by (simp add: dagRun_append runs_rules)
  have "dag_setup L I C ok P st ops" using assms by (simp add: dag_setup_def ops_fit_def)
  from runs_conj [OF session_inv [OF this] two] show ?thesis
    by (auto simp: opGraphs_interlocked elim!: runs_mono)
qed

theorem interlocked_final_witness:
  "runs (dagRun ndnTlv mem_getInterface witness_evaluate (demoOps @ [OpHarvestAbove 1 True])) demoState (\<lambda>_ st1.
    runs (dagRun ndnTlv mem_getInterface witness_evaluate [OpAdd rec2]) st1 (\<lambda>_ st2. \<forall>n.
      nstatus (nodeAt (stateGraph ndnTlv (\<lambda>m. m) st1) n) = INTERLOCKED \<longrightarrow>
      nodeAt (stateGraph ndnTlv (\<lambda>m. m) st2) n = nodeAt (stateGraph ndnTlv (\<lambda>m. m) st1) n))"
  by (rule interlocked_final [OF demo_setup [OF ops_fit_demo(5)]])

text \<open>C17: the order in which records arrive does not matter: two sessions that add the same records, in
  any order and with repetitions, end in the same statuses, records and descendants.\<close>

theorem arrival_order_irrelevant:
  assumes "dag_setup L I C ok P st (map OpAdd rs)" and "dag_setup L I C ok P st (map OpAdd rs')"
    and "set rs = set rs'" and "inj_on recName (set rs)"
  shows "runs (dagRun L I P (map OpAdd rs)) st (\<lambda>_ st1. runs (dagRun L I P (map OpAdd rs')) st (\<lambda>_ st2.
    nodeAt (stateGraph L C st1) = nodeAt (stateGraph L C st2)))"
proof (rule session_then [OF assms(1)], rule session_then [OF assms(2)], rule ext)
  fix t u n
  assume t: "dag_inv_in L C ok P (keptOf P (map OpAdd rs)) t" "stateGraph L C t = foldl (opGraph P) Map.empty (map OpAdd rs)"
    and u: "dag_inv_in L C ok P (keptOf P (map OpAdd rs')) u" "stateGraph L C u = foldl (opGraph P) Map.empty (map OpAdd rs')"
  note order = adds_order [OF assms(4) assms(3) [symmetric] t(2) [unfolded foldl_opGraph_adds] u(2) [unfolded foldl_opGraph_adds]]
  note m = dag_setup_module [OF assms(1)]
  have "ndesc (nodeAt (stateGraph L C t) n) = ndesc (nodeAt (stateGraph L C u) n)"
    using dag_module.ndesc_set_wf [OF m t(1), of n] dag_module.ndesc_set_wf [OF m u(1), of n] order(2) [of n]
    by (simp add: set_wf_def sorted_distinct_set_unique)
  with order(1) show "nodeAt (stateGraph L C t) n = nodeAt (stateGraph L C u) n"
    by (simp add: same_shape_def)
qed

theorem arrival_order_irrelevant_witness:
  "runs (dagRun ndnTlv mem_getInterface witness_evaluate (map OpAdd [rec1, rec2, rec3])) demoState (\<lambda>_ st1.
    runs (dagRun ndnTlv mem_getInterface witness_evaluate (map OpAdd [rec3, rec1, rec2])) demoState (\<lambda>_ st2.
      nodeAt (stateGraph ndnTlv (\<lambda>m. m) st1) = nodeAt (stateGraph ndnTlv (\<lambda>m. m) st2)))"
proof (rule arrival_order_irrelevant [OF demo_setup [OF ops_fit_demo(2)] demo_setup [OF ops_fit_demo(3)]])
  show "set [rec1, rec2, rec3] = set [rec3, rec1, rec2]" by auto
  show "inj_on recName (set [rec1, rec2, rec3])"
    by (simp add: inj_on_def rec1_def rec2_def rec3_def generic_def)
qed

text \<open>C19: the search for ancestors ends and returns exactly the nodes that are reachable from the
  pointers through accepted records that are not interlocked, stopping at pending ones, and it records
  the searching state at each pending node it meets.\<close>

theorem getAncestors_exact:
  assumes "dag_setup L I C ok P st ops" and "wf_state s" and "length (pointers (erecord s)) < 2 ^ 30"
  shows "runs (dagRun L I P ops) st (\<lambda>_ st1. let G = stateGraph L C st1; ps = parents (erecord s) in
    runs (getAncestors L I s) st1 (\<lambda>r st2. set r = {a. ancestor G ps a} \<and>
      stateGraph L C st2 = pend G (stateName s) {a. ancestor G ps a} \<and> waitlist st2 = waitlist st1))"
proof -
  have few: "pointer_count (foldl (opGraph P) Map.empty ops) < 2 ^ 30"
    using assms(1) session_pointers [of P ops] by (simp add: dag_setup_def ops_fit_def)
  have "dag_store L I C ok" using dag_setup_module [OF assms(1)] by (simp add: dag_module_def)
  note search = dag_store.getAncestors_view [OF this _ assms(2)]
  show ?thesis
  proof (rule session_then [OF assms(1)], unfold Let_def)
    fix t assume inv: "dag_inv_in L C ok P (keptOf P ops) t" and G: "stateGraph L C t = foldl (opGraph P) Map.empty ops"
    have vw: "dag_view L C ok t (stateGraph L C t) (waitlist t) t"
      using inv by (simp add: dag_view_iff dag_inv_in_def)
    have "small (stateGraph L C t) (parents (erecord s))"
      using inv few assms(3) by (intro small_parents) (simp_all add: dag_inv_in_def graph_good_def G parents_def)
    then show "runs (getAncestors L I s) t (\<lambda>r st2. set r = {a. ancestor (stateGraph L C t) (parents (erecord s)) a} \<and>
      stateGraph L C st2 = pend (stateGraph L C t) (stateName s) {a. ancestor (stateGraph L C t) (parents (erecord s)) a} \<and>
      waitlist st2 = waitlist t)"
      by (intro runs_mono [OF search [OF vw]]) (auto simp: dag_view_iff)
  qed
qed

theorem getAncestors_exact_witness:
  "runs (dagRun ndnTlv mem_getInterface witness_evaluate demoOps) demoState (\<lambda>_ st1.
    let G = stateGraph ndnTlv (\<lambda>m. m) st1; ps = parents (erecord ((construct [] 0 0)\<lparr>erecord := rec3\<rparr>)) in
    runs (getAncestors ndnTlv mem_getInterface ((construct [] 0 0)\<lparr>erecord := rec3\<rparr>)) st1 (\<lambda>r st2.
      set r = {a. ancestor G ps a} \<and>
      stateGraph ndnTlv (\<lambda>m. m) st2 = pend G (stateName ((construct [] 0 0)\<lparr>erecord := rec3\<rparr>)) {a. ancestor G ps a} \<and>
      waitlist st2 = waitlist st1))"
  by (rule getAncestors_exact [OF demo_setup [OF ops_fit_demo(1)]])
     (simp_all add: wf_state_def construct_def rec3_def)

end
