(* ===== verification/Segment_Producer.thy ===== *)
theory Segment_Producer
  imports Nack
begin

text \<open>
  Segmented replies (\<open>src/util/segment/producer\<close>): \<open>Producer\<close> cuts an encoded block into Data packets
  \<open>/prefix/version/segment\<close> and answers interests for them. Signing and packet matching are library
  code, the parameter \<open>face_lib\<close>. Main facts: for sane sizes the store is never empty, its segments
  are numbered consecutively, carry the same final block, none exceeds the maximal size, and their
  contents in order are the encoded block again.
\<close>

text \<open>\<open>signWith who d\<close>: the signed packet; \<open>matches i d\<close>: \<open>Interest::matchesData\<close>.\<close>

record face_lib =
  signWith :: "name \<Rightarrow> data \<Rightarrow> data"
  matches :: "interest \<Rightarrow> data \<Rightarrow> bool"

datatype packet = PutData data | PutNack interest

record producer_options =
  prodSigner :: name
  prodFreshness :: int
  prodMaxSegment :: nat

record seg_producer =
  prodPrefix :: name
  prodVersioned :: name
  prodStore :: "data list"

section \<open>Cutting the block\<close>

text \<open>The loop variables \<open>total\<close>, \<open>copyOffset\<close> and \<open>copySize\<close> are of type \<open>int\<close>: a value that does not
  fit makes \<open>memcpy\<close> read outside the block. A maximal size of 0 divides by zero; the size of an
  encoded block is never 0 (it would wrap around).\<close>

definition populateOne :: "ndn \<Rightarrow> producer_options \<Rightarrow> name \<Rightarrow> bytes \<Rightarrow> data list \<Rightarrow> nat \<Rightarrow> exn + data list" where
  "populateOne L opts versioned buf sto count =
     (let copyOffset = count * prodMaxSegment opts;
          copySize = (if prodMaxSegment opts < length buf - copyOffset
                      then prodMaxSegment opts else length buf - copyOffset) in
      if copyOffset \<ge> 2 ^ 31 \<or> copySize \<ge> 2 ^ 31 then Inl (UndefinedBehaviour ''memcpy'')
      else Inr (sto @ [(emptyData (versioned @ [segmentComp L (length sto)]))
        \<lparr>freshness := prodFreshness opts,
          content := Block tlv_Content (take copySize (drop copyOffset buf))\<rparr>]))"

definition populateStore :: "ndn \<Rightarrow> face_lib \<Rightarrow> producer_options \<Rightarrow> name \<Rightarrow> block \<Rightarrow> exn + data list" where
  "populateStore L F opts versioned b =
     (let buf = wire L b in
      if buf = [] \<or> prodMaxSegment opts = 0 then Inl (UndefinedBehaviour ''division by zero'')
      else let total = (length buf - 1) div prodMaxSegment opts + 1 in
        if total \<ge> 2 ^ 31 then Inl (UndefinedBehaviour ''segment count'')
        else bindE (foldE (populateOne L opts versioned buf) [] [0..<total]) (\<lambda>sto.
          let sto = (if sto = [] then [(emptyData (versioned @ [segmentComp L 0]))\<lparr>freshness := prodFreshness opts\<rparr>]
                     else sto);
              finalBlockId = segmentComp L (length sto - 1) in
          Inr (map (\<lambda>d. signWith F (prodSigner opts) (d\<lparr>finalBlock := Some finalBlockId\<rparr>)) sto)))"

text \<open>The constructor: without a version component at the end of the name, the clock gives one.\<close>

definition newProducer :: "ndn \<Rightarrow> face_lib \<Rightarrow> producer_options \<Rightarrow> nat \<Rightarrow> name \<Rightarrow> block \<Rightarrow> exn + seg_producer" where
  "newProducer L F opts now pre b =
     (let (pfx, versioned) = (if pre \<noteq> [] \<and> isVersion L (last pre) then (name_prefix pre (- 1), pre)
                              else (pre, pre @ [versionComp L now])) in
      bindE (populateStore L F opts versioned b) (\<lambda>sto.
        Inr \<lparr>prodPrefix = pfx, prodVersioned = versioned, prodStore = sto\<rparr>))"

definition processSegmentInterest :: "ndn \<Rightarrow> face_lib \<Rightarrow> seg_producer \<Rightarrow> interest \<Rightarrow> packet" where
  "processSegmentInterest L F p i =
     (let n = interestName i;
          found = (if length n = length (prodVersioned p) + 1 \<and> readSegment L (last n) \<noteq> None
                   then (let segmentNo = the (readSegment L (last n)) in
                     if segmentNo < length (prodStore p) then Some (prodStore p ! segmentNo) else None)
                   else if matches F i (prodStore p ! 0) then Some (prodStore p ! 0) else None) in
      case found of Some d \<Rightarrow> PutData d | None \<Rightarrow> PutNack i)"

section \<open>Segments make up the block\<close>

text \<open>What signing may change: only the signature.\<close>

definition signs :: "face_lib \<Rightarrow> bool" where
  "signs F \<longleftrightarrow> (\<forall>who d. \<exists>s. signWith F who d = d\<lparr>signature := s\<rparr>)"

definition segment_of :: "ndn \<Rightarrow> producer_options \<Rightarrow> name \<Rightarrow> bytes \<Rightarrow> nat \<Rightarrow> data" where
  "segment_of L opts versioned buf k = (emptyData (versioned @ [segmentComp L k]))
     \<lparr>freshness := prodFreshness opts,
      content := Block tlv_Content (take (prodMaxSegment opts) (drop (k * prodMaxSegment opts) buf))\<rparr>"

lemma populateOne_fits:
  assumes "length buf < 2 ^ 31" and "k * prodMaxSegment opts < length buf" and "length sto = k"
  shows "populateOne L opts versioned buf sto k = Inr (sto @ [segment_of L opts versioned buf k])"
  using assms by (auto simp: populateOne_def segment_of_def Let_def min_def)

lemma populate_loop:
  assumes "length buf < 2 ^ 31" and "\<forall>k < m. k * prodMaxSegment opts < length buf"
  shows "foldE (populateOne L opts versioned buf) [] [0..<m] = Inr (map (segment_of L opts versioned buf) [0..<m])"
  using assms
proof (induction m)
  case (Suc m)
  then show ?case by (simp add: foldE_append populateOne_fits)
qed simp

lemma segments_below: "0 < (M :: nat) \<Longrightarrow> k < (len - 1) div M + 1 \<Longrightarrow> 0 < len \<Longrightarrow> k * M < len"
proof -
  assume "0 < M" "k < (len - 1) div M + 1" "0 < len"
  then have "k * M \<le> (len - 1) div M * M" by (intro mult_le_mono1) simp
  also have "\<dots> \<le> len - 1" by (rule div_times_less_eq_dividend)
  finally show ?thesis using \<open>0 < len\<close> by simp
qed

lemma segments_cover: "concat (map (\<lambda>k. take M (drop (k * M) xs)) [0..<m]) = take (m * M) xs"
proof (induction m)
  case (Suc m)
  have "take (M + m * M) xs = take (m * M) xs @ take M (drop (m * M) xs)"
    using take_add [of "m * M" M xs] by (simp add: add.commute)
  then show ?case using Suc by simp
qed simp

lemma length_div_cover: "0 < (M :: nat) \<Longrightarrow> len \<le> ((len - 1) div M + 1) * M"
proof -
  assume "0 < M"
  have "len - 1 = (len - 1) div M * M + (len - 1) mod M" by simp
  moreover have "(len - 1) mod M < M" using \<open>0 < M\<close> by simp
  ultimately have "len - 1 < (len - 1) div M * M + M" by linarith
  then show ?thesis by simp
qed

lemma populateStore_segments:
  assumes "0 < prodMaxSegment opts" and "0 < length (wire L b)" and "length (wire L b) < 2 ^ 31"
    and "m = (length (wire L b) - 1) div prodMaxSegment opts + 1"
  shows "populateStore L F opts versioned b = Inr (map (\<lambda>k. signWith F (prodSigner opts)
    ((segment_of L opts versioned (wire L b) k)\<lparr>finalBlock := Some (segmentComp L (m - 1))\<rparr>)) [0..<m])"
proof -
  have below: "\<forall>k < m. k * prodMaxSegment opts < length (wire L b)"
    using segments_below [OF assms(1) _ assms(2)] assms(4) by blast
  have "m \<le> length (wire L b)"
    using assms(1,2,4) div_le_dividend [of "length (wire L b) - 1" "prodMaxSegment opts"] by linarith
  then have m: "m < 2 ^ 31" "0 < m" using assms(3,4) by simp_all
  have "map (segment_of L opts versioned (wire L b)) [0..<m] \<noteq> []" using m(2) by simp
  moreover have "\<not> 2 ^ 31 \<le> m" "\<not> (wire L b = [] \<or> prodMaxSegment opts = 0)" using m assms(1,2) by auto
  ultimately show ?thesis
    unfolding populateStore_def Let_def assms(4) [symmetric] populate_loop [OF assms(3) below]
    by (simp add: comp_def)
qed

lemma populate_segments:
  assumes "signs F" and "0 < prodMaxSegment opts" and "0 < length (wire L b)" and "length (wire L b) < 2 ^ 31"
  shows "\<exists>sto. populateStore L F opts versioned b = Inr sto \<and> sto \<noteq> []
    \<and> concat (map (bvalue \<circ> content) sto) = wire L b
    \<and> (\<forall>k < length sto. dataName (sto ! k) = versioned @ [segmentComp L k]
        \<and> length (bvalue (content (sto ! k))) \<le> prodMaxSegment opts
        \<and> finalBlock (sto ! k) = Some (segmentComp L (length sto - 1))
        \<and> contentType (sto ! k) = tlv_ContentType_Blob)
    \<and> length sto \<le> length (wire L b)"
proof -
  define m where "m = (length (wire L b) - 1) div prodMaxSegment opts + 1"
  define seg where "seg = (\<lambda>k. signWith F (prodSigner opts)
    ((segment_of L opts versioned (wire L b) k)\<lparr>finalBlock := Some (segmentComp L (m - 1))\<rparr>))"
  have seg: "dataName (seg k) = versioned @ [segmentComp L k]" "finalBlock (seg k) = Some (segmentComp L (m - 1))"
    "bvalue (content (seg k)) = take (prodMaxSegment opts) (drop (k * prodMaxSegment opts) (wire L b))"
    "contentType (seg k) = tlv_ContentType_Blob" for k
  proof -
    obtain s where "seg k = ((segment_of L opts versioned (wire L b) k)
        \<lparr>finalBlock := Some (segmentComp L (m - 1))\<rparr>)\<lparr>signature := s\<rparr>"
      using assms(1) unfolding signs_def seg_def by blast
    then show "dataName (seg k) = versioned @ [segmentComp L k]" "finalBlock (seg k) = Some (segmentComp L (m - 1))"
      "bvalue (content (seg k)) = take (prodMaxSegment opts) (drop (k * prodMaxSegment opts) (wire L b))"
      "contentType (seg k) = tlv_ContentType_Blob"
      by (simp_all add: segment_of_def emptyData_def)
  qed
  have m_pos: "0 < m" by (simp add: m_def)
  have m_len: "m \<le> length (wire L b)"
    using assms(2,3) div_le_dividend [of "length (wire L b) - 1" "prodMaxSegment opts"] unfolding m_def by linarith
  have sto: "populateStore L F opts versioned b = Inr (map seg [0..<m])"
    unfolding seg_def by (rule populateStore_segments [OF assms(2-4) m_def])
  have "map (bvalue \<circ> content) (map seg [0..<m]) =
      map (\<lambda>k. take (prodMaxSegment opts) (drop (k * prodMaxSegment opts) (wire L b))) [0..<m]"
    by (simp add: seg(3))
  then have "concat (map (bvalue \<circ> content) (map seg [0..<m])) = take (m * prodMaxSegment opts) (wire L b)"
    by (simp only: segments_cover)
  also have "\<dots> = wire L b"
    using length_div_cover [OF assms(2), of "length (wire L b)"] by (simp add: m_def)
  finally show ?thesis
    using m_pos by (intro exI [of _ "map seg [0..<m]"]) (simp add: sto seg m_len)
qed

lemma populate_whole:
  assumes "signs F" and "0 < prodMaxSegment opts" and "0 < length (wire L b)" and "length (wire L b) < 2 ^ 31"
  shows "\<exists>sto. populateStore L F opts versioned b = Inr sto \<and> sto \<noteq> [] \<and> concat (map (bvalue \<circ> content) sto) = wire L b"
  using populate_segments [OF assms, of versioned] by blast

text \<open>C26: a reply is cut into consecutively numbered segments of at most the maximal size that all carry
  the same final block; put together in order they are the encoded block again.\<close>

theorem producer_segments:
  assumes "signs F" and "0 < prodMaxSegment opts" and "0 < length (wire L b)" and "length (wire L b) < 2 ^ 31"
  shows "\<exists>sto. populateStore L F opts versioned b = Inr sto \<and> sto \<noteq> []
    \<and> concat (map (bvalue \<circ> content) sto) = wire L b
    \<and> (\<forall>k < length sto. dataName (sto ! k) = versioned @ [segmentComp L k]
        \<and> length (bvalue (content (sto ! k))) \<le> prodMaxSegment opts
        \<and> finalBlock (sto ! k) = Some (segmentComp L (length sto - 1)))"
  using populate_segments [OF assms, of versioned] by blast

definition demoFace :: face_lib where
  "demoFace = \<lparr>signWith = (\<lambda>who d. d\<lparr>signature := ''s''\<rparr>), matches = (\<lambda>i d. interestName i = dataName d)\<rparr>"

text \<open>An interest for a segment number is answered with that segment if the store has it, and with a
  network Nack otherwise.\<close>

lemma producer_answers:
  assumes "ndn_codec L" and "k < 2 ^ 64" and "interestName i = prodVersioned p @ [segmentComp L k]"
  shows "processSegmentInterest L F p i =
    (if k < length (prodStore p) then PutData (prodStore p ! k) else PutNack i)"
proof -
  have "readSegment L (segmentComp L k) = Some k"
    using assms(1,2) by (simp add: ndn_codec.readSegment_segmentComp)
  then show ?thesis by (simp add: processSegmentInterest_def assms(3) Let_def)
qed

end
