(* ===== verification/Sync_Module.thy ===== *)
theory Sync_Module
  imports Dag_Theorems Segment_Producer
begin

text \<open>
  Dissemination (\<open>src/sync\<close>): \<open>LedgerSVSDataStore\<close> gives the sync library access to the storage
  backend, \<open>SyncModule\<close> names and publishes records and turns received publications into records.
  State Vector Sync itself is library code (\<open>svs_lib\<close>): \<open>svsPackets V sp node k n b\<close> are the packets
  that the node \<open>node\<close> of the group \<open>sp\<close> inserts into the data store when it publishes the bytes \<open>b\<close> under
  the name \<open>n\<close> as its publication number \<open>k\<close>, \<open>svsNext\<close> is the number a publication gets.
\<close>

record svs_lib =
  svsPackets :: "name \<Rightarrow> name \<Rightarrow> nat \<Rightarrow> name \<Rightarrow> bytes \<Rightarrow> data list"
  svsNext :: "nat \<Rightarrow> nat"

text \<open>\<open>seqNo\<close> is \<open>m_seqNo\<close> of the module, \<open>svsSeq\<close> the number the library has reached.\<close>

record 's sync_state = "'s dag_state" +
  seqNo :: nat
  svsSeq :: nat

section \<open>The data store\<close>

definition svs_find :: "ndn \<Rightarrow> 's storage_intf \<Rightarrow> interest \<Rightarrow>
    (('s, 'z) dag_state_scheme, data option) cm" where
  "svs_find L I i = catchM
     (bindM (getBlockM I (interestName i)) (\<lambda>b. bindM (liftE (dataOf L b)) (\<lambda>d. ret (Some d))))
     is_runtime_error (\<lambda>_. ret None)"

definition svs_insert :: "ndn \<Rightarrow> 's storage_intf \<Rightarrow> data \<Rightarrow> (('s, 'z) dag_state_scheme, unit) cm" where
  "svs_insert L I d = addBlockM I (dataName d) (dataBlock L d)"

section \<open>Naming and publishing\<close>

definition getNextName :: "ndn \<Rightarrow> name \<Rightarrow> (('s, 'z) sync_state_scheme, name) cm" where
  "getNextName L ident = getsM (\<lambda>st. ident @ [sequenceComp L ((seqNo st + 1) mod 2 ^ 64)])"

definition publishRecord :: "ndn \<Rightarrow> 's storage_intf \<Rightarrow> svs_lib \<Rightarrow> name \<Rightarrow> name \<Rightarrow> ledger_record \<Rightarrow>
    (('s, 'z) sync_state_scheme, name) cm" where
  "publishRecord L I V sp ident r =
     bindM (getNextName L ident) (\<lambda>n.
     bindM (getsM svsSeq) (\<lambda>k.
     bindM (forM (svs_insert L I) (svsPackets V sp ident (svsNext V k) n (wire L (prepareContent L r)))) (\<lambda>_.
     bindM (modifyM (\<lambda>st. st\<lparr>svsSeq := svsNext V k, seqNo := svsNext V k\<rparr>)) (\<lambda>_.
     ret n))))"

text \<open>The subscription of the constructor: \<open>Record(name, Block(data))\<close> goes to the yield callback.\<close>

definition onPublication :: "ndn \<Rightarrow> (ledger_record \<Rightarrow> ('st, unit) cm) \<Rightarrow> name \<Rightarrow> bytes \<Rightarrow> ('st, unit) cm" where
  "onPublication L yield n bytes =
     bindM (liftE (bindE (of_option (TlvError ''Block'') (readBlock L bytes)) (recordOfContent L n))) yield"

section \<open>What was published is what arrives\<close>

text \<open>What the code relies on: publications are numbered one by one; the packets of a publication are
  named by node, sync prefix and number (the rule \<open>dag record\<close> of the sample trust schema, the fixture of
  the tests), followed by version and segment where the content is cut into several packets.\<close>

definition svs_counts :: "svs_lib \<Rightarrow> bool" where
  "svs_counts V \<longleftrightarrow> (\<forall>k. svsNext V k = k + 1)"

definition syncDataName :: "ndn \<Rightarrow> name \<Rightarrow> name \<Rightarrow> nat \<Rightarrow> name" where
  "syncDataName L sp node k = node @ sp @ [numberComp L k]"

definition svs_packet_names :: "ndn \<Rightarrow> svs_lib \<Rightarrow> bool" where
  "svs_packet_names L V \<longleftrightarrow> (\<forall>sp node k n b. let ds = svsPackets V sp node k n b in
     ds \<noteq> [] \<and> distinct (map dataName ds)
     \<and> (\<forall>d \<in> set ds. \<exists>suf. dataName d = syncDataName L sp node k @ suf))"

definition demoSvs :: "ndn \<Rightarrow> svs_lib" where
  "demoSvs L = \<lparr>svsPackets = (\<lambda>sp node k n b.
       [(emptyData (syncDataName L sp node k))\<lparr>content := Block tlv_Content (wire L (nameBlock L n) @ b)\<rparr>]),
     svsNext = (\<lambda>k. k + 1)\<rparr>"

lemma demoSvs [simp]: "svs_counts (demoSvs L)" "svs_packet_names L (demoSvs L)"
  by (simp_all add: svs_counts_def svs_packet_names_def demoSvs_def emptyData_def)

text \<open>What a participant receives for a published record is that record under its published name.\<close>

lemma published_record_arrives:
  assumes "ndn_codec L" and "wf_record r"
  shows "onPublication L yield n (wire L (prepareContent L r)) = yield (r\<lparr>recName := n\<rparr>)"
proof -
  have "tlv_codec L" using assms(1) by (simp add: ndn_codec_def)
  then have "bindE (of_option (TlvError ''Block'') (readBlock L (wire L (prepareContent L r)))) (recordOfContent L n) =
      Inr (r\<lparr>recName := n\<rparr>)"
    using assms(2) by (simp add: tlv_codec.readBlock_wire tlv_codec.recordOfContent_prepareContent wf_record_def)
  then show ?thesis by (simp add: onPublication_def bindM_def liftE_def fun_eq_iff)
qed

section \<open>Publishing on a store\<close>

text \<open>The contents of a store after packets were inserted.\<close>

fun putPackets :: "ndn \<Rightarrow> data list \<Rightarrow> (name \<rightharpoonup> block) \<Rightarrow> (name \<rightharpoonup> block)" where
  "putPackets L [] c = c"
| "putPackets L (d # ds) c = putPackets L ds (c(dataName d \<mapsto> dataBlock L d))"

lemma putPackets_other: "n \<notin> dataName ` set ds \<Longrightarrow> putPackets L ds c n = c n"
  by (induction ds arbitrary: c) auto

lemma putPackets_in: "distinct (map dataName ds) \<Longrightarrow> d \<in> set ds \<Longrightarrow> putPackets L ds c (dataName d) = Some (dataBlock L d)"
  by (induction ds arbitrary: c) (auto simp: putPackets_other)

lemma putPackets_cases: "putPackets L ds c n = Some b \<Longrightarrow> c n = Some b \<or> n \<in> dataName ` set ds"
  using putPackets_other [of n ds L c] by auto

context block_store
begin

lemma addBlockM_ok:
  assumes "ok (store st)" and "C (store st) n = None" and "wf_block b"
  shows "\<exists>t. addBlockM I n b st = (Inr (), st\<lparr>store := t\<rparr>) \<and> ok t \<and> C t = (C (store st))(n \<mapsto> b)"
  using adder_new [OF assms] by (auto simp: addBlockM_def)

lemma addBlockM_dup:
  assumes "ok (store st)" and "C (store st) n \<noteq> None"
  shows "\<exists>m. addBlockM I n b st = (Inl (RuntimeError m), st)"
proof -
  obtain m where "adder I n b (store st) = (Inl (RuntimeError m), store st)"
    using adder_dup [OF assms] by blast
  then show ?thesis by (simp add: addBlockM_def)
qed

lemma getBlockM_ok: "ok (store st) \<Longrightarrow> C (store st) n = Some b \<Longrightarrow> getBlockM I n st = (Inr b, st)"
  by (simp add: getBlockM_def getter_Some)

lemma getBlockM_missing:
  "ok (store st) \<Longrightarrow> C (store st) n = None \<Longrightarrow> \<exists>m. getBlockM I n st = (Inl (RuntimeError m), st)"
  using getter_None by (auto simp: getBlockM_def)

lemma deleteBlockM_ok:
  assumes "ok (store st)" and "C (store st) n \<noteq> None"
  shows "\<exists>t. deleteBlockM I n st = (Inr (), st\<lparr>store := t\<rparr>) \<and> ok t \<and> C t = (C (store st))(n := None)"
  using deleter_Some [OF assms] by (auto simp: deleteBlockM_def)

lemma replaceBlock_ok:
  assumes "ok (store st)" and "C (store st) n \<noteq> None" and "wf_block b"
  shows "\<exists>t. bindM (deleteBlockM I n) (\<lambda>_. addBlockM I n b) st = (Inr (), st\<lparr>store := t\<rparr>) \<and> ok t
    \<and> C t = (C (store st))(n \<mapsto> b)"
proof -
  obtain t where t: "deleteBlockM I n st = (Inr (), st\<lparr>store := t\<rparr>)" "ok t" "C t = (C (store st))(n := None)"
    using deleteBlockM_ok [OF assms(1,2)] by blast
  obtain u where "addBlockM I n b (st\<lparr>store := t\<rparr>) = (Inr (), st\<lparr>store := u\<rparr>)" "ok u" "C u = (C t)(n \<mapsto> b)"
    using addBlockM_ok [of "st\<lparr>store := t\<rparr>" n b] t assms(3) by auto
  with t show ?thesis by (intro exI [of _ u]) (simp add: bindM_def)
qed

text \<open>Inserting a list of packets stops at the first name that is taken.\<close>

lemma insertPackets_stop:
  assumes "ok (store st)"
  shows "\<exists>k t r. forM (svs_insert L I) ds st = (r, st\<lparr>store := t\<rparr>) \<and> ok t
    \<and> C t = putPackets L (take k ds) (C (store st)) \<and> (\<forall>n. C (store st) n \<noteq> None \<longrightarrow> C t n = C (store st) n)
    \<and> (r = Inr () \<and> length ds \<le> k \<or> (\<exists>m. r = Inl (RuntimeError m)))
    \<and> ((\<exists>d \<in> set ds. C (store st) (dataName d) \<noteq> None) \<longrightarrow> r \<noteq> Inr ())
    \<and> ((\<forall>d \<in> set ds. C (store st) (dataName d) = None) \<longrightarrow> distinct (map dataName ds) \<longrightarrow> r = Inr ())"
  using assms
proof (induction ds arbitrary: st)
  case Nil
  then show ?case by (intro exI [of _ 0] exI [of _ "store st"] exI [of _ "Inr ()"]) (simp add: ret_def)
next
  case (Cons d ds)
  show ?case
  proof (cases "C (store st) (dataName d)")
    case None
    from addBlockM_ok [OF Cons.prems None, of "dataBlock L d"]
    obtain u where u: "svs_insert L I d st = (Inr (), st\<lparr>store := u\<rparr>)" "ok u"
      "C u = (C (store st))(dataName d \<mapsto> dataBlock L d)" by (auto simp: svs_insert_def)
    have eqs: "store (st\<lparr>store := u\<rparr>) = u" "st\<lparr>store := u\<rparr>\<lparr>store := t\<rparr> = st\<lparr>store := t\<rparr>" for t by simp_all
    from Cons.IH [of "st\<lparr>store := u\<rparr>", unfolded eqs, OF u(2)] obtain k t r where
      IH: "forM (svs_insert L I) ds (st\<lparr>store := u\<rparr>) = (r, st\<lparr>store := t\<rparr>)" "ok t"
        "C t = putPackets L (take k ds) (C u)" "\<forall>n. C u n \<noteq> None \<longrightarrow> C t n = C u n" "r = Inr () \<and> length ds \<le> k \<or> (\<exists>m. r = Inl (RuntimeError m))"
        "(\<exists>d \<in> set ds. C u (dataName d) \<noteq> None) \<longrightarrow> r \<noteq> Inr ()"
        "(\<forall>d \<in> set ds. C u (dataName d) = None) \<longrightarrow> distinct (map dataName ds) \<longrightarrow> r = Inr ()" by blast
    have "forM (svs_insert L I) (d # ds) st = (r, st\<lparr>store := t\<rparr>)" using u(1) IH(1) by (simp add: bindM_def)
    moreover have keep: "\<forall>n. C (store st) n \<noteq> None \<longrightarrow> C t n = C (store st) n"
    proof (intro allI impI)
      fix n assume n: "C (store st) n \<noteq> None"
      then have "n \<noteq> dataName d" using None by metis
      with n IH(4) show "C t n = C (store st) n" by (simp add: u(3))
    qed
    moreover have "(\<exists>x \<in> set (d # ds). C (store st) (dataName x) \<noteq> None) \<longrightarrow> r \<noteq> Inr ()"
    proof (intro impI, elim bexE)
      fix x assume x: "x \<in> set (d # ds)" "C (store st) (dataName x) \<noteq> None"
      then have "x \<in> set ds" "C u (dataName x) \<noteq> None" using None by (auto simp: u(3))
      with IH(6) show "r \<noteq> Inr ()" by blast
    qed
    moreover have "(\<forall>x \<in> set (d # ds). C (store st) (dataName x) = None) \<longrightarrow> distinct (map dataName (d # ds)) \<longrightarrow>
        r = Inr ()"
    proof (intro impI)
      assume free: "\<forall>x \<in> set (d # ds). C (store st) (dataName x) = None" and dist: "distinct (map dataName (d # ds))"
      have "C u (dataName x) = None" if "x \<in> set ds" for x
      proof -
        have "dataName d \<notin> dataName ` set ds" using dist by simp
        then have "dataName x \<noteq> dataName d" using that imageI [of x "set ds" dataName] by metis
        then show ?thesis using free that by (simp add: u(3))
      qed
      with IH(7) dist show "r = Inr ()" by simp
    qed
    ultimately show ?thesis
      using IH(2,3,5) keep u(3) by (intro exI [of _ "Suc k"] exI [of _ t] exI [of _ r]) auto
  next
    case (Some b)
    then obtain m where "addBlockM I (dataName d) (dataBlock L d) st = (Inl (RuntimeError m), st)"
      using addBlockM_dup [OF Cons.prems, of "dataName d" "dataBlock L d"] by auto
    then have "forM (svs_insert L I) (d # ds) st = (Inl (RuntimeError m), st)"
      by (simp add: svs_insert_def bindM_def)
    with Cons.prems Some show ?thesis
      by (intro exI [of _ 0] exI [of _ "store st"] exI [of _ "Inl (RuntimeError m)"]) auto
  qed
qed

end

end
