(* ===== verification/Ledger_Config.thy ===== *)
theory Ledger_Config
  imports Ndn_Lib
begin

text \<open>
  \<open>LedgerConfig\<close> (\<open>src/ledger-config.hpp\<close>, \<open>src/ledger-config.cpp\<close>): reading the JSON configuration.
  \<open>load\<close> works on the members of the object, so an exception leaves those set so far; it is a
  computation on the state \<open>ledger_config\<close>. The JSON reader and the conversions of strings to
  integers, names and signing parameters are library code, the parameter \<open>json_lib\<close>; a property tree
  is a string with an ordered list of named children.
\<close>

datatype json = Json (jdata: string) (jchildren: "(string \<times> json) list")

record json_lib =
  read_json :: "string \<Rightarrow> json option"
  readInt :: "string \<Rightarrow> int option"
  nameOfUri :: "string \<Rightarrow> name option"
  signingInfo :: "string \<Rightarrow> string option"

record ledger_config =
  ledgerPrefix :: name
  instanceSuffix :: name
  freshnessPeriod :: int
  recordZones :: "name list"
  storageType :: string
  storagePath :: string
  policyType :: string
  policyThreshold :: "32 word"
  schemaFile :: string
  interestSigner :: string
  dataSigner :: string
  maxSegmentSize :: nat
  sessionLength :: int

text \<open>The members as the class declares them, before \<open>load\<close>; times are in milliseconds.\<close>

definition default_config :: ledger_config where
  "default_config = \<lparr>ledgerPrefix = [], instanceSuffix = [], freshnessPeriod = 0, recordZones = [],
     storageType = ''storage-memory'', storagePath = '''', policyType = ''policy-descendants'',
     policyThreshold = 1, schemaFile = '''', interestSigner = '''', dataSigner = '''',
     maxSegmentSize = 8000, sessionLength = 30000\<rparr>"

definition get_child_optional :: "json \<Rightarrow> string \<Rightarrow> json option" where
  "get_child_optional j k = map_of (jchildren j) k"

definition get_string :: "json \<Rightarrow> string \<Rightarrow> string \<Rightarrow> string" where
  "get_string j k dflt = (case get_child_optional j k of None \<Rightarrow> dflt | Some c \<Rightarrow> jdata c)"

definition get_int :: "json_lib \<Rightarrow> json \<Rightarrow> string \<Rightarrow> int \<Rightarrow> int" where
  "get_int J j k dflt = (case get_child_optional j k of
     None \<Rightarrow> dflt | Some c \<Rightarrow> (case readInt J (jdata c) of None \<Rightarrow> dflt | Some i \<Rightarrow> i))"

definition uriName :: "json_lib \<Rightarrow> string \<Rightarrow> exn + name" where
  "uriName J u = of_option (StdException ''Name'') (nameOfUri J u)"

definition signing :: "json_lib \<Rightarrow> string \<Rightarrow> exn + string" where
  "signing J s = of_option (StdException ''SigningInfo'') (signingInfo J s)"

text \<open>The sections of \<open>load\<close>, in its order.\<close>

definition loadPrefix :: "json_lib \<Rightarrow> json \<Rightarrow> (ledger_config, unit) cm" where
  "loadPrefix J j = bindM (liftE (uriName J (get_string j ''ledger-prefix'' ''''))) (\<lambda>n.
     bindM (modifyM (\<lambda>c. c\<lparr>ledgerPrefix := n\<rparr>)) (\<lambda>_.
     if n = [] then raise (RuntimeError ''Cannot parse ledger-prefix from the config file'') else ret ()))"

definition loadSuffix :: "json_lib \<Rightarrow> json \<Rightarrow> (ledger_config, unit) cm" where
  "loadSuffix J j = bindM (liftE (uriName J (get_string j ''instance-suffix'' ''''))) (\<lambda>n.
     bindM (modifyM (\<lambda>c. c\<lparr>instanceSuffix := n\<rparr>)) (\<lambda>_.
     if n = [] then raise (RuntimeError ''Cannot parse instance-suffix from the config file'') else ret ()))"

definition loadFreshness :: "json_lib \<Rightarrow> json \<Rightarrow> (ledger_config, unit) cm" where
  "loadFreshness J j = modifyM (\<lambda>c. c\<lparr>freshnessPeriod := 1000 * get_int J j ''freshness-period'' 3600\<rparr>)"

definition loadZone :: "json_lib \<Rightarrow> string \<times> json \<Rightarrow> (ledger_config, unit) cm" where
  "loadZone J item = bindM (liftE (uriName J (jdata (snd item)))) (\<lambda>n.
     modifyM (\<lambda>c. c\<lparr>recordZones := recordZones c @ [n]\<rparr>))"

definition loadZones :: "json_lib \<Rightarrow> json \<Rightarrow> (ledger_config, unit) cm" where
  "loadZones J j = bindM (modifyM (\<lambda>c. c\<lparr>recordZones := []\<rparr>)) (\<lambda>_.
     case get_child_optional j ''record-zones'' of
       Some z \<Rightarrow> forM (loadZone J) (jchildren z)
     | None \<Rightarrow> raise (RuntimeError ''No recordZone configured.''))"

text \<open>The storage section is read and the values are dropped.\<close>

definition loadStorage :: "json \<Rightarrow> (ledger_config, unit) cm" where
  "loadStorage j = (case get_child_optional j ''storage'' of
     Some s \<Rightarrow> bindM (ret (get_string s ''storage-type'' ''storage-memory'')) (\<lambda>_.
       bindM (ret (get_string s ''storage-path'' '''')) (\<lambda>_. ret ()))
   | None \<Rightarrow> ret ())"

definition loadPolicy :: "json_lib \<Rightarrow> json \<Rightarrow> (ledger_config, unit) cm" where
  "loadPolicy J j = (case get_child_optional j ''interlock-policy'' of
     Some p \<Rightarrow> bindM (modifyM (\<lambda>c. c\<lparr>policyType := get_string p ''policy-type'' ''policy-descendants''\<rparr>)) (\<lambda>_.
       modifyM (\<lambda>c. c\<lparr>policyThreshold := word_of_int (get_int J p ''policy-threshold'' 1)\<rparr>))
   | None \<Rightarrow> raise (RuntimeError ''No interlock policy configured.''))"

definition loadSchema :: "json \<Rightarrow> (ledger_config, unit) cm" where
  "loadSchema j = bindM (modifyM (\<lambda>c. c\<lparr>schemaFile := get_string j ''trust-schema'' ''''\<rparr>)) (\<lambda>_.
     if get_string j ''trust-schema'' '''' = ''''
     then raise (RuntimeError ''Cannot parse trust schema from the config file'') else ret ())"

definition loadSigner :: "json_lib \<Rightarrow> string \<times> json \<Rightarrow> (ledger_config, unit) cm" where
  "loadSigner J item =
    (if fst item = ''interest-signing'' then bindM (liftE (signing J (jdata (snd item)))) (\<lambda>s.
       modifyM (\<lambda>c. c\<lparr>interestSigner := s\<rparr>))
     else if fst item = ''data-signing'' then bindM (liftE (signing J (jdata (snd item)))) (\<lambda>s.
       modifyM (\<lambda>c. c\<lparr>dataSigner := s\<rparr>))
     else raise (RuntimeError ''Unrecognized keyword''))"

definition loadSync :: "json_lib \<Rightarrow> json \<Rightarrow> (ledger_config, unit) cm" where
  "loadSync J j = (case get_child_optional j ''sync'' of
     Some s \<Rightarrow> forM (loadSigner J) (jchildren s)
   | None \<Rightarrow> raise (RuntimeError ''Cannot parse sync config from the config file''))"

text \<open>\<open>maxSegmentSize\<close> is a \<open>size_t\<close>: a negative number becomes a huge one.\<close>

definition loadSegment :: "json_lib \<Rightarrow> json \<Rightarrow> (ledger_config, unit) cm" where
  "loadSegment J j = (case get_child_optional j ''segment'' of
     Some s \<Rightarrow> bindM (modifyM (\<lambda>c. c\<lparr>maxSegmentSize :=
         unat (word_of_int (get_int J s ''max-segment-size'' 8000) :: 64 word)\<rparr>)) (\<lambda>_.
       modifyM (\<lambda>c. c\<lparr>sessionLength := 1000 * get_int J s ''session-length'' 30\<rparr>))
   | None \<Rightarrow> ret ())"

definition load :: "json_lib \<Rightarrow> string \<Rightarrow> (ledger_config, unit) cm" where
  "load J fileName = (case read_json J fileName of
     None \<Rightarrow> raise (RuntimeError ''Failed to parse configuration file'')
   | Some j \<Rightarrow>
       if jchildren j = [] then raise (RuntimeError ''No JSON configuration found in file'')
       else bindM (loadPrefix J j) (\<lambda>_. bindM (loadSuffix J j) (\<lambda>_. bindM (loadFreshness J j) (\<lambda>_.
            bindM (loadZones J j) (\<lambda>_. bindM (loadStorage j) (\<lambda>_. bindM (loadPolicy J j) (\<lambda>_.
            bindM (loadSchema j) (\<lambda>_. bindM (loadSync J j) (\<lambda>_. loadSegment J j)))))))))"

section \<open>What a loaded configuration satisfies\<close>

lemma runs_loadZones: "runs (loadZones J j) c Q \<Longrightarrow> get_child_optional j ''record-zones'' \<noteq> None"
  by (auto simp: loadZones_def runs_rules split: option.splits)

text \<open>Every section leaves the storage members alone.\<close>

definition storageMembers :: "ledger_config \<Rightarrow> string \<times> string" where
  "storageMembers c = (storageType c, storagePath c)"

lemma preserves_sections:
  "preserves storageMembers (loadPrefix J j)" "preserves storageMembers (loadSuffix J j)"
  "preserves storageMembers (loadFreshness J j)" "preserves storageMembers (loadZone J z)"
  "preserves storageMembers (loadStorage j)" "preserves storageMembers (loadSchema j)"
  "preserves storageMembers (loadSigner J z)" "preserves storageMembers (loadSegment J j)"
  unfolding loadPrefix_def loadSuffix_def loadFreshness_def loadZone_def loadStorage_def loadSchema_def
    loadSigner_def loadSegment_def
  by (auto intro!: preserves_rules simp: storageMembers_def split: option.split)

lemma preserves_loops:
  "preserves storageMembers (loadZones J j)" "preserves storageMembers (loadPolicy J j)"
  "preserves storageMembers (loadSync J j)"
  unfolding loadZones_def loadPolicy_def loadSync_def
  by (auto intro!: preserves_rules preserves_sections simp: storageMembers_def split: option.split)

lemma preserves_load: "preserves storageMembers (load J file)"
  unfolding load_def
  by (cases "read_json J file")
     (simp_all add: preserves_basic preserves_if preserves_bind preserves_sections preserves_loops)

end
