(* ===== verification/Ledger_Module.thy ===== *)
theory Ledger_Module
  imports Sync_Module Ledger_Config Append_Common
begin

text \<open>
  \<open>LedgerModule\<close> (\<open>src/ledger-module.hpp\<close>, \<open>src/ledger-module.cpp\<close>): the ledger instance, which puts
  storage, DAG, sync and the two faces (submissions, queries) together. Its constant members are the
  record \<open>ledger\<close>, its changing ones extend the state of the DAG and sync modules, which share the
  storage backend. Answers go to \<open>outbox\<close>; a validator that needs more certificates answers later
  (\<open>None\<close>).
\<close>

record 's ledger =
  lib :: ndn
  intf :: "'s storage_intf"
  svs :: svs_lib
  face :: face_lib
  policyClass :: policy_class
  config :: ledger_config
  replyPeriod :: int
  validate :: "data \<Rightarrow> bool option"
  isCertName :: "name \<Rightarrow> bool"

record 's ledger_state = "'s sync_state" +
  repliedRecords :: "name list"
  replyEvent :: "int option"
  outbox :: "packet list"
  sessions :: "(name \<times> seg_producer) list"

type_synonym ('s, 'a) lm = "('s ledger_state, 'a) cm"

definition instancePrefix :: "'s ledger \<Rightarrow> name" where
  "instancePrefix M = ledgerPrefix (config M) @ instanceSuffix (config M)"

text \<open>The sync group of all instances of the ledger.\<close>

definition syncPrefix :: "'s ledger \<Rightarrow> name" where
  "syncPrefix M = ledgerPrefix (config M) @ [generic ''LEDGER'', generic ''SYNC'']"

definition evaluater :: "'s ledger \<Rightarrow> edge_state \<Rightarrow> 32 word" where
  "evaluater M = policy_getInterface (policyClass M)"

definition put_packet :: "packet \<Rightarrow> ('s, unit) lm" where
  "put_packet p = modifyM (\<lambda>st. st\<lparr>outbox := outbox st @ [p]\<rparr>)"

section \<open>Payload maps\<close>

definition addPayloadMap :: "'s ledger \<Rightarrow> bytes \<Rightarrow> name \<Rightarrow> ('s, unit) lm" where
  "addPayloadMap M p mapTo' = (let m = \<lparr>mapName = toMapName (lib M) p, mapTo = mapTo'\<rparr> in
     addBlockM (intf M) (mapName m) (encodePayloadMap (lib M) m))"

definition getPayloadMap :: "'s ledger \<Rightarrow> bytes \<Rightarrow> ('s, name) lm" where
  "getPayloadMap M p = bindM (getBlockM (intf M) (toMapName (lib M) p)) (\<lambda>b.
     bindM (liftE (decodePayloadMap (lib M) b)) (\<lambda>m. ret (mapTo m)))"

section \<open>The tracker and the harvest\<close>

definition trackerName :: "'s ledger \<Rightarrow> name" where
  "trackerName M = toStateListName (lib M) globalTracker"

definition stampInterlocked :: "'s ledger \<Rightarrow> name \<Rightarrow> ('s, unit) lm" where
  "stampInterlocked M n =
     bindM (getBlockM (intf M) n) (\<lambda>b.
     bindM (liftE (decodeEdgeState (lib M) b)) (\<lambda>s.
     bindM (nowM (lib M)) (\<lambda>t.
     bindM (deleteBlockM (intf M) n) (\<lambda>_.
     addBlockM (intf M) n (encodeEdgeState (lib M) (s\<lparr>interlocked := t\<rparr>))))))"

definition updateStatesTracker :: "'s ledger \<Rightarrow> name \<Rightarrow> bool \<Rightarrow> ('s, unit) lm" where
  "updateStatesTracker M n il =
     bindM (getBlockM (intf M) (trackerName M)) (\<lambda>trackerBlock.
     bindM (liftE (decodeEdgeStateList (lib M) trackerBlock)) (\<lambda>l.
     let save = (\<lambda>l'. bindM (deleteBlockM (intf M) (trackerName M)) (\<lambda>_.
           addBlockM (intf M) (trackerName M) (encodeEdgeStateList (lib M) l'))) in
     if n \<notin> set (listValue l) then save (l\<lparr>listValue := insort_insert n (listValue l)\<rparr>)
     else if il then bindM (stampInterlocked M n) (\<lambda>_. save l)
     else ret ()))"

definition noteInterlocked :: "'s ledger \<Rightarrow> ledger_record \<Rightarrow> ('s, unit) lm" where
  "noteInterlocked M r =
     bindM (modifyM (\<lambda>st. st\<lparr>repliedRecords := filter (\<lambda>n. n \<noteq> recName r) (repliedRecords st)\<rparr>)) (\<lambda>_.
     updateStatesTracker M (toStateName (recName r)) True)"

definition dagHarvest :: "'s ledger \<Rightarrow> ('s, unit) lm" where
  "dagHarvest M =
     bindM (harvestAbove (lib M) (intf M) (policyThreshold (config M)) True) (\<lambda>rs.
     forM (noteInterlocked M) rs)"

section \<open>Submissions\<close>

text \<open>The type and pointers of the record made for a submission: the records filed under value 0, or
  itself when there is none.\<close>

definition recordFor :: "'s ledger \<Rightarrow> data \<Rightarrow> ('s, ledger_record) lm" where
  "recordFor M d =
     (let r = setPayload newRecord (wire (lib M) (dataBlock (lib M) d)) in
      bindM (getWaitList 0) (\<lambda>names.
      let ptrs = map fromStateName names in
      if length ptrs < 1 then
        bindM (getNextName (lib M) (instancePrefix M)) (\<lambda>genesisName.
        ret (setPointers (setType r GENESIS_RECORD) [genesisName]))
      else ret (setPointers (setType r GENERIC_RECORD) ptrs)))"

definition afterValidation :: "'s ledger \<Rightarrow> data \<Rightarrow> ('s, unit) lm" where
  "afterValidation M d =
     bindM (catchM (bindM (addBlockM (intf M) (dataName d) (dataBlock (lib M) d)) (\<lambda>_. ret True))
       is_runtime_error (\<lambda>_. ret False)) (\<lambda>isNew.
     if \<not> isNew then ret ()
     else
       bindM (recordFor M d) (\<lambda>r.
       bindM (publishRecord (lib M) (intf M) (svs M) (syncPrefix M) (instancePrefix M) r) (\<lambda>n.
       let r = setName r n in
       bindM (add (lib M) (intf M) (evaluater M) r) (\<lambda>stateName.
       bindM (addPayloadMap M (payload r) stateName) (\<lambda>_.
       bindM (updateStatesTracker M (toStateName n) False) (\<lambda>_.
       dagHarvest M))))))"

definition onDataSubmission :: "'s ledger \<Rightarrow> data \<Rightarrow> ('s, append_status) lm" where
  "onDataSubmission M d = (case validate M d of
     Some True \<Rightarrow> catchM (bindM (afterValidation M d) (\<lambda>_. ret SUCCESS))
       is_std_exception (\<lambda>_. ret FAILURE_STORAGE)
   | Some False \<Rightarrow> ret FAILURE_VALIDATION_APP
   | None \<Rightarrow> ret (append_statusOf (garbage (lib M))))"

section \<open>Records from other participants\<close>

definition refreshReplyTimer :: "'s ledger \<Rightarrow> ('s, unit) lm" where
  "refreshReplyTimer M = modifyM (\<lambda>st. st\<lparr>replyEvent := Some (replyPeriod M)\<rparr>)"

text \<open>The payload of a record that is no reply record is stored as a packet and mapped to the state; a
  payload that is already there ends the callback before the harvest.\<close>

definition storePayload :: "'s ledger \<Rightarrow> ledger_record \<Rightarrow> name \<Rightarrow> ('s, bool) lm" where
  "storePayload M r sn =
     bindM (liftE (of_option (TlvError ''Block'') (readBlock (lib M) (payload r)))) (\<lambda>dataBlk.
     bindM (liftE (dataOf (lib M) dataBlk)) (\<lambda>d.
     bindM (catchM (bindM (addBlockM (intf M) (dataName d) dataBlk) (\<lambda>_. ret True))
       is_runtime_error (\<lambda>_. ret False)) (\<lambda>isNew.
     if \<not> isNew then ret False
     else bindM (catchM (addPayloadMap M (payload r) sn) is_runtime_error (\<lambda>_. ret ())) (\<lambda>_.
       ret True))))"

definition onSyncRecord :: "'s ledger \<Rightarrow> ledger_record \<Rightarrow> ('s, unit) lm" where
  "onSyncRecord M r =
     bindM (refreshReplyTimer M) (\<lambda>_.
     bindM (add (lib M) (intf M) (evaluater M) r) (\<lambda>stateName.
     bindM (updateStatesTracker M stateName False) (\<lambda>_.
     if recType r \<noteq> REPLY_RECORD then
       bindM (storePayload M r stateName) (\<lambda>goOn. if goOn then dagHarvest M else ret ())
     else dagHarvest M)))"

section \<open>Reply records\<close>

definition catchForReply :: "ledger_record \<Rightarrow> ledger_record \<Rightarrow> ('s, ledger_record) lm" where
  "catchForReply reply r =
     bindM (getsM repliedRecords) (\<lambda>replied.
     if recName r \<notin> set replied \<and> recType r \<noteq> REPLY_RECORD then
       bindM (modifyM (\<lambda>st. st\<lparr>repliedRecords := insort_insert (recName r) (repliedRecords st)\<rparr>)) (\<lambda>_.
       ret (addPointer reply (recName r)))
     else ret reply)"

definition publishReply :: "'s ledger \<Rightarrow> ('s, unit) lm" where
  "publishReply M =
     bindM (harvestBelow (lib M) (intf M) (policyThreshold (config M))) (\<lambda>nonInterlocked.
     bindM (foldM catchForReply (setType newRecord REPLY_RECORD) nonInterlocked) (\<lambda>reply.
     if length (pointers reply) > 0 then
       bindM (publishRecord (lib M) (intf M) (svs M) (syncPrefix M) (instancePrefix M) reply) (\<lambda>n.
       bindM (add (lib M) (intf M) (evaluater M) (setName reply n)) (\<lambda>_.
       dagHarvest M))
     else ret ()))"

section \<open>Queries\<close>

definition sendNack :: "'s ledger \<Rightarrow> name \<Rightarrow> ('s, unit) lm" where
  "sendNack M n = bindM (nowM (lib M)) (\<lambda>t.
     put_packet (PutData (signWith (face M) (instancePrefix M)
       ((prepareData (lib M) n (t div 1000000))\<lparr>freshness := freshnessPeriod (config M)\<rparr>))))"

definition replyOrSendNack :: "'s ledger \<Rightarrow> name \<Rightarrow> ('s, unit) lm" where
  "replyOrSendNack M n = catchM
     (bindM (getBlockM (intf M) n) (\<lambda>b. bindM (liftE (dataOf (lib M) b)) (\<lambda>d. put_packet (PutData d))))
     is_std_exception (\<lambda>_. sendNack M n)"

definition producerOptions :: "'s ledger \<Rightarrow> producer_options" where
  "producerOptions M = \<lparr>prodSigner = instancePrefix M, prodFreshness = freshnessPeriod (config M),
     prodMaxSegment = maxSegmentSize (config M)\<rparr>"

definition sendResponse :: "'s ledger \<Rightarrow> name \<Rightarrow> block \<Rightarrow> ('s, unit) lm" where
  "sendResponse M n b =
     bindM (nowM (lib M)) (\<lambda>t.
     let versioned = n @ [generic ''data'', versionComp (lib M) (nat (t div 1000))] in
     bindM (liftE (newProducer (lib M) (face M) (producerOptions M) (nat (t div 1000)) versioned b)) (\<lambda>p.
     bindM (put_packet (PutData (prodStore p ! 0))) (\<lambda>_.
     modifyM (\<lambda>st. st\<lparr>sessions := sessions st @ [(versioned, p)]\<rparr>))))"

text \<open>The answer to a record query: the record that carries the certificate, then the records of the
  selected descendants, at most threshold many.\<close>

definition recordBlocks :: "'s ledger \<Rightarrow> name list \<Rightarrow> ('s, block list) lm" where
  "recordBlocks M ns = foldM (\<lambda>bs n. bindM (getBlockM (intf M) (fromStateName n)) (\<lambda>b. ret (bs @ [b]))) [] ns"

definition queryContent :: "'s ledger \<Rightarrow> name \<Rightarrow> ('s, block) lm" where
  "queryContent M certName =
     bindM (getBlockM (intf M) certName) (\<lambda>payloadblock.
     bindM (getBlockM (intf M) (toMapName (lib M) (wire (lib M) payloadblock))) (\<lambda>mapblock.
     bindM (liftE (decodePayloadMap (lib M) mapblock)) (\<lambda>payloadMap.
     bindM (getBlockM (intf M) (mapTo payloadMap)) (\<lambda>stateblock.
     bindM (liftE (decodeEdgeState (lib M) stateblock)) (\<lambda>s.
     bindM (recordBlocks M (stateName s # take (unat (policyThreshold (config M)))
       (policy_select (policyClass M) s))) (\<lambda>bs.
     ret (encodeBlock (lib M) tlv_Content bs)))))))"

definition onQuery :: "'s ledger \<Rightarrow> interest \<Rightarrow> ('s, unit) lm" where
  "onQuery M query =
    (let n = interestName query in
     if forwardingHint query = [] then ret ()
     else if \<not> canBePrefix query then replyOrSendNack M n
     else bindM (liftE (name_set n (- 4) (generic ''KEY''))) (\<lambda>certName.
       if isCertName M certName then
         catchM (bindM (queryContent M certName) (\<lambda>b. sendResponse M n b))
           is_std_exception (\<lambda>_. sendNack M n)
       else catchM
         (bindM (getBlockM (intf M) n) (\<lambda>b. bindM (liftE (dataOf (lib M) b)) (\<lambda>d. put_packet (PutData d))))
         is_std_exception (\<lambda>_. sendNack M n)))"

text \<open>Queries for internal objects, below the keyword \<open>internal\<close> under the prefix of the instance.\<close>

definition onInternalQuery :: "'s ledger \<Rightarrow> interest \<Rightarrow> ('s, unit) lm" where
  "onInternalQuery M i =
    (let n = interestName i; k = length (instancePrefix M) in
     if \<not> canBePrefix i then ret ()
     else bindM (liftE (name_get n (int k))) (\<lambda>c.
       if c = keyword ''internal'' then
         (let objName = name_sub n (k + 1) in
          catchM (bindM (getBlockM (intf M) objName) (\<lambda>b. sendResponse M n b))
            is_runtime_error (\<lambda>_. sendNack M n))
       else ret ()))"

text \<open>The session of a segmented reply: interests below its prefix go to its producer, which is dropped
  at the end of the session.\<close>

definition onSegmentInterest :: "'s ledger \<Rightarrow> name \<Rightarrow> interest \<Rightarrow> ('s, unit) lm" where
  "onSegmentInterest M v i = bindM (getsM sessions) (\<lambda>ss. case map_of ss v of
     None \<Rightarrow> ret () | Some p \<Rightarrow> put_packet (processSegmentInterest (lib M) (face M) p i))"

definition endSession :: "name \<Rightarrow> ('s, unit) lm" where
  "endSession v = modifyM (\<lambda>st. st\<lparr>sessions := filter (\<lambda>s. fst s \<noteq> v) (sessions st)\<rparr>)"

section \<open>Start\<close>

text \<open>The interest filters: the module's own certificate, the two kinds of internal objects, and, once
  the prefix is registered, the configured record zones.\<close>

datatype filter_action = OwnCertificate | InternalObject | RecordZone

definition ledgerFilters :: "'s ledger \<Rightarrow> name \<Rightarrow> (name \<times> filter_action) list" where
  "ledgerFilters M keyName = (keyName, OwnCertificate)
     # map (\<lambda>className. (instancePrefix M @ keyword ''internal'' # className, InternalObject))
         [stateListNameHeader, stateNameHeader]
     @ map (\<lambda>z. (z, RecordZone)) (recordZones (config M))"

definition dispatchInterest :: "'s ledger \<Rightarrow> data \<Rightarrow> name \<Rightarrow> interest \<Rightarrow> ('s, unit) lm" where
  "dispatchInterest M cert keyName i = forM (\<lambda>(p, a).
     if take (length p) (interestName i) = p then
       (case a of OwnCertificate \<Rightarrow> put_packet (PutData cert)
        | InternalObject \<Rightarrow> onInternalQuery M i | RecordZone \<Rightarrow> onQuery M i)
     else ret ()) (ledgerFilters M keyName)"

text \<open>Storage backend and policy are looked up by the names in the configuration; a name that is not
  registered gives a null pointer, which the constructor dereferences.\<close>

definition createModules :: "ledger_config \<Rightarrow> exn + (storage_class \<times> policy_class)" where
  "createModules c =
     bindE (of_option (UndefinedBehaviour ''null storage'') (createLedgerStorage (storageType c))) (\<lambda>s.
     bindE (of_option (UndefinedBehaviour ''null policy'') (createInterlockPolicy (policyType c))) (\<lambda>p.
     Inr (s, p)))"

text \<open>What the constructor does to the storage: the global tracker, unless a former run left one.\<close>

definition initTracker :: "'s ledger \<Rightarrow> ('s, unit) lm" where
  "initTracker M =
     (let l = \<lparr>listName = trackerName M, listKey = globalTracker, listValue = [], nextList = getStateListNull\<rparr> in
      catchM (addBlockM (intf M) (listName l) (encodeEdgeStateList (lib M) l))
        is_runtime_error (\<lambda>_. ret ()))"

definition newLedgerState :: "'s \<Rightarrow> nat \<Rightarrow> 's ledger_state" where
  "newLedgerState s t = \<lparr>waitlist = [], store = s, tick = t, seqNo = 0, svsSeq = 0,
     repliedRecords = [], replyEvent = None, outbox = [], sessions = []\<rparr>"

end
