(* ===== verification/Ledger_Inv.thy ===== *)
theory Ledger_Inv
  imports Ledger_Module
begin

text \<open>
  The ledger instance against its abstract state: the graph of the DAG, the set of names in the global
  tracker and the other stored objects (packets, the sync library's packets, payload maps). \<open>led_view\<close> relates a state
  to these; the lemmas give the effect of every helper of the ledger module on them.
\<close>

definition outer :: "'s ledger \<Rightarrow> (name \<rightharpoonup> block) \<Rightarrow> (name \<rightharpoonup> block)" where
  "outer M c = (\<lambda>n. if is_state_name n \<or> n = trackerName M then None else c n)"

definition tracks :: "'s ledger \<Rightarrow> (name \<rightharpoonup> block) \<Rightarrow> name set \<Rightarrow> bool" where
  "tracks M c T \<longleftrightarrow> (\<exists>b l. c (trackerName M) = Some b \<and> decodeEdgeStateList (lib M) b = Inr l
     \<and> wf_list l \<and> set (listValue l) = T)"

definition led_view :: "'s ledger \<Rightarrow> ('s \<Rightarrow> name \<Rightarrow> block option) \<Rightarrow> ('s \<Rightarrow> bool) \<Rightarrow>
    graph \<Rightarrow> name set \<Rightarrow> (name \<rightharpoonup> block) \<Rightarrow> 's ledger_state \<Rightarrow> bool" where
  "led_view M C ok G T X st \<longleftrightarrow> dag_inv (lib M) C ok (evaluater M) st \<and> stateGraph (lib M) C st = G
     \<and> tracks M (C (store st)) T \<and> outer M (C (store st)) = X"

text \<open>A name for packets, records and payload maps: neither a state name nor the tracker's.\<close>

definition outer_name :: "'s ledger \<Rightarrow> name \<Rightarrow> bool" where
  "outer_name M n \<longleftrightarrow> \<not> is_state_name n \<and> n \<noteq> trackerName M"

lemma outer_name_map [simp]: "outer_name M (toMapName (lib M) p)"
  by (simp add: outer_name_def trackerName_def)

lemma not_state_tracker [simp]: "\<not> is_state_name (trackerName M)"
  by (simp add: trackerName_def)

text \<open>A name that is no state name is taken: it is the tracker's or that of a stored outer object.\<close>

definition present :: "'s ledger \<Rightarrow> (name \<rightharpoonup> block) \<Rightarrow> name \<Rightarrow> bool" where
  "present M X n \<longleftrightarrow> n = trackerName M \<or> X n \<noteq> None"

text \<open>The parts of the state that storage operations leave alone.\<close>

lemma led_view_dag:
  assumes "led_view M C ok G T X st" and "dag_inv (lib M) C ok (evaluater M) st'"
    and "stateGraph (lib M) C st' = G'" and "others_same C st st'"
  shows "led_view M C ok G' T X st'"
proof -
  have "C (store st') (trackerName M) = C (store st) (trackerName M)"
    "outer M (C (store st')) = outer M (C (store st))"
    using assms(4) by (auto simp: others_same_def outer_def fun_eq_iff)
  with assms show ?thesis by (simp add: led_view_def tracks_def)
qed

lemma led_view_more: "led_view M C ok G T X st \<Longrightarrow> store st' = store st \<Longrightarrow> waitlist st' = waitlist st \<Longrightarrow>
  led_view M C ok G T X st'"
  unfolding led_view_def dag_inv_def stateGraph_def by clarsimp

lemma outer_put: "outer M (c(n := x)) = (if outer_name M n then (outer M c)(n := x) else outer M c)"
  by (auto simp: outer_def outer_name_def fun_eq_iff)

lemma led_view_put:
  assumes "led_view M C ok G T X st" and "outer_name M n" and "ok t" and "C t = (C (store st))(n \<mapsto> b)"
  shows "led_view M C ok G T (X(n \<mapsto> b)) (st\<lparr>store := t\<rparr>)"
  using assms(1-3) unfolding led_view_def dag_inv_def stateGraph_def tracks_def
  by (clarsimp simp: assms(4) outer_put graphOf_other states_stored_other outer_name_def)

lemma led_view_outer: "led_view M C ok G T X st \<Longrightarrow> outer_name M n \<Longrightarrow> C (store st) n = X n"
  by (auto simp: led_view_def outer_name_def outer_def)

lemma led_view_present:
  assumes "led_view M C ok G T X st" and "\<not> is_state_name n"
  shows "C (store st) n \<noteq> None \<longleftrightarrow> present M X n"
proof (cases "n = trackerName M")
  case True
  then show ?thesis using assms(1) by (auto simp: present_def led_view_def tracks_def)
next
  case False
  then show ?thesis using led_view_outer [OF assms(1)] assms(2) by (simp add: present_def outer_name_def)
qed

lemma led_view_ok: "led_view M C ok G T X st \<Longrightarrow> ok (store st)"
  by (simp add: led_view_def dag_inv_def)

lemma led_view_tracker:
  assumes "led_view M C ok G T X st" and "ok t" and "wf_list l" and "tlv_codec (lib M)"
    and "C t = (C (store st))(trackerName M \<mapsto> encodeEdgeStateList (lib M) l)"
  shows "led_view M C ok G (set (listValue l)) X (st\<lparr>store := t\<rparr>)"
  using assms(1-4) unfolding led_view_def dag_inv_def stateGraph_def tracks_def
  by (clarsimp simp: assms(5) outer_put graphOf_other states_stored_other outer_name_def
      tlv_codec.decode_encodeEdgeStateList)

text \<open>The prefix of the instance is a name under which records can be stored.\<close>

definition prefix_ok :: "'s ledger \<Rightarrow> bool" where
  "prefix_ok M \<longleftrightarrow> wf_name (instancePrefix M) \<and> instancePrefix M \<noteq> []
     \<and> hd (instancePrefix M) \<notin> {keyword ''EdgeState'', keyword ''EdgeStateList'', keyword ''PayloadMap''}"

lemma prefix_outer: "prefix_ok M \<Longrightarrow> outer_name M (instancePrefix M @ ns)"
  by (cases "instancePrefix M")
     (simp_all add: prefix_ok_def outer_name_def is_state_name_def stateNameHeader_def trackerName_def
       toStateListName_def stateListNameHeader_def)

lemma map_name_prefix: "prefix_ok M \<Longrightarrow> toMapName (lib M) p \<noteq> instancePrefix M @ ns"
  by (cases "instancePrefix M") (auto simp: prefix_ok_def toMapName_def mapNameHeader_def)

text \<open>The packets a record is published in, and the name below which they are stored.\<close>

definition publication :: "'s ledger \<Rightarrow> nat \<Rightarrow> ledger_record \<Rightarrow> data list" where
  "publication M k r =
     svsPackets (svs M) (syncPrefix M) (instancePrefix M) k (recName r) (wire (lib M) (prepareContent (lib M) r))"

definition syncName :: "'s ledger \<Rightarrow> nat \<Rightarrow> name" where
  "syncName M k = syncDataName (lib M) (syncPrefix M) (instancePrefix M) k"

lemma sync_outer: "prefix_ok M \<Longrightarrow> outer_name M (syncName M k @ suf)"
  by (simp add: syncName_def syncDataName_def prefix_outer)

lemma map_name_sync: "prefix_ok M \<Longrightarrow> toMapName (lib M) p \<noteq> syncName M k @ suf"
  by (simp add: syncName_def syncDataName_def map_name_prefix)

lemma publication_names:
  assumes "svs_packet_names (lib M) (svs M)"
  shows "publication M k r \<noteq> []" and "distinct (map dataName (publication M k r))"
    and "d \<in> set (publication M k r) \<Longrightarrow> \<exists>suf. dataName d = syncName M k @ suf"
  using assms by (simp_all add: svs_packet_names_def publication_def syncName_def Let_def)

text \<open>Packets inserted into the store change the other objects only.\<close>

lemma led_view_puts:
  assumes "led_view M C ok G T X st" and "\<forall>d \<in> set ds. outer_name M (dataName d)" and "ok t"
    and "C t = putPackets (lib M) ds (C (store st))"
  shows "led_view M C ok G T (putPackets (lib M) ds X) (st\<lparr>store := t\<rparr>)"
proof -
  have "graphOf (lib M) (putPackets (lib M) ds c) = graphOf (lib M) c
      \<and> states_stored (lib M) (putPackets (lib M) ds c) = states_stored (lib M) c
      \<and> putPackets (lib M) ds c (trackerName M) = c (trackerName M)
      \<and> outer M (putPackets (lib M) ds c) = putPackets (lib M) ds (outer M c)" for c
    using assms(2)
    by (induction ds arbitrary: c) (auto simp: graphOf_other states_stored_other outer_put outer_name_def)
  with assms(1,3) show ?thesis
    unfolding led_view_def dag_inv_def stateGraph_def tracks_def by (clarsimp simp: assms(4))
qed

text \<open>The fields that the harvest leaves alone.\<close>

definition same_io :: "'s ledger_state \<Rightarrow> 's ledger_state \<Rightarrow> bool" where
  "same_io st st' \<longleftrightarrow> seqNo st' = seqNo st \<and> svsSeq st' = svsSeq st \<and> replyEvent st' = replyEvent st
     \<and> outbox st' = outbox st \<and> sessions st' = sessions st"

text \<open>A ledger instance over a storage backend, with a sync library that keeps its contract.\<close>

locale ledger_instance = dag_module "lib M" "intf M" C ok "evaluater M"
  for M :: "'s ledger" and C :: "'s \<Rightarrow> name \<Rightarrow> block option" and ok :: "'s \<Rightarrow> bool" +
  assumes svs_seq: "svs_counts (svs M)"
    and svs_names: "svs_packet_names (lib M) (svs M)"
begin

abbreviation lview :: "graph \<Rightarrow> name set \<Rightarrow> (name \<rightharpoonup> block) \<Rightarrow> 's ledger_state \<Rightarrow> bool" where
  "lview \<equiv> led_view M C ok"

lemma tlv_lib: "tlv_codec (lib M)"
  by (rule tlv_codec_axioms)

section \<open>The tracker\<close>

lemma saveTracker_ok:
  assumes "lview G T X st" and "wf_list l"
  shows "runs (bindM (deleteBlockM (intf M) (trackerName M)) (\<lambda>_.
      addBlockM (intf M) (trackerName M) (encodeEdgeStateList (lib M) l))) st
    (\<lambda>_ st'. lview G (set (listValue l)) X st' \<and> dag_state.more st' = dag_state.more st)"
proof -
  have "C (store st) (trackerName M) \<noteq> None" using assms(1) by (auto simp: led_view_def tracks_def)
  then obtain t where t: "bindM (deleteBlockM (intf M) (trackerName M)) (\<lambda>_.
      addBlockM (intf M) (trackerName M) (encodeEdgeStateList (lib M) l)) st = (Inr (), st\<lparr>store := t\<rparr>)" "ok t"
    "C t = (C (store st))(trackerName M \<mapsto> encodeEdgeStateList (lib M) l)"
    using replaceBlock_ok [of st "trackerName M" "encodeEdgeStateList (lib M) l"] led_view_ok [OF assms(1)] by auto
  from led_view_tracker [OF assms(1) t(2) assms(2) tlv_lib t(3)] show ?thesis
    by (intro runsI [of _ _ "()" "st\<lparr>store := t\<rparr>"]) (simp_all add: t(1))
qed

text \<open>Stamping an edge state with the time of its interlock does not change the graph.\<close>

lemma stampInterlocked_ok:
  assumes "lview G T X st" and "G n \<noteq> None"
  shows "runs (stampInterlocked M n) st (\<lambda>_ st'. lview G T X st' \<and> dag_state.more st' = dag_state.more st)"
proof -
  obtain x where "graphOf (lib M) (C (store st)) n = Some x"
    using assms by (auto simp: led_view_def stateGraph_def)
  then obtain b s where b: "is_state_name n" "C (store st) n = Some b" "decodeEdgeState (lib M) b = Inr s"
    using graphOf_Some by blast
  have s: "stateName s = n" "recName (erecord s) = fromStateName n"
    using assms(1) b by (force simp: led_view_def dag_inv_def states_stored_def)+
  let ?now = "clock (lib M) (tick st)" and ?st = "st\<lparr>tick := Suc (tick st)\<rparr>"
  let ?s = "s\<lparr>interlocked := ?now\<rparr>"
  have "wf_state ?s" using decodeEdgeState_wf [OF b(3)] by (simp add: wf_state_def)
  then obtain s' where s': "decodeEdgeState (lib M) (encodeEdgeState (lib M) ?s) = Inr s'" "nodeOf s' = nodeOf s"
    "stateName s' = n" "recName (erecord s') = fromStateName n"
    using decode_stored [of ?s] s by (auto simp: nodeOf_def)
  obtain t where t: "bindM (deleteBlockM (intf M) n) (\<lambda>_. addBlockM (intf M) n (encodeEdgeState (lib M) ?s)) ?st =
      (Inr (), ?st\<lparr>store := t\<rparr>)" "ok t" "C t = (C (store st))(n \<mapsto> encodeEdgeState (lib M) ?s)"
    using replaceBlock_ok [of ?st n "encodeEdgeState (lib M) ?s"] led_view_ok [OF assms(1)] b(2) by auto
  have "graphOf (lib M) (C t) = graphOf (lib M) (C (store st))"
    unfolding t(3) graphOf_put [OF b(1) s'(1)] using b s'(2) by (auto simp: graphOf_def fun_eq_iff)
  moreover have "states_stored (lib M) (C t)"
    unfolding t(3) by (rule states_stored_put [OF _ s'(1,3,4)]) (use assms(1) in \<open>simp add: led_view_def dag_inv_def\<close>)
  moreover have "tracks M (C t) T" "outer M (C t) = X"
  proof -
    have "\<not> outer_name M n" "n \<noteq> trackerName M" using b(1) by (auto simp: outer_name_def)
    then show "tracks M (C t) T" "outer M (C t) = X"
      using assms(1) by (simp_all add: led_view_def t(3) tracks_def outer_put)
  qed
  ultimately have "lview G T X (?st\<lparr>store := t\<rparr>)"
    using assms(1) t(2) by (clarsimp simp: led_view_def dag_inv_def stateGraph_def)
  moreover have "stampInterlocked M n st = (Inr (), ?st\<lparr>store := t\<rparr>)"
    using getBlockM_ok [OF led_view_ok [OF assms(1)] b(2)] b(3) t(1)
    by (simp add: stampInterlocked_def bindM_def liftE_def nowM_def)
  ultimately show ?thesis by (intro runsI) auto
qed

lemma updateStatesTracker_ok:
  assumes "lview G T X st" and "wf_name n" and "il \<Longrightarrow> n \<in> T \<Longrightarrow> G n \<noteq> None"
  shows "runs (updateStatesTracker M n il) st (\<lambda>_ st'. lview G (insert n T) X st' \<and>
    dag_state.more st' = dag_state.more st)"
proof -
  obtain b l where b: "C (store st) (trackerName M) = Some b" "decodeEdgeStateList (lib M) b = Inr l"
    "wf_list l" "set (listValue l) = T"
    using assms(1) by (auto simp: led_view_def tracks_def)
  let ?save = "\<lambda>l'. bindM (deleteBlockM (intf M) (trackerName M)) (\<lambda>_.
      addBlockM (intf M) (trackerName M) (encodeEdgeStateList (lib M) l'))"
  have start: "updateStatesTracker M n il st =
      (if n \<notin> T then ?save (l\<lparr>listValue := insort_insert n (listValue l)\<rparr>)
       else if il then bindM (stampInterlocked M n) (\<lambda>_. ?save l) else ret ()) st"
    using getBlockM_ok [OF led_view_ok [OF assms(1)] b(1)] b(2,4)
    by (simp add: updateStatesTracker_def bindM_def liftE_def Let_def)
  have wf: "wf_list (l\<lparr>listValue := insort_insert n (listValue l)\<rparr>)"
    using b(3) assms(2) by (auto simp: wf_list_def list_all_iff)
  consider "n \<notin> T" | "n \<in> T" "il" | "n \<in> T" "\<not> il" by blast
  then show ?thesis
  proof cases
    case 1
    then show ?thesis
      using saveTracker_ok [OF assms(1) wf] b(4) start by (simp add: runs_def)
  next
    case 2
    have "runs (bindM (stampInterlocked M n) (\<lambda>_. ?save l)) st (\<lambda>_ st'. lview G T X st' \<and>
        dag_state.more st' = dag_state.more st)"
    proof (rule runs_bindI [OF stampInterlocked_ok [OF assms(1) assms(3) [OF 2(2,1)]]], elim conjE)
      fix t assume t: "lview G T X t" "dag_state.more t = dag_state.more st"
      show "runs (?save l) t (\<lambda>_ st'. lview G T X st' \<and> dag_state.more st' = dag_state.more st)"
        by (rule runs_mono [OF saveTracker_ok [OF t(1) b(3)]]) (simp add: b(4) t(2))
    qed
    with 2 start show ?thesis by (simp add: runs_def insert_absorb)
  next
    case 3
    then show ?thesis using assms(1) start by (simp add: runs_def ret_def insert_absorb)
  qed
qed

section \<open>The harvest\<close>

lemma same_io_more: "dag_state.more st' = dag_state.more st \<Longrightarrow>
  same_io st st' \<and> repliedRecords st' = repliedRecords st"
  by (cases st; cases st') (simp add: same_io_def)

lemma same_io_trans: "same_io a b \<Longrightarrow> same_io b c \<Longrightarrow> same_io a c"
  by (simp add: same_io_def)

lemma noteInterlocked_ok:
  assumes "lview G T X st" and "wf_name (recName r)" and "G (toStateName (recName r)) \<noteq> None"
  shows "runs (noteInterlocked M r) st (\<lambda>_ st'. lview G (insert (toStateName (recName r)) T) X st' \<and>
    same_io st st' \<and> repliedRecords st' = filter (\<lambda>n. n \<noteq> recName r) (repliedRecords st))"
proof -
  let ?st = "st\<lparr>repliedRecords := filter (\<lambda>n. n \<noteq> recName r) (repliedRecords st)\<rparr>"
  have "lview G T X ?st" by (rule led_view_more [OF assms(1)]) simp_all
  then have "runs (updateStatesTracker M (toStateName (recName r)) True) ?st (\<lambda>_ st'.
      lview G (insert (toStateName (recName r)) T) X st' \<and> dag_state.more st' = dag_state.more ?st)"
    by (rule updateStatesTracker_ok) (use assms(2,3) in simp_all)
  then show ?thesis
    unfolding noteInterlocked_def
    by (simp add: runs_rules) (auto elim!: runs_mono dest!: same_io_more simp: same_io_def)
qed

lemma noteAll_ok:
  assumes "lview G T X st" and "\<forall>r \<in> set rs. wf_name (recName r) \<and> G (toStateName (recName r)) \<noteq> None"
  shows "runs (forM (noteInterlocked M) rs) st (\<lambda>_ st'.
    lview G (T \<union> (\<lambda>r. toStateName (recName r)) ` set rs) X st' \<and> same_io st st' \<and>
    repliedRecords st' = filter (\<lambda>n. n \<notin> recName ` set rs) (repliedRecords st))"
proof (rule runs_forM [where J = "\<lambda>vs st'. lview G (T \<union> (\<lambda>r. toStateName (recName r)) ` set vs) X st' \<and>
    same_io st st' \<and> repliedRecords st' = filter (\<lambda>n. n \<notin> recName ` set vs) (repliedRecords st)"])
  fix vs r rest t
  assume split: "rs = vs @ r # rest"
    and J: "lview G (T \<union> (\<lambda>r. toStateName (recName r)) ` set vs) X t \<and> same_io st t \<and>
      repliedRecords t = filter (\<lambda>n. n \<notin> recName ` set vs) (repliedRecords st)"
  have "runs (noteInterlocked M r) t (\<lambda>_ st'.
      lview G (insert (toStateName (recName r)) (T \<union> (\<lambda>r. toStateName (recName r)) ` set vs)) X st' \<and>
      same_io t st' \<and> repliedRecords st' = filter (\<lambda>n. n \<noteq> recName r) (repliedRecords t))"
    by (rule noteInterlocked_ok) (use J assms(2) split in simp_all)
  then show "runs (noteInterlocked M r) t (\<lambda>_ st'.
      lview G (T \<union> (\<lambda>r. toStateName (recName r)) ` set (vs @ [r])) X st' \<and> same_io st st' \<and>
      repliedRecords st' = filter (\<lambda>n. n \<notin> recName ` set (vs @ [r])) (repliedRecords st))"
    by (rule runs_mono) (use J in \<open>auto intro: same_io_trans simp: conj_commute intro!: filter_cong\<close>)
qed (use assms(1) in \<open>simp add: same_io_def\<close>)

lemma dagHarvest_ok:
  assumes "lview G T X st" and "N = ripe (evaluater M) (policyThreshold (config M)) G"
  shows "runs (dagHarvest M) st (\<lambda>_ st'. lview (interlockAll G N) (T \<union> N) X st' \<and> same_io st st' \<and>
    repliedRecords st' = filter (\<lambda>n. toStateName n \<notin> N) (repliedRecords st))"
proof -
  have inv: "dag_inv (lib M) C ok (evaluater M) st" and G: "stateGraph (lib M) C st = G"
    using assms(1) by (simp_all add: led_view_def)
  note harvest = harvestAbove_inv [OF inv, of "policyThreshold (config M)", unfolded G]
  show ?thesis
    unfolding dagHarvest_def
  proof (rule runs_bindI [OF harvest], elim conjE exE)
    fix rs t ns
    assume t: "dag_inv (lib M) C ok (evaluater M) t" "others_same C st t"
      and rs: "rs = map (\<lambda>n. nrec (nodeAt G n)) ns"
      and "set ns = {n. nstatus (nodeAt G n) = LOADED \<and> policyThreshold (config M) \<le> polv (evaluater M) (nodeAt G n)}"
      and Gt: "stateGraph (lib M) C t = interlockAll G (set ns)"
    then have ns: "set ns = N" by (simp add: assms(2) ripe_def)
    have vw: "lview (interlockAll G N) T X t"
      using led_view_dag [OF assms(1) t(1) Gt t(2)] by (simp add: ns)
    have name: "toStateName (recName (nrec (nodeAt G n))) = n \<and> wf_name n \<and> interlockAll G N n \<noteq> None" if "n \<in> N" for n
    proof -
      have "n \<in> dom G" using that ripe_facts(2) assms(2) by blast
      then obtain x where x: "G n = Some x" by blast
      have "view st G (waitlist st) st" using inv_view [OF inv] by (simp add: G)
      from graph_node_wf [OF this x] x show ?thesis
        using is_state_nameE [of n] that by (auto simp: node_wf_def interlockAll_def)
    qed
    have names: "(\<lambda>r. toStateName (recName r)) ` set rs = N"
      using name ns by (force simp: rs image_image)
    have "runs (forM (noteInterlocked M) rs) t (\<lambda>_ st'.
      lview (interlockAll G N) (T \<union> (\<lambda>r. toStateName (recName r)) ` set rs) X st' \<and> same_io t st' \<and>
      repliedRecords st' = filter (\<lambda>n. n \<notin> recName ` set rs) (repliedRecords t))"
    proof (rule noteAll_ok [OF vw], intro ballI)
      fix r assume "r \<in> set rs"
      then obtain n where n: "n \<in> N" "r = nrec (nodeAt G n)" using rs ns by auto
      from name [OF n(1)] show "wf_name (recName r) \<and> interlockAll G N (toStateName (recName r)) \<noteq> None"
        using wf_toStateName [of "recName r"] by (simp add: n(2))
    qed
    moreover have "n \<in> recName ` set rs \<longleftrightarrow> toStateName n \<in> N" for n
      unfolding names [symmetric] by auto
    moreover have "same_io st t" "repliedRecords t = repliedRecords st"
      using t(2) same_io_more [of t st] by (simp_all add: others_same_def)
    ultimately show "runs (forM (noteInterlocked M) rs) t (\<lambda>_ st'. lview (interlockAll G N) (T \<union> N) X st' \<and>
        same_io st st' \<and> repliedRecords st' = filter (\<lambda>n. toStateName n \<notin> N) (repliedRecords st))"
      by (auto simp: names elim!: runs_mono intro: same_io_trans)
  qed
qed

end

end
