(* ===== verification/Ledger_Handlers.thy ===== *)
theory Ledger_Handlers
  imports Ledger_Inv
begin

text \<open>
  The event handlers of the ledger against the abstract state: a submission, a record from another
  participant, the reply timer. Each lemma says that the handler returns normally and gives the new
  graph, tracker and stored objects.
\<close>

definition nextName :: "'s ledger \<Rightarrow> 's ledger_state \<Rightarrow> name" where
  "nextName M st = instancePrefix M @ [sequenceComp (lib M) ((seqNo st + 1) mod 2 ^ 64)]"

definition tips :: "waitlist \<Rightarrow> name list" where
  "tips w = (case map_of w 0 of None \<Rightarrow> [] | Some names \<Rightarrow> names)"

lemma set_tips: "set (tips w) = {n. filed w n 0}"
  by (cases "map_of w 0") (auto simp: tips_def filed_def)

text \<open>The record that a submission gives rise to.\<close>

definition submissionRecord :: "'s ledger \<Rightarrow> data \<Rightarrow> 's ledger_state \<Rightarrow> ledger_record" where
  "submissionRecord M d st = \<lparr>recName = nextName M st,
     recType = (if tips (waitlist st) = [] then GENESIS_RECORD else GENERIC_RECORD),
     pointers = (if tips (waitlist st) = [] then [nextName M st] else map fromStateName (tips (waitlist st))),
     payload = wire (lib M) (dataBlock (lib M) d)\<rparr>"

text \<open>What a harvest does to graph and tracker.\<close>

definition ripeIn :: "'s ledger \<Rightarrow> graph \<Rightarrow> name set" where
  "ripeIn M G = ripe (evaluater M) (policyThreshold (config M)) G"

definition harvested :: "'s ledger \<Rightarrow> graph \<Rightarrow> graph" where
  "harvested M G = interlockAll G (ripeIn M G)"

definition payloadMapOf :: "'s ledger \<Rightarrow> bytes \<Rightarrow> name \<Rightarrow> block" where
  "payloadMapOf M p n = encodePayloadMap (lib M) \<lparr>mapName = toMapName (lib M) p, mapTo = n\<rparr>"

lemma wf_payloadMapOf [simp]: "wf_block (payloadMapOf M p n)"
  by (simp add: payloadMapOf_def)

definition submission_new :: "'s ledger \<Rightarrow> graph \<Rightarrow> (name \<rightharpoonup> block) \<Rightarrow> data \<Rightarrow> 's ledger_state \<Rightarrow> bool" where
  "submission_new M G X d st \<longleftrightarrow> prefix_ok M \<and> outer_name M (dataName d) \<and> X (dataName d) = None
     \<and> (\<forall>suf. let n = syncName M (svsSeq st + 1) @ suf in X n = None \<and> n \<noteq> dataName d)
     \<and> (let m = toMapName (lib M) (wire (lib M) (dataBlock (lib M) d)) in X m = None \<and> m \<noteq> dataName d)
     \<and> pointer_count G + length (pointers (submissionRecord M d st)) < 2 ^ 30"

lemma prepareContent_setName: "prepareContent L (setName r n) = prepareContent L r"
  by (simp add: prepareContent_def setName_def)

context ledger_instance
begin

lemma nextName_ok: "getNextName (lib M) (instancePrefix M) st = (Inr (nextName M st), st)"
  by (simp add: getNextName_def getsM_def nextName_def)

lemma tips_wf:
  assumes "lview G T X st"
  shows "list_all wf_name (map fromStateName (tips (waitlist st)))"
proof -
  have inv: "dag_inv (lib M) C ok (evaluater M) st" and G: "stateGraph (lib M) C st = G"
    using assms by (simp_all add: led_view_def)
  have "wf_name n" if "n \<in> set (tips (waitlist st))" for n
  proof -
    have "G n \<noteq> None" using that inv G by (auto simp: set_tips dag_inv_def dag_good_def waitlist_good_def)
    then obtain x where "G n = Some x" by blast
    with graph_node_wf(1) [OF inv_view [OF inv, unfolded G]] show ?thesis by (simp add: node_wf_def)
  qed
  then show ?thesis by (auto simp: list_all_iff)
qed

lemma recordFor_ok:
  assumes "lview G T X st"
  shows "runs (recordFor M d) st (\<lambda>r st'. lview G T X st' \<and> dag_state.more st' = dag_state.more st \<and>
    nextName M st' = nextName M st \<and> C (store st') = C (store st) \<and> setName r (nextName M st) = submissionRecord M d st)"
proof -
  let ?w = "map_at 0 [] (\<lambda>names. names) (waitlist st)"
  let ?st = "st\<lparr>waitlist := ?w\<rparr>"
  have inv: "dag_inv (lib M) C ok (evaluater M) st" using assms by (simp add: led_view_def)
  then have good: "dag_good (evaluater M) (stateGraph (lib M) C st) (waitlist st)" and "map_wf (waitlist st)"
    by (simp_all add: dag_inv_def dag_good_def waitlist_good_def waitlist_wf_def)
  then have tips: "the (map_of ?w 0) = tips (waitlist st)"
    by (simp add: tips_def split: option.split)
  have "lview G T X ?st"
    using assms dag_good_map_at [OF good, of 0] by (clarsimp simp: led_view_def dag_inv_def stateGraph_def)
  moreover have "recordFor M d st = (Inr ((submissionRecord M d st)\<lparr>recName := []\<rparr>), ?st)"
    by (cases "tips (waitlist st) = []")
       (simp_all add: recordFor_def getWaitList_def bindM_def modifyM_def getsM_def ret_def Let_def tips
         getNextName_def nextName_def submissionRecord_def record_setters newRecord_def Suc_le_eq)
  ultimately show ?thesis
    by (intro runsI) (auto simp: nextName_def setName_def submissionRecord_def)
qed

lemma submissionRecord_wf: "lview G T X st \<Longrightarrow> wf_name (instancePrefix M) \<Longrightarrow> wf_record (submissionRecord M d st)"
  using tips_wf [of G T X st] by (simp add: submissionRecord_def wf_record_def nextName_def wf_sequenceComp)

text \<open>Storing an object under a new outer name.\<close>

lemma putOuter_ok:
  assumes "lview G T X st" and "outer_name M n" and "X n = None" and "wf_block b"
  shows "runs (addBlockM (intf M) n b) st (\<lambda>_ st'. lview G T (X(n \<mapsto> b)) st' \<and>
    dag_state.more st' = dag_state.more st \<and> waitlist st' = waitlist st)"
proof -
  obtain t where "addBlockM (intf M) n b st = (Inr (), st\<lparr>store := t\<rparr>)" "ok t" "C t = (C (store st))(n \<mapsto> b)"
    using addBlockM_ok [of st n b] led_view_ok [OF assms(1)] led_view_outer [OF assms(1,2)] assms(3,4) by auto
  with led_view_put [OF assms(1,2)] show ?thesis by (intro runsI [of _ _ _ "st\<lparr>store := t\<rparr>"]) simp_all
qed

lemma putNew_ok:
  assumes "lview G T X st" and "outer_name M n" and "X n = None" and "wf_block b"
  shows "runs (catchM (bindM (addBlockM (intf M) n b) (\<lambda>_. ret True)) is_runtime_error (\<lambda>_. ret False)) st
    (\<lambda>isNew st'. isNew \<and> lview G T (X(n \<mapsto> b)) st' \<and> dag_state.more st' = dag_state.more st \<and>
      waitlist st' = waitlist st)"
  by (rule runs_catchI, rule runs_bindI [OF putOuter_ok [OF assms]]) (simp add: runs_rules)

lemma putOld_ok:
  assumes "lview G T X st" and "\<not> is_state_name n" and "present M X n"
  shows "catchM (bindM (addBlockM (intf M) n b) (\<lambda>_. ret True)) is_runtime_error (\<lambda>_. ret False) st =
    (Inr False, st)"
proof -
  obtain m where "addBlockM (intf M) n b st = (Inl (RuntimeError m), st)"
    using addBlockM_dup [of st n b] led_view_ok [OF assms(1)] led_view_present [OF assms(1,2)] assms(3) by blast
  then show ?thesis by (simp add: catchM_def bindM_def ret_def)
qed

text \<open>Publishing: whatever happens, packets of the publication are stored, from the first on; if no name
  below that of the publication is taken, all of them.\<close>

lemma publish_stop:
  assumes "lview G T X st" and "prefix_ok M" and "p = publication M (svsSeq st + 1) (setName r (nextName M st))"
  shows "ends (publishRecord (lib M) (intf M) (svs M) (syncPrefix M) (instancePrefix M) r) st (\<lambda>x st'.
    \<exists>k. lview G T (putPackets (lib M) (take k p) X) st' \<and> waitlist st' = waitlist st
      \<and> repliedRecords st' = repliedRecords st \<and> outbox st' = outbox st
      \<and> (case x of Inl e \<Rightarrow> \<exists>m. e = RuntimeError m
        | Inr n \<Rightarrow> n = nextName M st \<and> length p \<le> k \<and> seqNo st' = svsSeq st + 1 \<and> svsSeq st' = svsSeq st + 1)
      \<and> ((\<exists>d \<in> set p. C (store st) (dataName d) \<noteq> None) \<longrightarrow> x \<noteq> Inr (nextName M st))
      \<and> ((\<forall>d \<in> set p. C (store st) (dataName d) = None) \<longrightarrow> x = Inr (nextName M st)))"
proof -
  let ?n = "nextName M st" and ?ins = "forM (svs_insert (lib M) (intf M)) p"
  have seq: "svsNext (svs M) (svsSeq st) = svsSeq st + 1" using svs_seq by (simp add: svs_counts_def)
  have p: "svsPackets (svs M) (syncPrefix M) (instancePrefix M) (svsSeq st + 1) ?n (wire (lib M) (prepareContent (lib M) r)) = p"
    unfolding assms(3) publication_def prepareContent_setName by (simp add: setName_def)
  obtain k t x where x: "?ins st = (x, st\<lparr>store := t\<rparr>)" "ok t" "C t = putPackets (lib M) (take k p) (C (store st))"
    "x = Inr () \<and> length p \<le> k \<or> (\<exists>m. x = Inl (RuntimeError m))"
    "(\<exists>d \<in> set p. C (store st) (dataName d) \<noteq> None) \<longrightarrow> x \<noteq> Inr ()"
    "(\<forall>d \<in> set p. C (store st) (dataName d) = None) \<longrightarrow> distinct (map dataName p) \<longrightarrow> x = Inr ()"
    using insertPackets_stop [OF led_view_ok [OF assms(1)], of "lib M" p] by blast
  have "\<forall>d \<in> set (take k p). outer_name M (dataName d)"
    using publication_names(3) [OF svs_names, of _ "svsSeq st + 1" "setName r ?n"] sync_outer [OF assms(2)]
    by (metis assms(3) in_set_takeD)
  then have lv: "lview G T (putPackets (lib M) (take k p) X) (st\<lparr>store := t\<rparr>)"
    by (rule led_view_puts [OF assms(1) _ x(2,3)])
  have run: "publishRecord (lib M) (intf M) (svs M) (syncPrefix M) (instancePrefix M) r st = (case x of
      Inl e \<Rightarrow> (Inl e, st\<lparr>store := t\<rparr>)
    | Inr _ \<Rightarrow> (Inr ?n, st\<lparr>store := t, svsSeq := svsSeq st + 1, seqNo := svsSeq st + 1\<rparr>))"
    by (cases x) (simp_all add: publishRecord_def nextName_ok bindM_def getsM_def modifyM_def ret_def seq p x(1)
        del: One_nat_def)
  have dist: "distinct (map dataName p)" unfolding assms(3) by (rule publication_names(2) [OF svs_names])
  show ?thesis
  proof (cases x)
    case (Inl e)
    then show ?thesis using lv x(4,6) dist by (auto simp: ends_def run intro!: exI [of _ k])
  next
    case (Inr u)
    have "lview G T (putPackets (lib M) (take k p) X) (st\<lparr>store := t, svsSeq := svsSeq st + 1, seqNo := svsSeq st + 1\<rparr>)"
      by (rule led_view_more [OF lv]) simp_all
    then show ?thesis using Inr x(4,5) by (auto simp: ends_def run intro!: exI [of _ k])
  qed
qed

lemma publish_view:
  assumes "lview G T X st" and "prefix_ok M" and "p = publication M (svsSeq st + 1) (setName r (nextName M st))"
    and "\<forall>d \<in> set p. X (dataName d) = None"
  shows "runs (publishRecord (lib M) (intf M) (svs M) (syncPrefix M) (instancePrefix M) r) st (\<lambda>n st'. n = nextName M st \<and>
    lview G T (putPackets (lib M) p X) st' \<and> seqNo st' = svsSeq st + 1 \<and> svsSeq st' = svsSeq st + 1 \<and>
    waitlist st' = waitlist st \<and> repliedRecords st' = repliedRecords st \<and> outbox st' = outbox st)"
proof -
  have "C (store st) (dataName d) = None" if "d \<in> set p" for d
  proof -
    have "outer_name M (dataName d)"
      using publication_names(3) [OF svs_names] sync_outer [OF assms(2)] that by (metis assms(3))
    then show ?thesis using led_view_outer [OF assms(1)] assms(4) that by simp
  qed
  then have free: "\<forall>d \<in> set p. C (store st) (dataName d) = None" by blast
  obtain x st' where run: "publishRecord (lib M) (intf M) (svs M) (syncPrefix M) (instancePrefix M) r st = (x, st')"
    by force
  with publish_stop [OF assms(1-3)] free have "x = Inr (nextName M st)" by (auto simp: ends_def)
  with publish_stop [OF assms(1-3)] run show ?thesis by (auto simp: ends_def runs_def)
qed

lemma addRecord_view:
  assumes "lview G T X st" and "wf_record r" and "pointer_count G + length (pointers r) < 2 ^ 30"
  shows "runs (add (lib M) (intf M) (evaluater M) r) st (\<lambda>n st'. n = toStateName (recName r) \<and>
    lview (graphAdd G r) T X st' \<and> dag_state.more st' = dag_state.more st)"
proof -
  have inv: "dag_inv (lib M) C ok (evaluater M) st" and G: "stateGraph (lib M) C st = G"
    using assms(1) by (simp_all add: led_view_def)
  have "runs (add (lib M) (intf M) (evaluater M) r) st (\<lambda>n st'. n = toStateName (recName r) \<and>
    dag_inv (lib M) C ok (evaluater M) st' \<and> stateGraph (lib M) C st' = graphAdd (stateGraph (lib M) C st) r \<and>
    others_same C st st')"
    by (rule add_inv [OF inv assms(2)]) (use assms(3) G in simp)
  then show ?thesis
    by (rule runs_mono) (use led_view_dag [OF assms(1)] G in \<open>auto simp: others_same_def\<close>)
qed

text \<open>The last part of a submission: the record goes into the DAG, its payload map into storage, its
  state into the tracker, and what has become ripe is harvested.\<close>

lemma addRecord_then_ok:
  assumes "lview G T X st" and "wf_record r" and "pointer_count G + length (pointers r) < 2 ^ 30"
    and "X (toMapName (lib M) (payload r)) = None" and "sn = toStateName (recName r)"
    and "\<And>st'. lview (harvested M (graphAdd G r)) (insert sn T \<union> ripeIn M (graphAdd G r))
      (X(toMapName (lib M) (payload r) \<mapsto> payloadMapOf M (payload r) sn)) st' \<Longrightarrow> same_io st st' \<Longrightarrow> Q () st'"
  shows "runs (bindM (add (lib M) (intf M) (evaluater M) r) (\<lambda>stateName.
      bindM (addPayloadMap M (payload r) stateName) (\<lambda>_.
      bindM (updateStatesTracker M sn False) (\<lambda>_. dagHarvest M)))) st Q"
proof (rule runs_bindI [OF addRecord_view [OF assms(1-3)]], elim conjE)
  let ?G = "graphAdd G r" and ?X = "X(toMapName (lib M) (payload r) \<mapsto> payloadMapOf M (payload r) sn)"
  fix n t assume n: "n = toStateName (recName r)" and t: "lview ?G T X t" "dag_state.more t = dag_state.more st"
  have "runs (addPayloadMap M (payload r) n) t (\<lambda>_ st'. lview ?G T ?X st' \<and>
      dag_state.more st' = dag_state.more t \<and> waitlist st' = waitlist t)"
    using putOuter_ok [OF t(1) outer_name_map [of M "payload r"] assms(4) wf_payloadMapOf [of M "payload r" sn]]
    by (simp add: addPayloadMap_def Let_def payloadMapOf_def n assms(5))
  then show "runs (bindM (addPayloadMap M (payload r) n) (\<lambda>_.
      bindM (updateStatesTracker M sn False) (\<lambda>_. dagHarvest M))) t Q"
  proof (rule runs_bindI, elim conjE)
    fix u assume u: "lview ?G T ?X u" "dag_state.more u = dag_state.more t"
    have "runs (updateStatesTracker M sn False) u (\<lambda>_ st'. lview ?G (insert sn T) ?X st' \<and>
        dag_state.more st' = dag_state.more u)"
      by (rule updateStatesTracker_ok [OF u(1)]) (use assms(2,5) in \<open>simp_all add: wf_record_def\<close>)
    then show "runs (bindM (updateStatesTracker M sn False) (\<lambda>_. dagHarvest M)) u Q"
    proof (rule runs_bindI, elim conjE)
      fix v assume v: "lview ?G (insert sn T) ?X v" "dag_state.more v = dag_state.more u"
      have io: "same_io st v" using t(2) u(2) v(2) same_io_more [of v st] by simp
      show "runs (dagHarvest M) v Q"
        by (rule runs_mono [OF dagHarvest_ok [OF v(1) refl]])
           (use assms(6) same_io_trans [OF io] in \<open>auto simp: harvested_def ripeIn_def\<close>)
    qed
  qed
qed

section \<open>Submissions\<close>

text \<open>The situation in which a submission is new: neither the packet nor the payload map is stored, nor
  anything below the name of the next publication, and these names do not meet each other or the module's
  own objects.\<close>

lemma afterValidation_ok:
  assumes lv: "lview G T X st" and new: "submission_new M G X d st"
    and r: "r = submissionRecord M d st"
    and X': "X' = X(dataName d \<mapsto> dataBlock (lib M) d)"
    and p: "p = publication M (svsSeq st + 1) r"
  shows "runs (afterValidation M d) st (\<lambda>_ st'.
    lview (harvested M (graphAdd G r)) (insert (toStateName (recName r)) T \<union> ripeIn M (graphAdd G r))
      ((putPackets (lib M) p X')(toMapName (lib M) (payload r) \<mapsto>
        payloadMapOf M (payload r) (toStateName (recName r)))) st' \<and>
    seqNo st' = svsSeq st + 1 \<and> svsSeq st' = svsSeq st + 1)"
proof -
  let ?n = "nextName M st" and ?m = "toMapName (lib M) (payload r)"
  note new = new [unfolded submission_new_def, folded r]
  have rn: "recName r = ?n" by (simp add: r submissionRecord_def)
  have wf: "wf_record r" using submissionRecord_wf [OF lv] new r by (simp add: prefix_ok_def)
  have m: "X ?m = None" "?m \<noteq> dataName d"
    using new by (simp_all add: r submissionRecord_def Let_def)
  have below: "\<exists>suf. dataName x = syncName M (svsSeq st + 1) @ suf" if "x \<in> set p" for x
    using publication_names(3) [OF svs_names] that unfolding p .
  have m': "?m \<notin> dataName ` set p"
  proof
    assume "?m \<in> dataName ` set p"
    then obtain suf where "?m = syncName M (svsSeq st + 1) @ suf" using below by force
    with map_name_sync [of M "payload r"] new show False by blast
  qed
  have free: "\<forall>x \<in> set p. X' (dataName x) = None"
  proof
    fix x assume "x \<in> set p"
    then obtain suf where "dataName x = syncName M (svsSeq st + 1) @ suf" using below by blast
    then show "X' (dataName x) = None" using new by (simp add: X' Let_def)
  qed
  have put: "runs (catchM (bindM (addBlockM (intf M) (dataName d) (dataBlock (lib M) d)) (\<lambda>_. ret True))
      is_runtime_error (\<lambda>_. ret False)) st
    (\<lambda>isNew t. isNew \<and> lview G T X' t \<and> dag_state.more t = dag_state.more st \<and> waitlist t = waitlist st)"
    unfolding X' by (rule putNew_ok [OF lv]) (use new in simp_all)
  show ?thesis
    unfolding afterValidation_def
  proof (rule runs_bindI [OF put], elim conjE)
    fix isNew t assume isNew: isNew and t: "lview G T X' t" "dag_state.more t = dag_state.more st" "waitlist t = waitlist st"
    have more: "seqNo t = seqNo st" "svsSeq t = svsSeq st" using same_io_more [OF t(2)] by (simp_all add: same_io_def)
    then have nt: "nextName M t = ?n" and rt: "submissionRecord M d t = r"
      using t(3) by (simp_all add: nextName_def r submissionRecord_def)
    have rest: "runs (bindM (recordFor M d) (\<lambda>r. bindM (publishRecord (lib M) (intf M) (svs M) (syncPrefix M) (instancePrefix M) r) (\<lambda>n.
        let r = setName r n in bindM (add (lib M) (intf M) (evaluater M) r) (\<lambda>stateName.
        bindM (addPayloadMap M (payload r) stateName) (\<lambda>_.
        bindM (updateStatesTracker M (toStateName n) False) (\<lambda>_. dagHarvest M)))))) t Q"
      if Q: "\<And>st'. lview (harvested M (graphAdd G r)) (insert (toStateName ?n) T \<union> ripeIn M (graphAdd G r))
          ((putPackets (lib M) p X')(?m \<mapsto> payloadMapOf M (payload r) (toStateName ?n))) st' \<Longrightarrow>
          seqNo st' = svsSeq st + 1 \<Longrightarrow> svsSeq st' = svsSeq st + 1 \<Longrightarrow> Q () st'" for Q
    proof (rule runs_bindI [OF recordFor_ok [OF t(1)]], elim conjE)
      fix q u assume u: "lview G T X' u" "dag_state.more u = dag_state.more t" "nextName M u = nextName M t"
        and q: "setName q (nextName M t) = submissionRecord M d t"
      have mu: "seqNo u = seqNo st" "svsSeq u = svsSeq st" using same_io_more [OF u(2)] more by (simp_all add: same_io_def)
      have pub: "runs (publishRecord (lib M) (intf M) (svs M) (syncPrefix M) (instancePrefix M) q) u (\<lambda>n st'. n = ?n \<and>
          lview G T (putPackets (lib M) p X') st' \<and> seqNo st' = svsSeq st + 1 \<and> svsSeq st' = svsSeq st + 1)"
      proof (rule runs_mono [OF publish_view [OF u(1)]])
        show "prefix_ok M" using new by simp
        show "p = publication M (svsSeq u + 1) (setName q (nextName M u))"
          unfolding p mu u(3) using q rt by simp
      qed (use free nt u(3) mu in auto)
      show "runs (bindM (publishRecord (lib M) (intf M) (svs M) (syncPrefix M) (instancePrefix M) q) (\<lambda>n.
        let r = setName q n in bindM (add (lib M) (intf M) (evaluater M) r) (\<lambda>stateName.
        bindM (addPayloadMap M (payload r) stateName) (\<lambda>_.
        bindM (updateStatesTracker M (toStateName n) False) (\<lambda>_. dagHarvest M))))) u Q"
      proof (rule runs_bindI [OF pub], elim conjE)
        fix n v assume n: "n = ?n" and v: "lview G T (putPackets (lib M) p X') v"
          "seqNo v = svsSeq st + 1" "svsSeq v = svsSeq st + 1"
        have qr: "setName q n = r" using q nt rt n by simp
        show "runs (let r = setName q n in bindM (add (lib M) (intf M) (evaluater M) r) (\<lambda>stateName.
          bindM (addPayloadMap M (payload r) stateName) (\<lambda>_.
          bindM (updateStatesTracker M (toStateName n) False) (\<lambda>_. dagHarvest M)))) v Q"
          unfolding Let_def qr
          by (rule addRecord_then_ok [OF v(1) wf])
             (use new Q v rn n m m' X' putPackets_other [of ?m p "lib M" X'] in \<open>auto simp: same_io_def\<close>)
      qed
    qed
    show "runs (if \<not> isNew then ret () else bindM (recordFor M d) (\<lambda>r.
        bindM (publishRecord (lib M) (intf M) (svs M) (syncPrefix M) (instancePrefix M) r) (\<lambda>n.
        let r = setName r n in bindM (add (lib M) (intf M) (evaluater M) r) (\<lambda>stateName.
        bindM (addPayloadMap M (payload r) stateName) (\<lambda>_.
        bindM (updateStatesTracker M (toStateName n) False) (\<lambda>_. dagHarvest M)))))) t
      (\<lambda>_ st'. lview (harvested M (graphAdd G r)) (insert (toStateName (recName r)) T \<union> ripeIn M (graphAdd G r))
        ((putPackets (lib M) p X')(?m \<mapsto> payloadMapOf M (payload r) (toStateName (recName r)))) st' \<and>
        seqNo st' = svsSeq st + 1 \<and> svsSeq st' = svsSeq st + 1)"
      by (simp only: isNew not_True_eq_False if_False rn, rule rest, blast)
  qed
qed

end

end
