(* ===== verification/Ledger_Events.thy ===== *)
theory Ledger_Events
  imports Ledger_Handlers
begin

text \<open>
  The remaining events of the ledger against the abstract state: a record from another participant,
  the reply timer, and what every event keeps: \<open>ledger_inv\<close> says that the DAG invariant holds, that
  every interlocked record is in the global tracker and that the tracker names accepted records only.
\<close>

section \<open>Graph and tracker\<close>

definition tracked :: "graph \<Rightarrow> name set \<Rightarrow> bool" where
  "tracked G T \<longleftrightarrow> (\<forall>n. nstatus (nodeAt G n) = INTERLOCKED \<longrightarrow> n \<in> T) \<and> (\<forall>n \<in> T. \<not> pending_at G n)"

lemma graphAdd_status: "nstatus (nodeAt (graphAdd G r) n) =
  (if n = toStateName (recName r) \<and> pending_at G n then LOADED else nstatus (nodeAt G n))"
proof (cases "pending_at G (toStateName (recName r))")
  case True
  then have "same_shape (loadNode G r) (graphAdd G r)"
    by (simp add: graphAdd_def Let_def same_shape_resolve)
  then have "nstatus (nodeAt (graphAdd G r) n) = nstatus (nodeAt (loadNode G r) n)"
    by (simp add: same_shape_def)
  with True show ?thesis by (cases "n = toStateName (recName r)") (simp_all add: load_at)
next
  case False
  then show ?thesis by (auto simp: graphAdd_def Let_def)
qed

lemma graphAdd_pending: "pending_at (graphAdd G r) n \<longleftrightarrow> pending_at G n \<and> n \<noteq> toStateName (recName r)"
  by (auto simp: pending_at_def graphAdd_status)

lemma tracked_add:
  "tracked G T \<Longrightarrow> tracked (graphAdd G r) T"
  "tracked G T \<Longrightarrow> tracked (graphAdd G r) (insert (toStateName (recName r)) T)"
  by (auto simp: tracked_def graphAdd_status graphAdd_pending split: if_splits)

lemma tracked_harvest: "tracked G T \<Longrightarrow> tracked (harvested M G) (T \<union> ripeIn M G)"
  by (auto simp: tracked_def harvested_def nodeAt_interlockAll pending_at_def ripeIn_def ripe_def split: if_splits)

lemma tracked_empty [simp]: "tracked Map.empty {}"
  by (simp add: tracked_def nodeAt_def emptyNode_def)

text \<open>Storing an object unless one with its name is there.\<close>

definition putNew :: "(name \<rightharpoonup> block) \<Rightarrow> name \<Rightarrow> block \<Rightarrow> (name \<rightharpoonup> block)" where
  "putNew X n b = (case X n of None \<Rightarrow> X(n \<mapsto> b) | Some _ \<Rightarrow> X)"

section \<open>Records from other participants\<close>

definition receive :: "'s ledger \<Rightarrow> ledger_record \<Rightarrow> ('s, name) lm" where
  "receive M r = bindM (refreshReplyTimer M) (\<lambda>_.
     bindM (add (lib M) (intf M) (evaluater M) r) (\<lambda>sn.
     bindM (updateStatesTracker M sn False) (\<lambda>_. ret sn)))"

lemma onSyncRecord_receive: "onSyncRecord M r = bindM (receive M r) (\<lambda>sn.
    if recType r \<noteq> REPLY_RECORD then
      bindM (storePayload M r sn) (\<lambda>goOn. if goOn then dagHarvest M else ret ())
    else dagHarvest M)"
  by (simp add: onSyncRecord_def receive_def bindM_def ret_def fun_eq_iff split: prod.split sum.split)

context ledger_instance
begin

lemma addMap_ok:
  assumes "lview G T X st"
  shows "runs (catchM (addPayloadMap M p n) is_runtime_error (\<lambda>_. ret ())) st (\<lambda>_ st'.
    lview G T (putNew X (toMapName (lib M) p) (payloadMapOf M p n)) st' \<and> dag_state.more st' = dag_state.more st)"
proof (cases "X (toMapName (lib M) p)")
  case None
  have "runs (addPayloadMap M p n) st (\<lambda>_ st'. lview G T (X(toMapName (lib M) p \<mapsto> payloadMapOf M p n)) st' \<and>
      dag_state.more st' = dag_state.more st)"
    using putOuter_ok [OF assms outer_name_map None wf_payloadMapOf [of M p n]]
    by (auto simp: addPayloadMap_def Let_def payloadMapOf_def elim: runs_mono)
  then show ?thesis by (simp add: None putNew_def runs_catchI)
next
  case (Some b)
  then have "C (store st) (toMapName (lib M) p) \<noteq> None" using led_view_outer [OF assms] by simp
  then obtain m where "addPayloadMap M p n st = (Inl (RuntimeError m), st)"
    unfolding addPayloadMap_def Let_def payload_map.simps
    using addBlockM_dup [OF led_view_ok [OF assms], of "toMapName (lib M) p"] by metis
  with assms show ?thesis by (simp add: Some putNew_def runs_def catchM_def ret_def)
qed

lemma storePayload_dup:
  assumes "lview G T X st" and "readBlock (lib M) (payload r) = Some b" and "dataOf (lib M) b = Inr d"
    and "\<not> is_state_name (dataName d)" and "present M X (dataName d)"
  shows "storePayload M r sn st = (Inr False, st)"
  using putOld_ok [OF assms(1,4,5), of b] assms(2,3)
  by (simp add: storePayload_def bindM_def liftE_def ret_def)

lemma dataOf_wf: "dataOf (lib M) b = Inr d \<Longrightarrow> wf_block b"
  by (cases b) (simp add: dataOf_def tlv_types split: if_splits)

lemma storePayload_new:
  assumes "lview G T X st" and "readBlock (lib M) (payload r) = Some b" and "dataOf (lib M) b = Inr d"
    and "outer_name M (dataName d)" and "X (dataName d) = None"
  shows "runs (storePayload M r sn) st (\<lambda>goOn st'. goOn \<and> dag_state.more st' = dag_state.more st \<and>
    lview G T (putNew (X(dataName d \<mapsto> b)) (toMapName (lib M) (payload r)) (payloadMapOf M (payload r) sn)) st')"
proof -
  have "runs (bindM (catchM (bindM (addBlockM (intf M) (dataName d) b) (\<lambda>_. ret True)) is_runtime_error (\<lambda>_. ret False))
      (\<lambda>isNew. if \<not> isNew then ret False
        else bindM (catchM (addPayloadMap M (payload r) sn) is_runtime_error (\<lambda>_. ret ())) (\<lambda>_. ret True))) st
    (\<lambda>goOn st'. goOn \<and> dag_state.more st' = dag_state.more st \<and>
      lview G T (putNew (X(dataName d \<mapsto> b)) (toMapName (lib M) (payload r)) (payloadMapOf M (payload r) sn)) st')"
  proof (rule runs_bindI [OF putNew_ok [OF assms(1,4,5) dataOf_wf [OF assms(3)]]], elim conjE)
    fix isNew t assume isNew and t: "lview G T (X(dataName d \<mapsto> b)) t" "dag_state.more t = dag_state.more st"
    then show "runs (if \<not> isNew then ret False
        else bindM (catchM (addPayloadMap M (payload r) sn) is_runtime_error (\<lambda>_. ret ())) (\<lambda>_. ret True)) t
      (\<lambda>goOn st'. goOn \<and> dag_state.more st' = dag_state.more st \<and>
        lview G T (putNew (X(dataName d \<mapsto> b)) (toMapName (lib M) (payload r)) (payloadMapOf M (payload r) sn)) st')"
      using addMap_ok [OF t(1), of "payload r" sn] by (auto simp: runs_rules elim!: runs_mono)
  qed
  then show ?thesis using assms(2,3) by (simp add: storePayload_def runs_rules)
qed

text \<open>Timer, DAG and tracker: what happens to every record before its payload is looked at.\<close>

lemma receive_ok:
  assumes "lview G T X st" and "wf_record r" and "pointer_count G + length (pointers r) < 2 ^ 30"
  shows "runs (receive M r) st (\<lambda>sn t. sn = toStateName (recName r) \<and> lview (graphAdd G r) (insert sn T) X t \<and>
    dag_state.more t = dag_state.more (st\<lparr>replyEvent := Some (replyPeriod M)\<rparr>))"
proof -
  let ?st = "st\<lparr>replyEvent := Some (replyPeriod M)\<rparr>" and ?sn = "toStateName (recName r)"
  have lv: "lview G T X ?st" by (rule led_view_more [OF assms(1)]) simp_all
  have "runs (bindM (add (lib M) (intf M) (evaluater M) r) (\<lambda>sn. bindM (updateStatesTracker M sn False) (\<lambda>_. ret sn))) ?st
    (\<lambda>sn t. sn = ?sn \<and> lview (graphAdd G r) (insert sn T) X t \<and> dag_state.more t = dag_state.more ?st)"
  proof (rule runs_bindI [OF addRecord_view [OF lv assms(2,3)]], elim conjE)
    fix sn t assume sn: "sn = ?sn" and t: "lview (graphAdd G r) T X t" "dag_state.more t = dag_state.more ?st"
    have "runs (updateStatesTracker M sn False) t (\<lambda>_ st'. lview (graphAdd G r) (insert sn T) X st' \<and>
        dag_state.more st' = dag_state.more t)"
      by (rule updateStatesTracker_ok [OF t(1)]) (use assms(2) sn in \<open>simp_all add: wf_record_def\<close>)
    then show "runs (bindM (updateStatesTracker M sn False) (\<lambda>_. ret sn)) t
      (\<lambda>sn t. sn = ?sn \<and> lview (graphAdd G r) (insert sn T) X t \<and> dag_state.more t = dag_state.more ?st)"
      using t(2) sn by (auto simp: runs_rules elim!: runs_mono)
  qed
  then show ?thesis by (simp add: receive_def refreshReplyTimer_def runs_rules)
qed

lemma harvest_after:
  assumes "lview G T X t" and "same_io st t" and "repliedRecords t = repliedRecords st"
  shows "runs (dagHarvest M) t (\<lambda>_ st'. lview (harvested M G) (T \<union> ripeIn M G) X st' \<and> same_io st st' \<and>
    repliedRecords st' = filter (\<lambda>n. toStateName n \<notin> ripeIn M G) (repliedRecords st))"
  by (rule runs_mono [OF dagHarvest_ok [OF assms(1) refl]])
     (use assms(2,3) same_io_trans [OF assms(2)] in \<open>auto simp: harvested_def ripeIn_def\<close>)

text \<open>A record with a new payload, or a reply record: it is added and the DAG harvested.\<close>

lemma onSyncRecord_new:
  assumes "lview G T X st" and "wf_record r" and "pointer_count G + length (pointers r) < 2 ^ 30"
    and "sn = toStateName (recName r)" and "H = graphAdd G r"
    and new: "if recType r = REPLY_RECORD then X' = X
      else readBlock (lib M) (payload r) = Some b \<and> dataOf (lib M) b = Inr d \<and> outer_name M (dataName d)
        \<and> X (dataName d) = None
        \<and> X' = putNew (X(dataName d \<mapsto> b)) (toMapName (lib M) (payload r)) (payloadMapOf M (payload r) sn)"
  shows "runs (onSyncRecord M r) st (\<lambda>_ st'. lview (harvested M H) (insert sn T \<union> ripeIn M H) X' st'
    \<and> replyEvent st' = Some (replyPeriod M)
    \<and> repliedRecords st' = filter (\<lambda>n. toStateName n \<notin> ripeIn M H) (repliedRecords st))"
  unfolding onSyncRecord_receive
proof (rule runs_bindI [OF receive_ok [OF assms(1-3)]], elim conjE)
  let ?st = "st\<lparr>replyEvent := Some (replyPeriod M)\<rparr>"
  fix n t assume n: "n = toStateName (recName r)" and t: "lview (graphAdd G r) (insert n T) X t"
    "dag_state.more t = dag_state.more ?st"
  have harvest: "runs (dagHarvest M) u (\<lambda>_ st'. lview (harvested M H) (insert sn T \<union> ripeIn M H) X' st'
      \<and> replyEvent st' = Some (replyPeriod M)
      \<and> repliedRecords st' = filter (\<lambda>n. toStateName n \<notin> ripeIn M H) (repliedRecords st))"
    if u: "lview H (insert sn T) X' u" "dag_state.more u = dag_state.more ?st" for u
    using harvest_after [OF u(1), of ?st] same_io_more [OF u(2)]
    by (auto simp: same_io_def elim!: runs_mono)
  show "runs (if recType r \<noteq> REPLY_RECORD then
      bindM (storePayload M r n) (\<lambda>goOn. if goOn then dagHarvest M else ret ()) else dagHarvest M) t
    (\<lambda>_ st'. lview (harvested M H) (insert sn T \<union> ripeIn M H) X' st' \<and> replyEvent st' = Some (replyPeriod M)
      \<and> repliedRecords st' = filter (\<lambda>n. toStateName n \<notin> ripeIn M H) (repliedRecords st))"
  proof (cases "recType r = REPLY_RECORD")
    case True
    with harvest [of t] t new n assms(4,5) show ?thesis by simp
  next
    case False
    with new have new': "readBlock (lib M) (payload r) = Some b" "dataOf (lib M) b = Inr d"
      "outer_name M (dataName d)" "X (dataName d) = None"
      "X' = putNew (X(dataName d \<mapsto> b)) (toMapName (lib M) (payload r)) (payloadMapOf M (payload r) sn)"
      by simp_all
    have "runs (bindM (storePayload M r n) (\<lambda>goOn. if goOn then dagHarvest M else ret ())) t
      (\<lambda>_ st'. lview (harvested M H) (insert sn T \<union> ripeIn M H) X' st' \<and> replyEvent st' = Some (replyPeriod M)
        \<and> repliedRecords st' = filter (\<lambda>n. toStateName n \<notin> ripeIn M H) (repliedRecords st))"
      by (rule runs_bindI [OF storePayload_new [OF t(1) new'(1-4)]])
         (use harvest t(2) n assms(4,5) new'(5) in auto)
    with False show ?thesis by simp
  qed
qed

text \<open>A payload whose packet is stored already: the record is added, the DAG is not harvested.\<close>

lemma onSyncRecord_dup:
  assumes "lview G T X st" and "wf_record r" and "pointer_count G + length (pointers r) < 2 ^ 30"
    and "recType r \<noteq> REPLY_RECORD" and "readBlock (lib M) (payload r) = Some b" and "dataOf (lib M) b = Inr d"
    and "\<not> is_state_name (dataName d)" and "present M X (dataName d)"
  shows "runs (onSyncRecord M r) st (\<lambda>_ st'. lview (graphAdd G r) (insert (toStateName (recName r)) T) X st'
    \<and> replyEvent st' = Some (replyPeriod M) \<and> repliedRecords st' = repliedRecords st)"
  unfolding onSyncRecord_receive
proof (rule runs_bindI [OF receive_ok [OF assms(1-3)]], elim conjE)
  fix n t assume n: "n = toStateName (recName r)" and t: "lview (graphAdd G r) (insert n T) X t"
    "dag_state.more t = dag_state.more (st\<lparr>replyEvent := Some (replyPeriod M)\<rparr>)"
  have "storePayload M r n t = (Inr False, t)" by (rule storePayload_dup [OF t(1) assms(5-8)])
  then show "runs (if recType r \<noteq> REPLY_RECORD then
      bindM (storePayload M r n) (\<lambda>goOn. if goOn then dagHarvest M else ret ()) else dagHarvest M) t
    (\<lambda>_ st'. lview (graphAdd G r) (insert (toStateName (recName r)) T) X st'
      \<and> replyEvent st' = Some (replyPeriod M) \<and> repliedRecords st' = repliedRecords st)"
    using t n same_io_more [OF t(2)] assms(4) by (simp add: runs_def bindM_def ret_def same_io_def)
qed

text \<open>A payload that is no packet: the error leaves the callback after the record was added.\<close>

lemma onSyncRecord_bad:
  assumes "lview G T X st" and "wf_record r" and "pointer_count G + length (pointers r) < 2 ^ 30"
    and "recType r \<noteq> REPLY_RECORD"
    and "bindE (of_option (TlvError ''Block'') (readBlock (lib M) (payload r))) (dataOf (lib M)) = Inl e"
  shows "\<exists>st'. onSyncRecord M r st = (Inl e, st') \<and> lview (graphAdd G r) (insert (toStateName (recName r)) T) X st'"
proof -
  obtain t where t: "receive M r st = (Inr (toStateName (recName r)), t)"
    "lview (graphAdd G r) (insert (toStateName (recName r)) T) X t"
    using receive_ok [OF assms(1-3)] by (auto simp: runs_def)
  have "storePayload M r n t = (Inl e, t)" for n
    using assms(5) by (cases "readBlock (lib M) (payload r)") (auto simp: storePayload_def bindM_def liftE_def)
  with t assms(4) show ?thesis by (simp add: onSyncRecord_receive bindM_def)
qed

end

end
