(* ===== verification/Ledger_Session.thy ===== *)
theory Ledger_Session
  imports Ledger_Events
begin

text \<open>
  The reply timer, and the invariant over all events: \<open>ledger_inv\<close> holds after every sequence of
  submissions, received records, timer events and queries, also when a handler ends in an exception.
\<close>

section \<open>Reply records\<close>

definition unreplied :: "'s ledger \<Rightarrow> graph \<Rightarrow> name set \<Rightarrow> name set" where
  "unreplied M G R = recName ` {r \<in> (\<lambda>n. nrec (nodeAt G n)) ` {n. nstatus (nodeAt G n) = LOADED
     \<and> polv (evaluater M) (nodeAt G n) < policyThreshold (config M)}. recType r \<noteq> REPLY_RECORD} - R"

lemma catchAll_ok:
  "runs (foldM catchForReply q rs) st (\<lambda>q' st'. \<exists>ps R. q' = q\<lparr>pointers := pointers q @ ps\<rparr> \<and> distinct ps
    \<and> set ps = recName ` {r \<in> set rs. recType r \<noteq> REPLY_RECORD} - set (repliedRecords st)
    \<and> st' = st\<lparr>repliedRecords := R\<rparr> \<and> set R = set (repliedRecords st) \<union> set ps)"
proof (rule runs_foldM [where J = "\<lambda>vs q' st'. \<exists>ps R. q' = q\<lparr>pointers := pointers q @ ps\<rparr> \<and> distinct ps
    \<and> set ps = recName ` {r \<in> set vs. recType r \<noteq> REPLY_RECORD} - set (repliedRecords st)
    \<and> st' = st\<lparr>repliedRecords := R\<rparr> \<and> set R = set (repliedRecords st) \<union> set ps"])
  show "\<exists>ps R. q = q\<lparr>pointers := pointers q @ ps\<rparr> \<and> distinct ps
    \<and> set ps = recName ` {r \<in> set ([] :: ledger_record list). recType r \<noteq> REPLY_RECORD} - set (repliedRecords st)
    \<and> st = st\<lparr>repliedRecords := R\<rparr> \<and> set R = set (repliedRecords st) \<union> set ps"
    by (intro exI [of _ "[]"] exI [of _ "repliedRecords st"]) simp
next
  fix vs rest :: "ledger_record list" and r b :: ledger_record and t
  assume "\<exists>ps R. b = q\<lparr>pointers := pointers q @ ps\<rparr> \<and> distinct ps
    \<and> set ps = recName ` {r \<in> set vs. recType r \<noteq> REPLY_RECORD} - set (repliedRecords st)
    \<and> t = st\<lparr>repliedRecords := R\<rparr> \<and> set R = set (repliedRecords st) \<union> set ps"
  then obtain ps R where J: "b = q\<lparr>pointers := pointers q @ ps\<rparr>" "distinct ps"
    "set ps = recName ` {r \<in> set vs. recType r \<noteq> REPLY_RECORD} - set (repliedRecords st)"
    "t = st\<lparr>repliedRecords := R\<rparr>" "set R = set (repliedRecords st) \<union> set ps" by blast
  have names: "recName ` {x \<in> set (vs @ [r]). recType x \<noteq> REPLY_RECORD} =
      (if recType r = REPLY_RECORD then id else insert (recName r)) (recName ` {r \<in> set vs. recType r \<noteq> REPLY_RECORD})"
    by auto
  show "runs (catchForReply b r) t (\<lambda>q' st'. \<exists>ps R. q' = q\<lparr>pointers := pointers q @ ps\<rparr> \<and> distinct ps
    \<and> set ps = recName ` {x \<in> set (vs @ [r]). recType x \<noteq> REPLY_RECORD} - set (repliedRecords st)
    \<and> st' = st\<lparr>repliedRecords := R\<rparr> \<and> set R = set (repliedRecords st) \<union> set ps)"
  proof (cases "recName r \<notin> set R \<and> recType r \<noteq> REPLY_RECORD")
    case True
    have "b\<lparr>pointers := pointers b @ [recName r]\<rparr> = q\<lparr>pointers := pointers q @ (ps @ [recName r])\<rparr>
      \<and> distinct (ps @ [recName r])
      \<and> set (ps @ [recName r]) = recName ` {x \<in> set (vs @ [r]). recType x \<noteq> REPLY_RECORD} - set (repliedRecords st)
      \<and> t\<lparr>repliedRecords := insort_insert (recName r) R\<rparr> = st\<lparr>repliedRecords := insort_insert (recName r) R\<rparr>
      \<and> set (insort_insert (recName r) R) = set (repliedRecords st) \<union> set (ps @ [recName r])"
      unfolding names using True J by auto
    moreover have "catchForReply b r t = (Inr (b\<lparr>pointers := pointers b @ [recName r]\<rparr>),
        t\<lparr>repliedRecords := insort_insert (recName r) R\<rparr>)"
      using True J(4) by (simp add: catchForReply_def bindM_def getsM_def modifyM_def ret_def addPointer_def)
    ultimately show ?thesis unfolding runs_def by blast
  next
    case False
    have "set ps = recName ` {x \<in> set (vs @ [r]). recType x \<noteq> REPLY_RECORD} - set (repliedRecords st)"
      unfolding names using False J(3,5) by auto
    moreover have "catchForReply b r t = (Inr b, t)"
      using False J(4) by (auto simp: catchForReply_def bindM_def getsM_def ret_def)
    ultimately show ?thesis unfolding runs_def using J(1,2,4,5) by blast
  qed
qed

definition replyRecord :: "name \<Rightarrow> name list \<Rightarrow> ledger_record" where
  "replyRecord n ps = \<lparr>recName = n, recType = REPLY_RECORD, pointers = ps, payload = []\<rparr>"

text \<open>The collection of what has to be cited: result and state.\<close>

definition collected :: "'s ledger \<Rightarrow> ('s \<Rightarrow> name \<Rightarrow> block option) \<Rightarrow> ('s \<Rightarrow> bool) \<Rightarrow> graph \<Rightarrow> name set \<Rightarrow>
    (name \<rightharpoonup> block) \<Rightarrow> 's ledger_state \<Rightarrow> ledger_record \<Rightarrow> 's ledger_state \<Rightarrow> bool" where
  "collected M C ok G T X st q st' \<longleftrightarrow> (\<exists>ps. q = (setType newRecord REPLY_RECORD)\<lparr>pointers := ps\<rparr> \<and> distinct ps
    \<and> set ps = unreplied M G (set (repliedRecords st)) \<and> led_view M C ok G T X st' \<and> same_io st st'
    \<and> waitlist st' = waitlist st \<and> set (repliedRecords st') = set (repliedRecords st) \<union> set ps)"

context ledger_instance
begin

lemma below_wf:
  assumes "lview G T X st" and "n \<in> dom G"
  shows "wf_name (recName (nrec (nodeAt G n)))"
proof -
  have inv: "dag_inv (lib M) C ok (evaluater M) st" and G: "stateGraph (lib M) C st = G"
    using assms(1) by (simp_all add: led_view_def)
  from assms(2) obtain x where x: "G n = Some x" by blast
  from graph_node_wf(1,3) [OF inv_view [OF inv, unfolded G] x] x show ?thesis
    by (simp add: node_wf_def fromStateName_def name_sub_def)
qed

lemma led_names:
  assumes "lview G T X st" and "n \<in> dom G"
  shows "is_state_name n" and "recName (nrec (nodeAt G n)) = fromStateName n" and "wf_name n"
proof -
  have inv: "dag_inv (lib M) C ok (evaluater M) st" and G: "stateGraph (lib M) C st = G"
    using assms(1) by (simp_all add: led_view_def)
  from assms(2) obtain x where x: "G n = Some x" by blast
  from graph_node_wf [OF inv_view [OF inv, unfolded G] x] x
  show "is_state_name n" "recName (nrec (nodeAt G n)) = fromStateName n" "wf_name n" by (simp_all add: node_wf_def)
qed

lemma loaded_dom: "nstatus (nodeAt G n) = LOADED \<Longrightarrow> n \<in> dom G"
  by (auto simp: nodeAt_def emptyNode_def split: option.splits)

lemma unreplied_card:
  assumes "graph_good G"
  shows "finite (unreplied M G R)" and "card (unreplied M G R) \<le> card (dom G)"
proof -
  have fin: "finite (dom G)" using assms by (simp add: graph_good_def)
  have sub: "unreplied M G R \<subseteq> (\<lambda>n. recName (nrec (nodeAt G n))) ` dom G"
    using loaded_dom by (auto simp: unreplied_def)
  then show "finite (unreplied M G R)" using fin finite_surj by blast
  have "card (unreplied M G R) \<le> card ((\<lambda>n. recName (nrec (nodeAt G n))) ` dom G)"
    by (rule card_mono [OF _ sub]) (use fin in simp)
  also have "\<dots> \<le> card (dom G)" by (rule card_image_le [OF fin])
  finally show "card (unreplied M G R) \<le> card (dom G)" .
qed

lemma collect_ok:
  assumes "lview G T X st"
  shows "runs (bindM (harvestBelow (lib M) (intf M) (policyThreshold (config M))) (\<lambda>nonInterlocked.
    foldM catchForReply (setType newRecord REPLY_RECORD) nonInterlocked)) st (collected M C ok G T X st)"
proof -
  have inv: "dag_inv (lib M) C ok (evaluater M) st" and G: "stateGraph (lib M) C st = G"
    using assms(1) by (simp_all add: led_view_def)
  show ?thesis
  proof (rule runs_bindI [OF harvestBelow_inv [OF inv, unfolded G]], elim conjE)
    fix rs t
    assume t: "dag_inv (lib M) C ok (evaluater M) t" "others_same C st t" "waitlist t = waitlist st"
        "stateGraph (lib M) C t = G"
      and rs: "set rs = (\<lambda>n. nrec (nodeAt G n)) ` {n. nstatus (nodeAt G n) = LOADED
        \<and> polv (evaluater M) (nodeAt G n) < policyThreshold (config M)}"
    have lv: "lview G T X t" by (rule led_view_dag [OF assms t(1,4,2)])
    have more: "dag_state.more t = dag_state.more st" using t(2) by (simp add: others_same_def)
    note io = same_io_more [OF more]
    show "runs (foldM catchForReply (setType newRecord REPLY_RECORD) rs) t (collected M C ok G T X st)"
    proof (rule runs_mono [OF catchAll_ok], elim exE conjE)
      fix q st' ps R
      assume "q = (setType newRecord REPLY_RECORD)\<lparr>pointers := pointers (setType newRecord REPLY_RECORD) @ ps\<rparr>"
        and ps: "distinct ps" "set ps = recName ` {r \<in> set rs. recType r \<noteq> REPLY_RECORD} - set (repliedRecords t)"
        and st': "st' = t\<lparr>repliedRecords := R\<rparr>" "set R = set (repliedRecords t) \<union> set ps"
      then have "q = (setType newRecord REPLY_RECORD)\<lparr>pointers := ps\<rparr>" by (simp add: setType_def newRecord_def)
      moreover have "set ps = unreplied M G (set (repliedRecords st))"
        using ps(2) rs io by (simp add: unreplied_def)
      moreover have "lview G T X st'" by (rule led_view_more [OF lv]) (simp_all add: st'(1))
      ultimately show "collected M C ok G T X st q st'"
        using ps(1) st' io t(3) by (auto simp: collected_def same_io_def)
    qed
  qed
qed

lemma publishReply_collect: "publishReply M = bindM (bindM (harvestBelow (lib M) (intf M) (policyThreshold (config M)))
    (\<lambda>nonInterlocked. foldM catchForReply (setType newRecord REPLY_RECORD) nonInterlocked)) (\<lambda>reply.
     if length (pointers reply) > 0 then
       bindM (publishRecord (lib M) (intf M) (svs M) (syncPrefix M) (instancePrefix M) reply) (\<lambda>n.
       bindM (add (lib M) (intf M) (evaluater M) (setName reply n)) (\<lambda>_. dagHarvest M))
     else ret ())"
  by (simp add: publishReply_def bindM_def fun_eq_iff split: prod.split sum.split)

text \<open>Nothing is stored below the name of the next publication.\<close>

lemma publication_free:
  assumes "\<forall>suf. X (syncName M k @ suf) = None"
  shows "\<forall>d \<in> set (publication M k r). X (dataName d) = None"
proof
  fix d assume "d \<in> set (publication M k r)"
  then obtain suf where "dataName d = syncName M k @ suf" using publication_names(3) [OF svs_names] by blast
  with assms show "X (dataName d) = None" by simp
qed

lemma same_io_next: "same_io st t \<Longrightarrow> nextName M t = nextName M st"
  by (simp add: same_io_def nextName_def)

lemma publishReply_none:
  assumes "lview G T X st" and "unreplied M G (set (repliedRecords st)) = {}"
  shows "runs (publishReply M) st (\<lambda>_ st'. lview G T X st' \<and> same_io st st'
    \<and> set (repliedRecords st') = set (repliedRecords st))"
  unfolding publishReply_collect
  by (rule runs_bindI [OF collect_ok [OF assms(1)]])
     (use assms(2) in \<open>auto simp: collected_def setType_def newRecord_def runs_rules\<close>)

lemma unreplied_wf: "lview G T X st \<Longrightarrow> set ps \<subseteq> unreplied M G R \<Longrightarrow> list_all wf_name ps"
  using below_wf loaded_dom by (fastforce simp: unreplied_def list_all_iff)

text \<open>Publishing, adding and harvesting a reply record whose pointers were collected.\<close>

lemma replyTail_ok:
  assumes "collected M C ok G T X st q t" and "prefix_ok M"
    and "\<forall>suf. X (syncName M (svsSeq st + 1) @ suf) = None" and "pointer_count G + card (unreplied M G (set (repliedRecords st))) < 2 ^ 30"
    and U: "U = unreplied M G (set (repliedRecords st))"
  shows "runs (bindM (publishRecord (lib M) (intf M) (svs M) (syncPrefix M) (instancePrefix M) q) (\<lambda>n.
      bindM (add (lib M) (intf M) (evaluater M) (setName q n)) (\<lambda>_. dagHarvest M))) t
    (\<lambda>_ st'. \<exists>ps H. distinct ps \<and> set ps = U \<and> H = graphAdd G (replyRecord (nextName M st) ps)
      \<and> lview (harvested M H) (T \<union> ripeIn M H)
          (putPackets (lib M) (publication M (svsSeq st + 1) (replyRecord (nextName M st) ps)) X) st'
      \<and> set (repliedRecords st') = {n \<in> set (repliedRecords st) \<union> U. toStateName n \<notin> ripeIn M H}
      \<and> seqNo st' = svsSeq st + 1)"
proof -
  obtain ps where q: "q = (setType newRecord REPLY_RECORD)\<lparr>pointers := ps\<rparr>" and ps: "distinct ps" "set ps = U"
    and t: "lview G T X t" "same_io st t" "set (repliedRecords t) = set (repliedRecords st) \<union> set ps"
    using assms(1) by (auto simp: collected_def U)
  let ?n = "nextName M st" and ?r = "replyRecord (nextName M st) ps"
  have n: "nextName M t = ?n" by (rule same_io_next [OF t(2)])
  have qn: "setName q ?n = ?r" by (simp add: q replyRecord_def record_setters newRecord_def)
  have "list_all wf_name ps" using unreplied_wf [OF t(1)] ps(2) U by blast
  then have wf: "wf_record ?r"
    using assms(2) wf_sequenceComp by (simp add: wf_record_def replyRecord_def nextName_def prefix_ok_def)
  have len: "pointer_count G + length (pointers ?r) < 2 ^ 30"
    using assms(4) ps U by (simp add: replyRecord_def distinct_card [symmetric])
  let ?p = "publication M (svsSeq st + 1) ?r"
  have pub: "runs (publishRecord (lib M) (intf M) (svs M) (syncPrefix M) (instancePrefix M) q) t (\<lambda>n st'. n = ?n \<and>
      lview G T (putPackets (lib M) ?p X) st' \<and> seqNo st' = svsSeq st + 1 \<and> repliedRecords st' = repliedRecords t)"
  proof (rule runs_mono [OF publish_view [OF t(1) assms(2)]])
    show "?p = publication M (svsSeq t + 1) (setName q (nextName M t))"
      using t(2) by (simp add: n qn same_io_def)
  qed (use publication_free [OF assms(3)] n t(2) in \<open>auto simp: same_io_def\<close>)
  show ?thesis
  proof (rule runs_bindI [OF pub], elim conjE)
    fix n u assume nn: "n = ?n" and u: "lview G T (putPackets (lib M) ?p X) u"
      "seqNo u = svsSeq st + 1" "repliedRecords u = repliedRecords t"
    show "runs (bindM (add (lib M) (intf M) (evaluater M) (setName q n)) (\<lambda>_. dagHarvest M)) u
      (\<lambda>_ st'. \<exists>ps H. distinct ps \<and> set ps = U \<and> H = graphAdd G (replyRecord ?n ps)
        \<and> lview (harvested M H) (T \<union> ripeIn M H)
            (putPackets (lib M) (publication M (svsSeq st + 1) (replyRecord ?n ps)) X) st'
        \<and> set (repliedRecords st') = {n \<in> set (repliedRecords st) \<union> U. toStateName n \<notin> ripeIn M H}
        \<and> seqNo st' = svsSeq st + 1)"
      unfolding nn qn
    proof (rule runs_bindI [OF addRecord_view [OF u(1) wf len]], elim conjE)
      fix m v assume v: "lview (graphAdd G ?r) T (putPackets (lib M) ?p X) v"
        "dag_state.more v = dag_state.more u"
      note io = same_io_more [OF v(2)]
      show "runs (dagHarvest M) v (\<lambda>_ st'. \<exists>ps H. distinct ps \<and> set ps = U \<and> H = graphAdd G (replyRecord ?n ps)
        \<and> lview (harvested M H) (T \<union> ripeIn M H)
            (putPackets (lib M) (publication M (svsSeq st + 1) (replyRecord ?n ps)) X) st'
        \<and> set (repliedRecords st') = {n \<in> set (repliedRecords st) \<union> U. toStateName n \<notin> ripeIn M H}
        \<and> seqNo st' = svsSeq st + 1)"
        by (rule runs_mono [OF harvest_after [OF v(1), of u]])
           (use io ps t(3) u(2,3) in \<open>auto simp: same_io_def intro!: exI [of _ ps]\<close>)
    qed
  qed
qed

lemma publishReply_ok:
  assumes "lview G T X st" and "prefix_ok M"
    and "\<forall>suf. X (syncName M (svsSeq st + 1) @ suf) = None" and "pointer_count G + card (unreplied M G (set (repliedRecords st))) < 2 ^ 30"
    and U: "U = unreplied M G (set (repliedRecords st))" and "U \<noteq> {}"
  shows "runs (publishReply M) st
    (\<lambda>_ st'. \<exists>ps H. distinct ps \<and> set ps = U \<and> H = graphAdd G (replyRecord (nextName M st) ps)
      \<and> lview (harvested M H) (T \<union> ripeIn M H)
          (putPackets (lib M) (publication M (svsSeq st + 1) (replyRecord (nextName M st) ps)) X) st'
      \<and> set (repliedRecords st') = {n \<in> set (repliedRecords st) \<union> U. toStateName n \<notin> ripeIn M H}
      \<and> seqNo st' = svsSeq st + 1)"
  unfolding publishReply_collect
proof (rule runs_bindI [OF collect_ok [OF assms(1)]])
  fix q t assume c: "collected M C ok G T X st q t"
  then have "length (pointers q) > 0" using U assms(6) by (auto simp: collected_def)
  with replyTail_ok [OF c assms(2-4) U] show "runs (if length (pointers q) > 0 then
      bindM (publishRecord (lib M) (intf M) (svs M) (syncPrefix M) (instancePrefix M) q) (\<lambda>n.
      bindM (add (lib M) (intf M) (evaluater M) (setName q n)) (\<lambda>_. dagHarvest M)) else ret ()) t
    (\<lambda>_ st'. \<exists>ps H. distinct ps \<and> set ps = U \<and> H = graphAdd G (replyRecord (nextName M st) ps)
      \<and> lview (harvested M H) (T \<union> ripeIn M H)
          (putPackets (lib M) (publication M (svsSeq st + 1) (replyRecord (nextName M st) ps)) X) st'
      \<and> set (repliedRecords st') = {n \<in> set (repliedRecords st) \<union> U. toStateName n \<notin> ripeIn M H}
      \<and> seqNo st' = svsSeq st + 1)"
    by simp
qed

end

end
