(* ===== verification/Ledger_Reach.thy ===== *)
theory Ledger_Reach
  imports Ledger_Session
begin

text \<open>
  The events of the ledger as a step relation, and the invariant of the reachable states:
  \<open>ledger_inv\<close>. A step is one handler run to its end, normal or exceptional, with whatever state it
  leaves behind.
\<close>

datatype ledger_event =
    Submit data
  | Receive ledger_record
  | ReplyTimer
  | Query interest
  | InternalQuery interest
  | SegmentInterest name interest
  | SessionEnd name

fun handleEvent :: "'s ledger \<Rightarrow> ledger_event \<Rightarrow> ('s, unit) lm" where
  "handleEvent M (Submit d) = bindM (onDataSubmission M d) (\<lambda>_. ret ())"
| "handleEvent M (Receive r) = onSyncRecord M r"
| "handleEvent M ReplyTimer = publishReply M"
| "handleEvent M (Query i) = onQuery M i"
| "handleEvent M (InternalQuery i) = onInternalQuery M i"
| "handleEvent M (SegmentInterest v i) = onSegmentInterest M v i"
| "handleEvent M (SessionEnd v) = endSession v"

definition ledger_inv :: "'s ledger \<Rightarrow> ('s \<Rightarrow> name \<Rightarrow> block option) \<Rightarrow> ('s \<Rightarrow> bool) \<Rightarrow> 's ledger_state \<Rightarrow> bool" where
  "ledger_inv M C ok st \<longleftrightarrow> (\<exists>G T X. led_view M C ok G T X st \<and> tracked G T)"

text \<open>What is stored besides edge states and tracker: packets with names in \<open>D\<close>, packets of the ledger's
  own publications, and payload maps that lead to records with names in \<open>R\<close>.\<close>

definition stored_in :: "'s ledger \<Rightarrow> name set \<Rightarrow> name set \<Rightarrow> (name \<rightharpoonup> block) \<Rightarrow> bool" where
  "stored_in M D R X \<longleftrightarrow> (\<forall>n b. X n = Some b \<longrightarrow> n \<in> D \<or> (\<exists>k suf. n = syncName M k @ suf)
     \<or> (\<exists>p r. r \<in> R \<and> n = toMapName (lib M) p \<and> b = payloadMapOf M p (toStateName r)))"

definition ledger_inv_in :: "'s ledger \<Rightarrow> ('s \<Rightarrow> name \<Rightarrow> block option) \<Rightarrow> ('s \<Rightarrow> bool) \<Rightarrow> name set \<Rightarrow> name set \<Rightarrow>
    's ledger_state \<Rightarrow> bool" where
  "ledger_inv_in M C ok D R st \<longleftrightarrow> (\<exists>G T X. led_view M C ok G T X st \<and> tracked G T \<and> stored_in M D R X)"

text \<open>What an event is assumed to be: no packet, submitted or received as payload, has the name of an edge
  state (the code does not check this); a record received is well formed (it came out of a decoder); the graph
  has room for the new pointers.\<close>

fun event_ok :: "'s ledger \<Rightarrow> ledger_event \<Rightarrow> bool" where
  "event_ok M (Submit d) = (\<not> is_state_name (dataName d))"
| "event_ok M (Receive r) = (wf_record r \<and>
     (case bindE (of_option (TlvError ''Block'') (readBlock (lib M) (payload r))) (dataOf (lib M)) of
        Inl _ \<Rightarrow> True | Inr d \<Rightarrow> \<not> is_state_name (dataName d)))"
| "event_ok M _ = True"

text \<open>The names of the packets that an event may store lie in \<open>D\<close>, those of the records it may add in \<open>R\<close>.\<close>

definition own_names :: "'s ledger \<Rightarrow> name set" where
  "own_names M = range (\<lambda>k. instancePrefix M @ [sequenceComp (lib M) k])"

fun event_in :: "'s ledger \<Rightarrow> name set \<Rightarrow> name set \<Rightarrow> ledger_event \<Rightarrow> bool" where
  "event_in M D R (Submit d) = (dataName d \<in> D)"
| "event_in M D R (Receive r) = (recName r \<in> R \<and>
     (case bindE (of_option (TlvError ''Block'') (readBlock (lib M) (payload r))) (dataOf (lib M)) of
        Inl _ \<Rightarrow> True | Inr d \<Rightarrow> dataName d \<in> D))"
| "event_in M D R _ = True"

fun event_pointers :: "ledger_event \<Rightarrow> nat" where
  "event_pointers (Receive r) = length (pointers r)"
| "event_pointers _ = 0"

definition has_room :: "graph \<Rightarrow> ledger_event \<Rightarrow> bool" where
  "has_room G e \<longleftrightarrow> pointer_count G + card (dom G) + event_pointers e + 1 < 2 ^ 30"

lemma ledger_invI: "led_view M C ok G T X st \<Longrightarrow> tracked G T \<Longrightarrow> ledger_inv M C ok st"
  by (auto simp: ledger_inv_def)

lemma stored_in_simps [simp]: "stored_in M UNIV R X" "stored_in M D R Map.empty"
  by (simp_all add: stored_in_def)

lemma ledger_inv_in_UNIV: "ledger_inv_in M C ok UNIV R = ledger_inv M C ok"
  by (simp add: ledger_inv_in_def ledger_inv_def fun_eq_iff)

lemma event_in_UNIV: "event_in M UNIV UNIV e"
  by (cases e) (simp_all split: sum.split)

lemma stored_in_put: "stored_in M D R X \<Longrightarrow> n \<in> D \<Longrightarrow> stored_in M D R (X(n \<mapsto> b))"
  by (auto simp: stored_in_def)

lemma stored_in_map: "stored_in M D R X \<Longrightarrow> r \<in> R \<Longrightarrow>
  stored_in M D R (X(toMapName (lib M) p \<mapsto> payloadMapOf M p (toStateName r)))"
  unfolding stored_in_def by (metis fun_upd_apply option.inject)

lemma stored_in_putNew: "stored_in M D R X \<Longrightarrow> r \<in> R \<Longrightarrow>
  stored_in M D R (putNew X (toMapName (lib M) p) (payloadMapOf M p (toStateName r)))"
  by (simp add: putNew_def stored_in_map split: option.split)

lemma stored_in_puts:
  assumes "stored_in M D R X" and "\<forall>d \<in> set ds. \<exists>k suf. dataName d = syncName M k @ suf"
  shows "stored_in M D R (putPackets (lib M) ds X)"
  unfolding stored_in_def
proof (intro allI impI)
  fix n b assume "putPackets (lib M) ds X n = Some b"
  then consider "X n = Some b" | "n \<in> dataName ` set ds" using putPackets_cases by blast
  then show "n \<in> D \<or> (\<exists>k suf. n = syncName M k @ suf)
      \<or> (\<exists>p r. r \<in> R \<and> n = toMapName (lib M) p \<and> b = payloadMapOf M p (toStateName r))"
    by cases (use assms in \<open>unfold stored_in_def, blast+\<close>)
qed

lemma inv_inI: "led_view M C ok G T X st \<Longrightarrow> tracked G T \<Longrightarrow> stored_in M D R X \<Longrightarrow> ledger_inv_in M C ok D R st"
  by (auto simp: ledger_inv_in_def)

lemma inv_in_more: "ledger_inv_in M C ok D R st \<Longrightarrow> store st' = store st \<Longrightarrow> waitlist st' = waitlist st \<Longrightarrow>
  ledger_inv_in M C ok D R st'"
  unfolding ledger_inv_in_def using led_view_more by blast

lemma ledger_inv_more: "ledger_inv M C ok st \<Longrightarrow> store st' = store st \<Longrightarrow> waitlist st' = waitlist st \<Longrightarrow>
  ledger_inv M C ok st'"
  unfolding ledger_inv_def using led_view_more by blast

section \<open>Queries change neither storage nor waitlist\<close>

lemma preserves_getBlockM [preserves_rules]: "preserves f (getBlockM I n)"
  by (simp add: preserves_def getBlockM_def)

definition dag_part :: "('s, 'z) dag_state_scheme \<Rightarrow> 's \<times> waitlist" where
  "dag_part st = (store st, waitlist st)"

lemma preserves_io [preserves_rules]:
  "preserves dag_part (nowM L)" "preserves dag_part (put_packet p)"
  by (simp_all add: preserves_def nowM_def put_packet_def modifyM_def dag_part_def)

lemma preserves_session [preserves_rules]:
  "preserves dag_part (modifyM (\<lambda>st :: 's ledger_state. st\<lparr>sessions := f st\<rparr>))"
  by (simp add: preserves_def modifyM_def dag_part_def)

lemma preserves_answers [preserves_rules]:
  "preserves dag_part (sendNack M n)" "preserves dag_part (replyOrSendNack M n)"
  "preserves dag_part (sendResponse M n b)" "preserves dag_part (queryContent M n)"
proof -
  show nack: "preserves dag_part (sendNack M n)"
    unfolding sendNack_def by (intro preserves_rules)
  show "preserves dag_part (replyOrSendNack M n)"
    unfolding replyOrSendNack_def by (intro preserves_rules nack)
  show "preserves dag_part (sendResponse M n b)"
    unfolding sendResponse_def Let_def by (intro preserves_rules)
  show "preserves dag_part (queryContent M n)"
    unfolding queryContent_def recordBlocks_def by (intro preserves_rules)
qed

lemma preserves_queries: "preserves dag_part (onQuery M i)" "preserves dag_part (onInternalQuery M i)"
  unfolding onQuery_def onInternalQuery_def Let_def by (intro preserves_rules)+

lemma preserves_sessions: "preserves dag_part (onSegmentInterest M v i)"
  "preserves dag_part (endSession v :: ('s, unit) lm)"
  by (simp_all add: onSegmentInterest_def endSession_def preserves_def bindM_def getsM_def ret_def put_packet_def
      modifyM_def dag_part_def split: option.split)

lemma preserves_inv:
  assumes "preserves dag_part m" and "ledger_inv_in M C ok D R st"
  shows "ledger_inv_in M C ok D R (snd (m st))"
proof -
  have "dag_part (snd (m st)) = dag_part st" using assms(1) by (simp add: preserves_def)
  then show ?thesis
    by (intro inv_in_more [OF assms(2)]) (simp_all add: dag_part_def)
qed

section \<open>Every event keeps the invariant\<close>

context ledger_instance
begin

abbreviation linv :: "name set \<Rightarrow> name set \<Rightarrow> 's ledger_state \<Rightarrow> bool" where
  "linv \<equiv> ledger_inv_in M C ok"

abbreviation holds_in :: "graph \<Rightarrow> name set \<Rightarrow> name set \<Rightarrow> name set \<Rightarrow> 's ledger_state \<Rightarrow> bool" where
  "holds_in G T D R st \<equiv> \<exists>X. lview G T X st \<and> stored_in M D R X"

lemma addMap_ends:
  assumes "lview G T X st" and "stored_in M D R X" and "r \<in> R"
  shows "ends (addPayloadMap M p (toStateName r)) st (\<lambda>_. holds_in G T D R)"
proof (cases "X (toMapName (lib M) p)")
  case None
  have "runs (addPayloadMap M p (toStateName r)) st (\<lambda>_.
      lview G T (X(toMapName (lib M) p \<mapsto> payloadMapOf M p (toStateName r))))"
    using putOuter_ok [OF assms(1) outer_name_map None wf_payloadMapOf [of M p "toStateName r"]]
    by (auto simp: addPayloadMap_def Let_def payloadMapOf_def elim: runs_mono)
  then show ?thesis by (rule ends_runs) (use stored_in_map [OF assms(2,3)] in blast)
next
  case (Some b)
  then have "C (store st) (toMapName (lib M) p) \<noteq> None" using led_view_outer [OF assms(1)] by simp
  then obtain m where "addPayloadMap M p (toStateName r) st = (Inl (RuntimeError m), st)"
    unfolding addPayloadMap_def Let_def payload_map.simps
    using addBlockM_dup [OF led_view_ok [OF assms(1)], of "toMapName (lib M) p"] by metis
  with assms show ?thesis by (auto simp: ends_def)
qed

lemma harvest_ends:
  "lview G T X st \<Longrightarrow> tracked G T \<Longrightarrow> stored_in M D R X \<Longrightarrow> ends (dagHarvest M) st (\<lambda>_. linv D R)"
  by (rule ends_runs [OF dagHarvest_ok [OF _ refl]])
     (use tracked_harvest [of G T M] in \<open>auto simp: harvested_def ripeIn_def intro: inv_inI\<close>)

lemma tracker_ends:
  assumes "lview G T X st" and "tracked G T" and "tracked G (insert n T)" and "wf_name n" and "stored_in M D R X"
  shows "ends (bindM (updateStatesTracker M n False) (\<lambda>_. dagHarvest M)) st (\<lambda>_. linv D R)"
proof (rule ends_bind_runs [OF updateStatesTracker_ok [OF assms(1,4)]], simp, elim conjE)
  fix t assume "lview G (insert n T) X t"
  then show "ends (dagHarvest M) t (\<lambda>_. linv D R)" by (rule harvest_ends [OF _ assms(3,5)])
qed

lemma recordTail_ends:
  assumes "lview G T X st" and "tracked G T" and "wf_record r"
    and "pointer_count G + length (pointers r) < 2 ^ 30" and "sn = toStateName (recName r)"
    and "stored_in M D R X" and "recName r \<in> R"
  shows "ends (bindM (add (lib M) (intf M) (evaluater M) r) (\<lambda>stateName.
      bindM (addPayloadMap M (payload r) stateName) (\<lambda>_.
      bindM (updateStatesTracker M sn False) (\<lambda>_. dagHarvest M)))) st (\<lambda>_. linv D R)"
proof (rule ends_bind_runs [OF addRecord_view [OF assms(1,3,4)]], elim conjE)
  fix n t assume n: "n = toStateName (recName r)" and t: "lview (graphAdd G r) T X t"
  have sn: "wf_name sn" using assms(3,5) by (simp add: wf_record_def)
  show "ends (bindM (addPayloadMap M (payload r) n) (\<lambda>_.
      bindM (updateStatesTracker M sn False) (\<lambda>_. dagHarvest M))) t (\<lambda>_. linv D R)"
    unfolding n
  proof (rule ends_bindI [OF addMap_ends [OF t assms(6,7)]])
    fix s' assume "holds_in (graphAdd G r) T D R s'"
    then obtain X' where "lview (graphAdd G r) T X' s'" "stored_in M D R X'" by blast
    then show "ends (bindM (updateStatesTracker M sn False) (\<lambda>_. dagHarvest M)) s' (\<lambda>_. linv D R)"
      using tracker_ends tracked_add [OF assms(2)] assms(5) sn by blast
  qed (use tracked_add(1) [OF assms(2)] in \<open>auto intro: inv_inI\<close>)
qed

lemma publish_ends:
  assumes "lview G T X st" and "prefix_ok M" and "stored_in M D R X"
  shows "ends (publishRecord (lib M) (intf M) (svs M) (syncPrefix M) (instancePrefix M) r) st (\<lambda>x st'.
    holds_in G T D R st' \<and> (case x of Inl _ \<Rightarrow> True | Inr n \<Rightarrow> n = nextName M st))"
proof (rule ends_mono [OF publish_stop [OF assms(1,2) refl]], elim exE conjE)
  let ?p = "publication M (svsSeq st + 1) (setName r (nextName M st))"
  fix x st' k
  assume "lview G T (putPackets (lib M) (take k ?p) X) st'"
    and "case x of Inl e \<Rightarrow> \<exists>m. e = RuntimeError m
      | Inr n \<Rightarrow> n = nextName M st \<and> length ?p \<le> k \<and> seqNo st' = svsSeq st + 1 \<and> svsSeq st' = svsSeq st + 1"
  moreover have "stored_in M D R (putPackets (lib M) (take k ?p) X)"
  proof (rule stored_in_puts [OF assms(3)], intro ballI)
    fix d assume "d \<in> set (take k ?p)"
    then have "d \<in> set ?p" by (rule in_set_takeD)
    then show "\<exists>k suf. dataName d = syncName M k @ suf" using publication_names(3) [OF svs_names] by blast
  qed
  ultimately show "holds_in G T D R st' \<and> (case x of Inl _ \<Rightarrow> True | Inr n \<Rightarrow> n = nextName M st)"
    by (auto split: sum.splits)
qed

lemma next_own: "nextName M st \<in> own_names M"
  by (auto simp: nextName_def own_names_def)

lemma tips_length:
  assumes "lview G T X st"
  shows "length (tips (waitlist st)) \<le> card (dom G)"
proof -
  have good: "dag_good (evaluater M) G (waitlist st)" "graph_good G"
    using assms by (auto simp: led_view_def dag_inv_def)
  then have wl: "waitlist_wf (waitlist st)" and known: "\<forall>n k. filed (waitlist st) n k \<longrightarrow> n \<in> dom G"
    by (auto simp: dag_good_def waitlist_good_def)
  have "distinct (tips (waitlist st))"
    using waitlist_wf_bucket [OF wl] by (auto simp: tips_def set_wf_def split: option.split)
  moreover have "set (tips (waitlist st)) \<subseteq> dom G" using known by (auto simp: set_tips)
  moreover have "finite (dom G)" using good(2) by (simp add: graph_good_def)
  ultimately show ?thesis by (simp add: distinct_card [symmetric] card_mono)
qed

lemma afterValidation_ends:
  assumes lv: "lview G T X st" and tr: "tracked G T" and pre: "prefix_ok M" and d: "\<not> is_state_name (dataName d)"
    and room: "pointer_count G + card (dom G) + 1 < 2 ^ 30"
    and stored: "stored_in M D R X" and D: "dataName d \<in> D" and R: "own_names M \<subseteq> R"
  shows "ends (afterValidation M d) st (\<lambda>_. linv D R)"
proof -
  let ?put = "catchM (bindM (addBlockM (intf M) (dataName d) (dataBlock (lib M) d)) (\<lambda>_. ret True))
    is_runtime_error (\<lambda>_. ret False)"
  have put: "runs ?put st (\<lambda>_ t. holds_in G T D R t \<and> waitlist t = waitlist st)"
  proof (cases "present M X (dataName d)")
    case True
    with putOld_ok [OF lv d] lv stored show ?thesis by (auto simp: runs_def)
  next
    case False
    then have outer: "outer_name M (dataName d)" and None: "X (dataName d) = None"
      using d by (simp_all add: present_def outer_name_def)
    show ?thesis
      by (rule runs_mono [OF putNew_ok [OF lv outer None wf_block_simps(2) [of "lib M" d]]])
         (use stored_in_put [OF stored D] in blast)
  qed
  show ?thesis
    unfolding afterValidation_def
  proof (rule ends_bind_runs [OF put], elim conjE exE)
    fix isNew t X' assume t: "lview G T X' t" "waitlist t = waitlist st" and stored': "stored_in M D R X'"
    have rest: "ends (bindM (recordFor M d) (\<lambda>r. bindM (publishRecord (lib M) (intf M) (svs M) (syncPrefix M) (instancePrefix M) r) (\<lambda>n.
        let r = setName r n in bindM (add (lib M) (intf M) (evaluater M) r) (\<lambda>stateName.
        bindM (addPayloadMap M (payload r) stateName) (\<lambda>_.
        bindM (updateStatesTracker M (toStateName n) False) (\<lambda>_. dagHarvest M)))))) t (\<lambda>_. linv D R)"
    proof (rule ends_bind_runs [OF recordFor_ok [OF t(1)]], elim conjE)
      fix q u assume u: "lview G T X' u" "nextName M u = nextName M t"
        and q: "setName q (nextName M t) = submissionRecord M d t"
      let ?r = "submissionRecord M d t"
      have wf: "wf_record ?r" using submissionRecord_wf [OF t(1)] pre by (simp add: prefix_ok_def)
      have len: "pointer_count G + length (pointers ?r) < 2 ^ 30"
        using tips_length [OF t(1)] room by (simp add: submissionRecord_def)
      show "ends (bindM (publishRecord (lib M) (intf M) (svs M) (syncPrefix M) (instancePrefix M) q) (\<lambda>n.
        let r = setName q n in bindM (add (lib M) (intf M) (evaluater M) r) (\<lambda>stateName.
        bindM (addPayloadMap M (payload r) stateName) (\<lambda>_.
        bindM (updateStatesTracker M (toStateName n) False) (\<lambda>_. dagHarvest M))))) u (\<lambda>_. linv D R)"
      proof (rule ends_bindI [OF publish_ends [OF u(1) pre stored']], elim conjE exE)
        fix e s' X'' assume "lview G T X'' s'" "stored_in M D R X''"
        then show "linv D R s'" using tr by (blast intro: inv_inI)
      next
        fix n s'
        assume *: "holds_in G T D R s' \<and> (case Inr n of Inl (_ :: exn) \<Rightarrow> True | Inr n \<Rightarrow> n = nextName M u)"
        then obtain X'' where v: "lview G T X'' s'" and stored'': "stored_in M D R X''" by blast
        have n: "setName q n = ?r" "n = recName ?r" using * q u(2) by (simp_all add: submissionRecord_def)
        show "ends (let r = setName q n in bindM (add (lib M) (intf M) (evaluater M) r) (\<lambda>stateName.
          bindM (addPayloadMap M (payload r) stateName) (\<lambda>_.
          bindM (updateStatesTracker M (toStateName n) False) (\<lambda>_. dagHarvest M)))) s' (\<lambda>_. linv D R)"
          unfolding Let_def n(1) by (rule recordTail_ends [OF v tr wf len _ stored'']) (use next_own R n(2) in \<open>auto simp: submissionRecord_def\<close>)
      qed
    qed
    show "ends (if \<not> isNew then ret () else bindM (recordFor M d) (\<lambda>r.
        bindM (publishRecord (lib M) (intf M) (svs M) (syncPrefix M) (instancePrefix M) r) (\<lambda>n.
        let r = setName r n in bindM (add (lib M) (intf M) (evaluater M) r) (\<lambda>stateName.
        bindM (addPayloadMap M (payload r) stateName) (\<lambda>_.
        bindM (updateStatesTracker M (toStateName n) False) (\<lambda>_. dagHarvest M)))))) t (\<lambda>_. linv D R)"
    proof (cases isNew)
      case True
      then show ?thesis using rest by simp
    next
      case False
      then show ?thesis using inv_inI [OF t(1) tr stored'] by (simp add: ends_ret)
    qed
  qed
qed

lemma submit_ends:
  assumes "lview G T X st" and "tracked G T" and "prefix_ok M" and "\<not> is_state_name (dataName d)"
    and "pointer_count G + card (dom G) + 1 < 2 ^ 30"
    and "stored_in M D R X" and "dataName d \<in> D" and "own_names M \<subseteq> R"
  shows "ends (onDataSubmission M d) st (\<lambda>_. linv D R)"
proof -
  have "ends (catchM (bindM (afterValidation M d) (\<lambda>_. ret SUCCESS)) is_std_exception (\<lambda>_. ret FAILURE_STORAGE)) st
      (\<lambda>_. linv D R)"
    by (rule ends_catchI [OF ends_bindI [OF afterValidation_ends [OF assms]]]) (simp_all add: ends_ret)
  then show ?thesis
    using inv_inI [OF assms(1,2,6)]
    by (cases "validate M d") (auto simp: onDataSubmission_def ends_ret split: if_splits bool.split)
qed

lemma receive_ends:
  assumes lv: "lview G T X st" and tr: "tracked G T" and ev: "event_ok M (Receive r)"
    and room: "pointer_count G + length (pointers r) < 2 ^ 30"
    and stored: "stored_in M D R X" and ein: "event_in M D R (Receive r)"
  shows "ends (onSyncRecord M r) st (\<lambda>_. linv D R)"
proof -
  let ?sn = "toStateName (recName r)" and ?H = "graphAdd G r"
  let ?pkt = "bindE (of_option (TlvError ''Block'') (readBlock (lib M) (payload r))) (dataOf (lib M))"
  have wf: "wf_record r" using ev by simp
  have tr': "tracked ?H (insert ?sn T)" by (rule tracked_add(2) [OF tr])
  have new: "ends (onSyncRecord M r) st (\<lambda>_. linv D R)"
    if "if recType r = REPLY_RECORD then X' = X
      else readBlock (lib M) (payload r) = Some b \<and> dataOf (lib M) b = Inr d \<and> outer_name M (dataName d)
        \<and> X (dataName d) = None
        \<and> X' = putNew (X(dataName d \<mapsto> b)) (toMapName (lib M) (payload r)) (payloadMapOf M (payload r) ?sn)"
    and "stored_in M D R X'" for X' b d
    by (rule ends_runs [OF onSyncRecord_new [OF lv wf room refl refl that(1)]])
       (use tracked_harvest [OF tr'] that(2) in \<open>auto intro: inv_inI\<close>)
  show ?thesis
  proof (cases "recType r = REPLY_RECORD")
    case True
    with new [of X] stored show ?thesis by simp
  next
    case False
    show ?thesis
    proof (cases ?pkt)
      case (Inl e)
      from onSyncRecord_bad [OF lv wf room False this] tr' stored show ?thesis
        by (auto simp: ends_def intro: inv_inI)
    next
      case (Inr d)
      then obtain b where b: "readBlock (lib M) (payload r) = Some b" "dataOf (lib M) b = Inr d"
        by (auto simp: bindE_eq_Inr)
      have ns: "\<not> is_state_name (dataName d)" and D: "dataName d \<in> D" and R: "recName r \<in> R" using ev ein Inr by simp_all
      show ?thesis
      proof (cases "present M X (dataName d)")
        case False
        then have outer: "outer_name M (dataName d)" and None: "X (dataName d) = None"
          using ns by (simp_all add: present_def outer_name_def)
        let ?X = "putNew (X(dataName d \<mapsto> b)) (toMapName (lib M) (payload r)) (payloadMapOf M (payload r) ?sn)"
        have "stored_in M D R ?X" by (rule stored_in_putNew [OF stored_in_put [OF stored D] R])
        with new [of ?X b d] b outer \<open>recType r \<noteq> REPLY_RECORD\<close> None show ?thesis by simp
      next
        case True
        from onSyncRecord_dup [OF lv wf room \<open>recType r \<noteq> REPLY_RECORD\<close> b ns True] tr' stored show ?thesis
          by (auto intro: ends_runs inv_inI)
      qed
    qed
  qed
qed

lemma timer_ends:
  assumes lv: "lview G T X st" and tr: "tracked G T" and pre: "prefix_ok M"
    and room: "pointer_count G + card (dom G) + 1 < 2 ^ 30" and stored: "stored_in M D R X"
  shows "ends (publishReply M) st (\<lambda>_. linv D R)"
  unfolding publishReply_collect
proof (rule ends_bind_runs [OF collect_ok [OF lv]])
  let ?U = "unreplied M G (set (repliedRecords st))"
  have good: "graph_good G" using lv by (auto simp: led_view_def dag_inv_def)
  fix q t assume c: "collected M C ok G T X st q t"
  then obtain ps where q: "q = (setType newRecord REPLY_RECORD)\<lparr>pointers := ps\<rparr>" and ps: "distinct ps" "set ps = ?U"
    and t: "lview G T X t" by (auto simp: collected_def)
  have len: "pointer_count G + length (pointers (setName q n)) < 2 ^ 30" for n
    using unreplied_card(2) [OF good, of "set (repliedRecords st)"] room ps
    by (simp add: q record_setters distinct_card [symmetric])
  have "list_all wf_name ps" using unreplied_wf [OF t] ps(2) by blast
  then have wf: "wf_record (setName q (nextName M t))"
    using pre wf_sequenceComp by (simp add: wf_record_def q record_setters newRecord_def nextName_def prefix_ok_def)
  have "ends (bindM (publishRecord (lib M) (intf M) (svs M) (syncPrefix M) (instancePrefix M) q) (\<lambda>n.
      bindM (add (lib M) (intf M) (evaluater M) (setName q n)) (\<lambda>_. dagHarvest M))) t (\<lambda>_. linv D R)"
  proof (rule ends_bindI [OF publish_ends [OF t pre stored]], elim conjE exE)
    fix e s' X' assume "lview G T X' s'" "stored_in M D R X'"
    then show "linv D R s'" using tr by (blast intro: inv_inI)
  next
    fix n s'
    assume *: "holds_in G T D R s' \<and> (case Inr n of Inl (_ :: exn) \<Rightarrow> True | Inr n \<Rightarrow> n = nextName M t)"
    then obtain X' where v: "lview G T X' s'" "stored_in M D R X'" by blast
    have n: "n = nextName M t" using * by simp
    show "ends (bindM (add (lib M) (intf M) (evaluater M) (setName q n)) (\<lambda>_. dagHarvest M)) s' (\<lambda>_. linv D R)"
      unfolding n by (rule ends_bind_runs [OF addRecord_view [OF v(1) wf len]], elim conjE)
        (erule harvest_ends [OF _ tracked_add(1) [OF tr] v(2)])
  qed
  then show "ends (if length (pointers q) > 0 then
      bindM (publishRecord (lib M) (intf M) (svs M) (syncPrefix M) (instancePrefix M) q) (\<lambda>n.
      bindM (add (lib M) (intf M) (evaluater M) (setName q n)) (\<lambda>_. dagHarvest M)) else ret ()) t (\<lambda>_. linv D R)"
    using inv_inI [OF t tr stored] by (simp add: ends_ret)
qed

lemma event_ends:
  assumes "linv D R st" and "prefix_ok M" and "event_ok M e" and "has_room (stateGraph (lib M) C st) e"
    and "event_in M D R e" and "own_names M \<subseteq> R"
  shows "linv D R (snd (handleEvent M e st))"
proof -
  obtain G T X where lv: "lview G T X st" and tr: "tracked G T" and stored: "stored_in M D R X"
    using assms(1) by (auto simp: ledger_inv_in_def)
  have room: "pointer_count G + card (dom G) + event_pointers e + 1 < 2 ^ 30"
    using assms(4) lv by (simp add: has_room_def led_view_def)
  have "ends (handleEvent M e) st (\<lambda>_. linv D R)"
  proof (cases e)
    case (Submit d)
    have "ends (onDataSubmission M d) st (\<lambda>_. linv D R)"
      by (rule submit_ends [OF lv tr assms(2)]) (use assms(3,5,6) room stored Submit in simp_all)
    then have "ends (bindM (onDataSubmission M d) (\<lambda>_. ret ())) st (\<lambda>_. linv D R)"
      by (rule ends_bindI) (simp_all add: ends_ret)
    with Submit show ?thesis by simp
  next
    case (Receive r)
    with receive_ends [OF lv tr, of r] assms(3,5) room stored show ?thesis by simp
  next
    case ReplyTimer
    with timer_ends [OF lv tr assms(2)] room stored show ?thesis by simp
  next
    case (Query i)
    with preserves_inv [OF preserves_queries(1) assms(1)] show ?thesis by (simp add: ends_def)
  next
    case (InternalQuery i)
    with preserves_inv [OF preserves_queries(2) assms(1)] show ?thesis by (simp add: ends_def)
  next
    case (SegmentInterest v i)
    with preserves_inv [OF preserves_sessions(1) assms(1)] show ?thesis by (simp add: ends_def)
  next
    case (SessionEnd v)
    with preserves_inv [OF preserves_sessions(2) assms(1)] show ?thesis by (simp add: ends_def)
  qed
  then show ?thesis by (simp add: ends_def)
qed

section \<open>Start\<close>

lemma init_ok:
  assumes "dag_fresh C ok st" and "C (store st) (trackerName M) = None"
  shows "runs (initTracker M) st (\<lambda>_. lview Map.empty {} (outer M (C (store st))))"
proof -
  let ?l = "\<lparr>listName = trackerName M, listKey = globalTracker, listValue = [], nextList = getStateListNull\<rparr>"
  have wfl: "wf_list ?l"
    by (simp add: wf_list_def trackerName_def toStateListName_def stateListNameHeader_def wf_numberComp getStateListNull_def)
  have ok: "ok (store st)" using assms(1) by (simp add: dag_fresh_def)
  obtain t where t: "addBlockM (intf M) (trackerName M) (encodeEdgeStateList (lib M) ?l) st = (Inr (), st\<lparr>store := t\<rparr>)"
    "ok t" "C t = (C (store st))(trackerName M \<mapsto> encodeEdgeStateList (lib M) ?l)"
    using addBlockM_ok [OF ok assms(2), of "encodeEdgeStateList (lib M) ?l"] by auto
  have "dag_fresh C ok (st\<lparr>store := t\<rparr>)"
    using assms(1) t(2,3) by (auto simp: dag_fresh_def)
  then have "dag_inv (lib M) C ok (evaluater M) (st\<lparr>store := t\<rparr>) \<and> stateGraph (lib M) C (st\<lparr>store := t\<rparr>) = Map.empty"
    by (rule dag_inv_fresh)
  then have "lview Map.empty {} (outer M (C (store st))) (st\<lparr>store := t\<rparr>)"
    using wfl by (simp add: led_view_def tracks_def t(3) decode_encodeEdgeStateList outer_put outer_name_def)
  then show ?thesis
    using t(1) by (auto simp: initTracker_def runs_def catchM_def)
qed

end

section \<open>Reachable states\<close>

definition ledger_fresh :: "'s ledger \<Rightarrow> ('s \<Rightarrow> name \<Rightarrow> block option) \<Rightarrow> ('s \<Rightarrow> bool) \<Rightarrow> 's ledger_state \<Rightarrow> bool" where
  "ledger_fresh M C ok st \<longleftrightarrow> dag_fresh C ok st \<and> C (store st) (trackerName M) = None"

inductive ledger_reach :: "'s ledger \<Rightarrow> ('s \<Rightarrow> name \<Rightarrow> block option) \<Rightarrow> ('s \<Rightarrow> bool) \<Rightarrow> 's ledger_state \<Rightarrow> bool"
  for M C ok where
  start: "ledger_fresh M C ok st \<Longrightarrow> ledger_reach M C ok (snd (initTracker M st))"
| event: "ledger_reach M C ok st \<Longrightarrow> event_ok M e \<Longrightarrow> has_room (stateGraph (lib M) C st) e \<Longrightarrow>
    ledger_reach M C ok (snd (handleEvent M e st))"

text \<open>The same with packets named in \<open>D\<close> and records named in \<open>R\<close> only.\<close>

inductive ledger_reach_in :: "'s ledger \<Rightarrow> ('s \<Rightarrow> name \<Rightarrow> block option) \<Rightarrow> ('s \<Rightarrow> bool) \<Rightarrow> name set \<Rightarrow> name set \<Rightarrow>
    's ledger_state \<Rightarrow> bool" for M C ok D R where
  start: "ledger_fresh M C ok st \<Longrightarrow> stored_in M D R (outer M (C (store st))) \<Longrightarrow>
    ledger_reach_in M C ok D R (snd (initTracker M st))"
| event: "ledger_reach_in M C ok D R st \<Longrightarrow> event_ok M e \<Longrightarrow> event_in M D R e \<Longrightarrow>
    has_room (stateGraph (lib M) C st) e \<Longrightarrow> ledger_reach_in M C ok D R (snd (handleEvent M e st))"

lemma reach_in_reach: "ledger_reach_in M C ok D R st \<Longrightarrow> ledger_reach M C ok st"
  by (induction rule: ledger_reach_in.induct) (auto intro: ledger_reach.intros)

context ledger_instance
begin

lemma reach_inv: "ledger_reach M C ok st \<Longrightarrow> prefix_ok M \<Longrightarrow> ledger_inv M C ok st"
proof (induction rule: ledger_reach.induct)
  case (start st)
  then have "runs (initTracker M) st (\<lambda>_. lview Map.empty {} (outer M (C (store st))))"
    by (intro init_ok) (simp_all add: ledger_fresh_def)
  then show ?case by (auto simp: runs_def intro: ledger_invI)
next
  case (event st e)
  then have "ledger_inv_in M C ok UNIV UNIV (snd (handleEvent M e st))"
    by (intro event_ends) (simp_all add: ledger_inv_in_UNIV event_in_UNIV)
  then show ?case by (simp add: ledger_inv_in_UNIV)
qed

lemma reach_in_inv: "ledger_reach_in M C ok D R st \<Longrightarrow> prefix_ok M \<Longrightarrow> own_names M \<subseteq> R \<Longrightarrow> ledger_inv_in M C ok D R st"
proof (induction rule: ledger_reach_in.induct)
  case (start st)
  then have "runs (initTracker M) st (\<lambda>_. lview Map.empty {} (outer M (C (store st))))"
    by (intro init_ok) (simp_all add: ledger_fresh_def)
  with start(2) show ?case by (auto simp: runs_def intro: inv_inI)
next
  case (event st e)
  then show ?case by (intro event_ends) simp_all
qed

end

end
