(* ===== verification/Ledger_Theorems.thy ===== *)
theory Ledger_Theorems
  imports Ledger_Reach
begin

text \<open>
  The properties of the ledger instance, over any storage backend, codec and sync library that keep
  their contracts (\<open>ledger_setup\<close>); the witnesses use a ledger on the memory backend.
\<close>

definition ledger_setup :: "'s ledger \<Rightarrow> ('s \<Rightarrow> name \<Rightarrow> block option) \<Rightarrow> ('s \<Rightarrow> bool) \<Rightarrow> bool" where
  "ledger_setup M C ok \<longleftrightarrow> ndn_codec (lib M) \<and> block_store (intf M) C ok \<and> svs_counts (svs M)
     \<and> svs_packet_names (lib M) (svs M)"

lemma setup_instance: "ledger_setup M C ok \<Longrightarrow> ledger_instance M C ok"
  by (simp add: ledger_setup_def ledger_instance_def dag_module_def dag_store_def evaluater_def
      interlock_policy_getInterface ledger_instance_axioms_def)

section \<open>A ledger for the witnesses\<close>

definition demoConfig :: ledger_config where
  "demoConfig = default_config\<lparr>ledgerPrefix := [generic ''ledger''], instanceSuffix := [generic ''alice''],
     policyType := ''policy-witness'', recordZones := [[generic ''example'']], freshnessPeriod := 1000\<rparr>"

definition demoLedger :: "memory ledger" where
  "demoLedger = \<lparr>lib = ndnTlv, intf = mem_getInterface, svs = demoSvs ndnTlv, face = demoFace,
     policyClass = InterlockPolicyWitness, config = demoConfig, replyPeriod = 3000,
     validate = (\<lambda>d. Some (content d \<noteq> Block tlv_Content '''')), isCertName = (\<lambda>n. length n = 5)\<rparr>"

definition demoCert :: data where
  "demoCert = \<lparr>dataName = map generic [''bob'', ''KEY'', ''k'', ''i'', ''v''], contentType = 2,
     content = Block tlv_Content ''c'', freshness = 1000, finalBlock = None, signature = ''s''\<rparr>"

lemma demoLedger_simps [simp]:
  "lib demoLedger = ndnTlv" "intf demoLedger = mem_getInterface" "svs demoLedger = demoSvs ndnTlv"
  "face demoLedger = demoFace" "config demoLedger = demoConfig" "policyClass demoLedger = InterlockPolicyWitness"
  "validate demoLedger d = Some (content d \<noteq> Block tlv_Content '''')" "isCertName demoLedger n \<longleftrightarrow> length n = 5"
  "instancePrefix demoLedger = [generic ''ledger'', generic ''alice'']" "replyPeriod demoLedger = 3000"
  by (simp_all add: demoLedger_def instancePrefix_def demoConfig_def default_config_def)

interpretation mem_dag_store: dag_store ndnTlv mem_getInterface "\<lambda>m. m" "\<lambda>_. True"
  by unfold_locales

interpretation mem_dag: dag_module ndnTlv mem_getInterface "\<lambda>m. m" "\<lambda>_. True" witness_evaluate
  by unfold_locales

interpretation level_dag: dag_module ndnTlv "level_getInterface ndnTlv map_database"
  "level_contents ndnTlv (\<lambda>db. db)" "level_ok ndnTlv (\<lambda>db. db)" descendants_evaluate
  by unfold_locales

lemma demo_ledger: "ledger_setup demoLedger (\<lambda>m. m) (\<lambda>_. True)"
  by (simp add: ledger_setup_def tlv.ndn_codec_axioms mem.block_store_axioms)

interpretation demo: ledger_instance demoLedger "\<lambda>m. m" "\<lambda>_. True"
  by (rule setup_instance [OF demo_ledger])

lemma demo_prefix: "prefix_ok demoLedger"
  by (simp add: prefix_ok_def generic_def keyword_def wf_component_def)

text \<open>The state of the demo ledger after its constructor.\<close>

definition demoStart :: "memory ledger_state" where
  "demoStart = snd (initTracker demoLedger (newLedgerState Map.empty 0))"

lemma demo_fresh: "ledger_fresh demoLedger (\<lambda>m. m) (\<lambda>_. True) (newLedgerState Map.empty 0)"
  by (simp add: ledger_fresh_def dag_fresh_def newLedgerState_def)

lemma demo_reach: "ledger_reach demoLedger (\<lambda>m. m) (\<lambda>_. True) demoStart"
  unfolding demoStart_def by (rule ledger_reach.start [OF demo_fresh])

lemma demo_inv: "ledger_inv demoLedger (\<lambda>m. m) (\<lambda>_. True) demoStart"
  by (rule demo.reach_inv [OF demo_reach demo_prefix])

lemma demo_start: "demoStart = (newLedgerState [trackerName demoLedger \<mapsto> encodeEdgeStateList ndnTlv
    \<lparr>listName = trackerName demoLedger, listKey = globalTracker, listValue = [], nextList = getStateListNull\<rparr>] 0)"
  by (simp add: demoStart_def initTracker_def newLedgerState_def mem_getInterface_def mem_addBlock_def
      addBlockM_def catchM_def Let_def)

lemma demo_graph: "stateGraph ndnTlv (\<lambda>m. m) demoStart = Map.empty"
  by (auto simp: demo_start newLedgerState_def stateGraph_def graphOf_def fun_eq_iff)

lemma pointer_count_empty [simp]: "pointer_count Map.empty = 0"
  by (simp add: pointer_count_def)

lemma demo_next: "nextName demoLedger demoStart = [generic ''ledger'', generic ''alice'', sequenceComp ndnTlv 1]"
  by (simp add: nextName_def demo_start newLedgerState_def)

section \<open>From the invariant to the view\<close>

lemma inv_led:
  assumes "ledger_inv M C ok st"
  obtains T where "led_view M C ok (stateGraph (lib M) C st) T (outer M (C (store st))) st"
    and "tracked (stateGraph (lib M) C st) T"
  using assms unfolding ledger_inv_def led_view_def by blast

lemma led_view_reads:
  assumes "led_view M C ok G T X st"
  shows "stateGraph (lib M) C st = G" and "outer_name M n \<Longrightarrow> C (store st) n = X n"
    and "tracks M (C (store st)) T"
  using assms led_view_outer [OF assms] by (simp_all add: led_view_def)

lemma outer_at: "outer_name M n \<Longrightarrow> outer M c n = c n"
  by (simp add: outer_def outer_name_def)

text \<open>A submission that is new to a ledger whose next publication is stored below \<open>z\<close>.\<close>

definition nextSync :: "'s ledger \<Rightarrow> 's ledger_state \<Rightarrow> name" where
  "nextSync M st = syncName M (svsSeq st + 1)"

definition new_submission :: "'s ledger \<Rightarrow> (name \<rightharpoonup> block) \<Rightarrow> data \<Rightarrow> name \<Rightarrow> bool" where
  "new_submission M c d z \<longleftrightarrow> outer_name M (dataName d) \<and> c (dataName d) = None
     \<and> (\<forall>suf. c (z @ suf) = None \<and> z @ suf \<noteq> dataName d)
     \<and> (let m = toMapName (lib M) (wire (lib M) (dataBlock (lib M) d)) in c m = None \<and> m \<noteq> dataName d)"

lemma submission_new_iff:
  assumes "led_view M C ok G T (outer M (C (store st))) st" and "ledger_setup M C ok" and "prefix_ok M"
    and "new_submission M (C (store st)) d (nextSync M st)"
    and "pointer_count G + card (dom G) + 1 < 2 ^ 30"
  shows "submission_new M G (outer M (C (store st))) d st"
proof -
  have "length (pointers (submissionRecord M d st)) \<le> card (dom G) + 1"
    using ledger_instance.tips_length [OF setup_instance [OF assms(2)] assms(1)] by (simp add: submissionRecord_def)
  then show ?thesis
    using assms(3-5) sync_outer [OF assms(3)]
    by (simp add: submission_new_def new_submission_def nextSync_def outer_at Let_def)
qed

text \<open>What a successful submission leaves behind: besides edge states and tracker, the packet, the packets
  in which the sync library publishes its record, and the payload map, and nothing else new.\<close>

definition submitted :: "'s ledger \<Rightarrow> ('s \<Rightarrow> name \<Rightarrow> block option) \<Rightarrow> data \<Rightarrow> 's ledger_state \<Rightarrow> 's ledger_state \<Rightarrow> bool" where
  "submitted M C d st st' \<longleftrightarrow> (let r = submissionRecord M d st; sn = toStateName (recName r);
       p = publication M (svsSeq st + 1) r in
     stateGraph (lib M) C st' = harvested M (graphAdd (stateGraph (lib M) C st) r)
     \<and> C (store st') (dataName d) = Some (dataBlock (lib M) d)
     \<and> p \<noteq> [] \<and> (\<forall>x \<in> set p. C (store st') (dataName x) = Some (dataBlock (lib M) x))
     \<and> C (store st') (toMapName (lib M) (payload r)) = Some (payloadMapOf M (payload r) sn)
     \<and> outer M (C (store st')) = (putPackets (lib M) p ((outer M (C (store st)))(dataName d \<mapsto> dataBlock (lib M) d)))
         (toMapName (lib M) (payload r) \<mapsto> payloadMapOf M (payload r) sn)
     \<and> (\<exists>T. tracks M (C (store st')) T \<and> sn \<in> T)
     \<and> seqNo st' = svsSeq st + 1 \<and> svsSeq st' = svsSeq st + 1)"

section \<open>Properties of submissions\<close>

lemma submission_run:
  assumes "ledger_setup M C ok" and "prefix_ok M" and "ledger_inv M C ok st"
    and "validate M d = Some True" and "new_submission M (C (store st)) d (nextSync M st)"
    and "has_room (stateGraph (lib M) C st) (Submit d)"
  shows "runs (onDataSubmission M d) st (\<lambda>status st'.
    status = SUCCESS \<and> submitted M C d st st' \<and> ledger_inv M C ok st')"
proof -
  let ?G = "stateGraph (lib M) C st" and ?r = "submissionRecord M d st" and ?X = "outer M (C (store st))"
  obtain T where lv: "led_view M C ok ?G T ?X st" and tr: "tracked ?G T" using inv_led [OF assms(3)] .
  have new: "submission_new M ?G ?X d st"
    by (rule submission_new_iff [OF lv assms(1,2,5)]) (use assms(6) in \<open>simp add: has_room_def\<close>)
  let ?p = "publication M (svsSeq st + 1) ?r" and ?m = "toMapName (lib M) (payload ?r)"
  let ?pm = "payloadMapOf M (payload ?r) (toStateName (recName ?r))"
  have "svs_packet_names (lib M) (svs M)" using assms(1) by (simp add: ledger_setup_def)
  note pn = publication_names [OF this, where k = "svsSeq st + 1" and r = ?r]
  have names: "outer_name M (dataName d)" "?m \<noteq> dataName d" using new
    by (simp_all add: submission_new_def submissionRecord_def Let_def)
  have below: "outer_name M (dataName x) \<and> dataName x \<noteq> dataName d \<and> dataName x \<noteq> ?m" if "x \<in> set ?p" for x
  proof -
    obtain suf where "dataName x = syncName M (svsSeq st + 1) @ suf" using pn(3) \<open>x \<in> set ?p\<close> by blast
    then show ?thesis
      using new sync_outer [OF assms(2)] map_name_sync [OF assms(2), of "payload ?r" "svsSeq st + 1" suf]
      by (auto simp: submission_new_def Let_def)
  qed
  have "runs (afterValidation M d) st (\<lambda>_ st'. submitted M C d st st' \<and> ledger_inv M C ok st')"
  proof (rule runs_mono [OF ledger_instance.afterValidation_ok [OF setup_instance [OF assms(1)] lv new refl refl refl]],
      elim conjE, rule conjI)
    fix st'
    assume lv': "led_view M C ok (harvested M (graphAdd ?G ?r))
      (insert (toStateName (recName ?r)) T \<union> ripeIn M (graphAdd ?G ?r))
      ((putPackets (lib M) ?p (?X(dataName d \<mapsto> dataBlock (lib M) d)))(?m \<mapsto> ?pm)) st'"
      and seq: "seqNo st' = svsSeq st + 1" "svsSeq st' = svsSeq st + 1"
    note reads = led_view_reads [OF lv']
    show "ledger_inv M C ok st'"
      by (rule ledger_invI [OF lv' tracked_harvest [OF tracked_add(2) [OF tr]]])
    have "dataName d \<notin> dataName ` set ?p" using below by force
    then have "C (store st') (dataName d) = Some (dataBlock (lib M) d)"
      using reads(2) [OF names(1)] names(2) by (simp add: putPackets_other)
    moreover have "\<forall>x \<in> set ?p. C (store st') (dataName x) = Some (dataBlock (lib M) x)"
      using below reads(2) putPackets_in [OF pn(2)] by simp
    moreover have "C (store st') ?m = Some ?pm" using reads(2) [OF outer_name_map] by simp
    moreover have "outer M (C (store st')) = (putPackets (lib M) ?p (?X(dataName d \<mapsto> dataBlock (lib M) d)))(?m \<mapsto> ?pm)"
      using lv' by (simp add: led_view_def)
    ultimately show "submitted M C d st st'"
      unfolding submitted_def Let_def using reads(1,3) pn(1) seq by blast
  qed
  then show ?thesis
    using assms(4) by (simp add: onDataSubmission_def runs_catchI runs_rules)
qed

lemma demo_names: "demoConfig = config demoLedger" "outer_name demoLedger (dataName demoCert)"
  "\<not> is_state_name (dataName demoCert)" "dataName demoCert \<noteq> toStateListName ndnTlv k"
  "dataName demoCert \<noteq> toMapName ndnTlv p" "dataName demoCert \<noteq> syncName demoLedger j @ suf"
  by (simp_all add: outer_name_def is_state_name_def demoCert_def stateNameHeader_def generic_def keyword_def
      trackerName_def toStateListName_def stateListNameHeader_def toMapName_def mapNameHeader_def syncName_def syncDataName_def)

lemma demo_store: "store demoStart n = None \<longleftrightarrow> n \<noteq> trackerName demoLedger"
  by (simp add: demo_start newLedgerState_def)

lemma demo_new: "new_submission demoLedger (store demoStart) demoCert (nextSync demoLedger demoStart)"
proof -
  have "nextSync demoLedger demoStart @ suf \<noteq> trackerName demoLedger" for suf
    using sync_outer [OF demo_prefix] by (simp add: outer_name_def nextSync_def)
  then show ?thesis
    using demo_names(2,5) not_sym [OF demo_names(5)] not_sym [OF demo_names(6)]
    by (auto simp: new_submission_def demo_store outer_name_def Let_def trackerName_def nextSync_def)
qed

lemma demo_room: "has_room (stateGraph ndnTlv (\<lambda>m. m) demoStart) (Submit d)"
  "has_room (stateGraph ndnTlv (\<lambda>m. m) demoStart) ReplyTimer"
  by (simp_all add: demo_graph has_room_def)

text \<open>C4: a validated submission that is new is answered with success, and its effect is complete: the
  packet, the packets in which the sync library publishes exactly its record, and the payload map are stored
  (and nothing else besides edge states and tracker changes), the record is in the DAG and in the global
  tracker with the pointers it should have, and the DAG has been harvested.\<close>

theorem submission_accepted:
  assumes "ledger_setup M C ok" and "prefix_ok M" and "ledger_inv M C ok st"
    and "validate M d = Some True" and "new_submission M (C (store st)) d (nextSync M st)"
    and "has_room (stateGraph (lib M) C st) (Submit d)"
  shows "runs (onDataSubmission M d) st (\<lambda>status st'.
    status = SUCCESS \<and> submitted M C d st st' \<and> ledger_inv M C ok st')"
  using assms by (rule submission_run)

theorem submission_accepted_witness:
  "runs (onDataSubmission demoLedger demoCert) demoStart (\<lambda>status st'. status = SUCCESS
    \<and> submitted demoLedger (\<lambda>m. m) demoCert demoStart st' \<and> ledger_inv demoLedger (\<lambda>m. m) (\<lambda>_. True) st')"
  by (rule submission_accepted [OF demo_ledger demo_prefix demo_inv])
     (simp_all add: demo_new demo_room, simp add: demoCert_def)

text \<open>Submitting a packet whose name is stored already, or one that the validator refuses, changes
  nothing; the former is answered with success.\<close>

lemma submission_without_effect:
  assumes "ledger_setup M C ok" and "ledger_inv M C ok st" and "\<not> is_state_name (dataName d)"
    and "validate M d = Some False \<or> (validate M d = Some True \<and> C (store st) (dataName d) \<noteq> None)"
  shows "onDataSubmission M d st = (Inr (if validate M d = Some True then SUCCESS else FAILURE_VALIDATION_APP), st)"
  using assms(4)
proof
  assume "validate M d = Some False"
  then show ?thesis by (simp add: onDataSubmission_def ret_def)
next
  assume *: "validate M d = Some True \<and> C (store st) (dataName d) \<noteq> None"
  obtain T where lv: "led_view M C ok (stateGraph (lib M) C st) T (outer M (C (store st))) st"
    using inv_led [OF assms(2)] .
  have "present M (outer M (C (store st))) (dataName d)" using * led_view_present [OF lv assms(3)] by simp
  note dup = ledger_instance.putOld_ok [OF setup_instance [OF assms(1)] lv assms(3) this, of "dataBlock (lib M) d"]
  have "afterValidation M d st = (Inr (), st)"
    unfolding afterValidation_def bindM_def [of "catchM x y z" for x y z] by (simp add: dup, simp add: ret_def)
  with * show ?thesis by (simp add: onDataSubmission_def catchM_def bindM_def ret_def)
qed

definition demoSubmitted :: "memory ledger_state" where
  "demoSubmitted = snd (onDataSubmission demoLedger demoCert demoStart)"

lemma demo_submitted: "ledger_inv demoLedger (\<lambda>m. m) (\<lambda>_. True) demoSubmitted"
  "store demoSubmitted (dataName demoCert) \<noteq> None"
proof -
  have "runs (onDataSubmission demoLedger demoCert) demoStart (\<lambda>status st'. status = SUCCESS
    \<and> submitted demoLedger (\<lambda>m. m) demoCert demoStart st' \<and> ledger_inv demoLedger (\<lambda>m. m) (\<lambda>_. True) st')"
    by (rule submission_run [OF demo_ledger demo_prefix demo_inv])
       (simp_all add: demo_new demo_room, simp add: demoCert_def)
  then show "ledger_inv demoLedger (\<lambda>m. m) (\<lambda>_. True) demoSubmitted" "store demoSubmitted (dataName demoCert) \<noteq> None"
    by (auto simp: runs_def demoSubmitted_def submitted_def Let_def)
qed


definition demoCert2 :: data where
  "demoCert2 = demoCert\<lparr>dataName := map generic [''carl'', ''KEY'', ''k'', ''i'', ''v'']\<rparr>"

lemma demo_names2: "outer_name demoLedger (dataName demoCert2)" "dataName demoCert2 \<noteq> dataName demoCert"
  "dataName demoCert2 \<noteq> toMapName ndnTlv p" "dataName demoCert2 \<noteq> syncName demoLedger j @ suf"
  "validate demoLedger demoCert2 = Some True"
  by (simp_all add: outer_name_def is_state_name_def demoCert2_def demoCert_def stateNameHeader_def generic_def keyword_def
      trackerName_def toStateListName_def stateListNameHeader_def toMapName_def mapNameHeader_def syncName_def syncDataName_def)

lemma demo_reach_in: "ledger_reach_in demoLedger (\<lambda>m. m) (\<lambda>_. True) {dataName demoCert} (own_names demoLedger) demoSubmitted"
proof -
  have "outer demoLedger (store (newLedgerState Map.empty 0)) = Map.empty"
    by (simp add: outer_def newLedgerState_def fun_eq_iff)
  then have "ledger_reach_in demoLedger (\<lambda>m. m) (\<lambda>_. True) {dataName demoCert} (own_names demoLedger) demoStart"
    unfolding demoStart_def by (intro ledger_reach_in.start [OF demo_fresh]) simp
  then have "ledger_reach_in demoLedger (\<lambda>m. m) (\<lambda>_. True) {dataName demoCert} (own_names demoLedger)
      (snd (handleEvent demoLedger (Submit demoCert) demoStart))"
    by (rule ledger_reach_in.event) (simp_all add: demo_names(3) demo_room)
  then show ?thesis
    by (simp add: demoSubmitted_def bindM_def ret_def split: prod.splits sum.splits)
qed

lemma demo_stored: "store demoSubmitted (trackerName demoLedger) \<noteq> None" "store demoSubmitted (dataName demoCert2) = None"
  "store demoSubmitted (syncName demoLedger 1) \<noteq> None"
proof -
  obtain G T X where lv: "led_view demoLedger (\<lambda>m. m) (\<lambda>_. True) G T X demoSubmitted"
    and X: "stored_in demoLedger {dataName demoCert} (own_names demoLedger) X"
    using demo.reach_in_inv [OF demo_reach_in demo_prefix] by (auto simp: ledger_inv_in_def)
  show "store demoSubmitted (trackerName demoLedger) \<noteq> None" using lv by (auto simp: led_view_def tracks_def)
  have "X (dataName demoCert2) = None"
  proof (rule ccontr)
    assume "X (dataName demoCert2) \<noteq> None"
    then obtain b where "X (dataName demoCert2) = Some b" by blast
    then consider k suf where "dataName demoCert2 = syncName demoLedger k @ suf"
      | p where "dataName demoCert2 = toMapName ndnTlv p"
      using X demo_names2(2) unfolding stored_in_def demoLedger_simps by blast
    then show False using demo_names2(3,4) by cases blast+
  qed
  then show "store demoSubmitted (dataName demoCert2) = None"
    using led_view_outer [OF lv demo_names2(1)] by simp
  have "runs (onDataSubmission demoLedger demoCert) demoStart (\<lambda>status st'. status = SUCCESS
    \<and> submitted demoLedger (\<lambda>m. m) demoCert demoStart st' \<and> ledger_inv demoLedger (\<lambda>m. m) (\<lambda>_. True) st')"
    by (rule submission_run [OF demo_ledger demo_prefix demo_inv])
       (simp_all add: demo_new demo_room, simp add: demoCert_def)
  then have "submitted demoLedger (\<lambda>m. m) demoCert demoStart demoSubmitted"
    by (auto simp: runs_def demoSubmitted_def)
  moreover have "svsSeq demoStart = 0" by (simp add: demo_start newLedgerState_def)
  ultimately show "store demoSubmitted (syncName demoLedger 1) \<noteq> None"
    by (auto simp: submitted_def Let_def publication_def demoSvs_def emptyData_def syncName_def)
qed


section \<open>Properties of received records\<close>

text \<open>C5: a received record whose payload is a new packet, or that is a reply record, is added to the DAG
  and to the tracker, the DAG is harvested and the reply timer started anew. Of a reply record nothing else is
  stored; for any other, its payload is stored as it is under the name of the packet in it, and a payload map
  that leads from the payload to its edge state, unless one is stored already.\<close>

theorem record_received:
  assumes "ledger_setup M C ok" and "ledger_inv M C ok st" and "event_ok M (Receive r)"
    and "has_room (stateGraph (lib M) C st) (Receive r)"
    and "recType r = REPLY_RECORD \<or> (readBlock (lib M) (payload r) = Some b \<and> dataOf (lib M) b = Inr d
      \<and> C (store st) (dataName d) = None)"
  shows "runs (onSyncRecord M r) st (\<lambda>_ st'. let H = graphAdd (stateGraph (lib M) C st) r in
    stateGraph (lib M) C st' = harvested M H
    \<and> (\<exists>T. tracks M (C (store st')) T \<and> toStateName (recName r) \<in> T \<and> ripeIn M H \<subseteq> T)
    \<and> outer M (C (store st')) = (if recType r = REPLY_RECORD then outer M (C (store st))
        else putNew ((outer M (C (store st)))(dataName d \<mapsto> b)) (toMapName (lib M) (payload r))
          (payloadMapOf M (payload r) (toStateName (recName r))))
    \<and> (recType r \<noteq> REPLY_RECORD \<longrightarrow> C (store st') (dataName d) = Some b
        \<and> (C (store st) (toMapName (lib M) (payload r)) = None \<longrightarrow> toMapName (lib M) (payload r) \<noteq> dataName d \<longrightarrow>
            C (store st') (toMapName (lib M) (payload r)) = Some (payloadMapOf M (payload r) (toStateName (recName r)))))
    \<and> replyEvent st' = Some (replyPeriod M)
    \<and> ledger_inv M C ok st')"
proof -
  let ?G = "stateGraph (lib M) C st" and ?X = "outer M (C (store st))" and ?H = "graphAdd (stateGraph (lib M) C st) r"
  let ?sn = "toStateName (recName r)" and ?m = "toMapName (lib M) (payload r)"
  note inst = setup_instance [OF assms(1)]
  obtain T where lv: "led_view M C ok ?G T ?X st" and tr: "tracked ?G T" using inv_led [OF assms(2)] .
  define X' where "X' = (if recType r = REPLY_RECORD then ?X
    else putNew (?X(dataName d \<mapsto> b)) (toMapName (lib M) (payload r)) (payloadMapOf M (payload r) ?sn))"
  have outer: "outer_name M (dataName d)" if "recType r \<noteq> REPLY_RECORD"
  proof -
    have *: "\<not> is_state_name (dataName d)" "C (store st) (dataName d) = None" using assms(3,5) that by simp_all
    then show ?thesis using led_view_present [OF lv *(1)] by (simp add: outer_name_def present_def)
  qed
  have new: "if recType r = REPLY_RECORD then X' = ?X
      else readBlock (lib M) (payload r) = Some b \<and> dataOf (lib M) b = Inr d \<and> outer_name M (dataName d)
        \<and> ?X (dataName d) = None
        \<and> X' = putNew (?X(dataName d \<mapsto> b)) (toMapName (lib M) (payload r)) (payloadMapOf M (payload r) ?sn)"
    using assms(5) outer by (auto simp: X'_def outer_at)
  have wf: "wf_record r" and room: "pointer_count ?G + length (pointers r) < 2 ^ 30"
    using assms(3,4) by (simp_all add: has_room_def)
  show ?thesis
  proof (rule runs_mono [OF ledger_instance.onSyncRecord_new [OF inst lv wf room refl refl new]], elim conjE)
    fix st' assume lv': "led_view M C ok (harvested M ?H) (insert ?sn T \<union> ripeIn M ?H) X' st'"
      and timer: "replyEvent st' = Some (replyPeriod M)"
    note reads = led_view_reads [OF lv']
    have "ledger_inv M C ok st'"
      by (rule ledger_invI [OF lv' tracked_harvest [OF tracked_add(2) [OF tr]]])
    moreover have "outer M (C (store st')) = X'" using lv' by (simp add: led_view_def)
    moreover have "C (store st') (dataName d) = Some b \<and> (C (store st) ?m = None \<longrightarrow> ?m \<noteq> dataName d \<longrightarrow>
        C (store st') ?m = Some (payloadMapOf M (payload r) ?sn))" if "recType r \<noteq> REPLY_RECORD"
      using that reads(2) [OF outer [OF that]] reads(2) [OF outer_name_map, of "payload r"]
      by (auto simp: X'_def putNew_def outer_at split: option.split)
    ultimately show "let H = ?H in stateGraph (lib M) C st' = harvested M H
      \<and> (\<exists>T. tracks M (C (store st')) T \<and> ?sn \<in> T \<and> ripeIn M H \<subseteq> T)
      \<and> outer M (C (store st')) = (if recType r = REPLY_RECORD then ?X
          else putNew (?X(dataName d \<mapsto> b)) ?m (payloadMapOf M (payload r) ?sn))
      \<and> (recType r \<noteq> REPLY_RECORD \<longrightarrow> C (store st') (dataName d) = Some b
          \<and> (C (store st) ?m = None \<longrightarrow> ?m \<noteq> dataName d \<longrightarrow> C (store st') ?m = Some (payloadMapOf M (payload r) ?sn)))
      \<and> replyEvent st' = Some (replyPeriod M) \<and> ledger_inv M C ok st'"
      unfolding Let_def X'_def using reads(1,3) timer by blast
  qed
qed

definition demoRecord :: ledger_record where
  "demoRecord = \<lparr>recName = [generic ''ledger'', generic ''carol'', sequenceComp ndnTlv 1], recType = GENERIC_RECORD,
     pointers = [[generic ''ledger'', generic ''alice'', sequenceComp ndnTlv 1]],
     payload = wire ndnTlv (dataBlock ndnTlv demoCert)\<rparr>"

lemma demo_record: "recType demoRecord \<noteq> REPLY_RECORD" "readBlock ndnTlv (payload demoRecord) = Some (dataBlock ndnTlv demoCert)"
  "dataOf ndnTlv (dataBlock ndnTlv demoCert) = Inr demoCert" "wf_record demoRecord"
  "event_ok demoLedger (Receive demoRecord)" "has_room (stateGraph ndnTlv (\<lambda>m. m) demoStart) (Receive demoRecord)"
proof -
  have "wf_data demoCert"
    by (simp add: wf_data_def demoCert_def tlv_Content_def)
  then show d: "dataOf ndnTlv (dataBlock ndnTlv demoCert) = Inr demoCert"
    by (simp add: dataOf_def dataBlock_def tlv.readDataBytes_dataBytes)
  show b: "readBlock ndnTlv (payload demoRecord) = Some (dataBlock ndnTlv demoCert)"
    by (simp add: demoRecord_def tlv.readBlock_wire)
  show wf: "wf_record demoRecord"
    by (simp add: wf_record_def demoRecord_def tlv.wf_sequenceComp)
  show "recType demoRecord \<noteq> REPLY_RECORD"
    by (simp add: demoRecord_def GENERIC_RECORD_def REPLY_RECORD_def)
  show "event_ok demoLedger (Receive demoRecord)"
    using d b wf demo_names(3) by simp
  show "has_room (stateGraph ndnTlv (\<lambda>m. m) demoStart) (Receive demoRecord)"
    by (simp add: demo_graph has_room_def demoRecord_def)
qed

theorem record_received_witness:
  "runs (onSyncRecord demoLedger demoRecord) demoStart (\<lambda>_ st'.
    stateGraph ndnTlv (\<lambda>m. m) st' = harvested demoLedger (graphAdd Map.empty demoRecord)
    \<and> (\<exists>T. tracks demoLedger (store st') T \<and> toStateName (recName demoRecord) \<in> T)
    \<and> store st' (dataName demoCert) = Some (dataBlock ndnTlv demoCert)
    \<and> store st' (toMapName ndnTlv (payload demoRecord)) =
        Some (payloadMapOf demoLedger (payload demoRecord) (toStateName (recName demoRecord))))"
proof -
  have new: "recType demoRecord = REPLY_RECORD \<or> readBlock (lib demoLedger) (payload demoRecord) = Some (dataBlock ndnTlv demoCert)
      \<and> dataOf (lib demoLedger) (dataBlock ndnTlv demoCert) = Inr demoCert \<and> store demoStart (dataName demoCert) = None"
    using demo_record demo_names(4) by (simp add: demo_store trackerName_def)
  have room: "has_room (stateGraph (lib demoLedger) (\<lambda>m. m) demoStart) (Receive demoRecord)" using demo_record(6) by simp
  have "store demoStart (toMapName ndnTlv (payload demoRecord)) = None"
    using demo_store outer_name_map [of demoLedger] by (simp add: outer_name_def)
  then show ?thesis
    using record_received [OF demo_ledger demo_inv demo_record(5) room new] demo_record(1) not_sym [OF demo_names(5)]
    by (auto simp: Let_def demo_graph elim!: runs_mono)
qed

text \<open>C22: a record whose packet is stored under its name already (the same certificate submitted to two
  ledgers) is added to DAG and tracker, but the callback ends there: the DAG is not harvested, whatever has
  become ripe, and the payload map keeps pointing to the first record.\<close>

theorem duplicate_payload_received:
  assumes "ledger_setup M C ok" and "ledger_inv M C ok st" and "event_ok M (Receive r)"
    and "has_room (stateGraph (lib M) C st) (Receive r)"
    and "recType r \<noteq> REPLY_RECORD" and "readBlock (lib M) (payload r) = Some b" and "dataOf (lib M) b = Inr d"
    and "C (store st) (dataName d) \<noteq> None"
  shows "runs (onSyncRecord M r) st (\<lambda>_ st'.
    stateGraph (lib M) C st' = graphAdd (stateGraph (lib M) C st) r
    \<and> (\<exists>T. tracks M (C (store st')) T \<and> toStateName (recName r) \<in> T)
    \<and> C (store st') (toMapName (lib M) (payload r)) = C (store st) (toMapName (lib M) (payload r))
    \<and> ledger_inv M C ok st')"
proof -
  let ?G = "stateGraph (lib M) C st" and ?X = "outer M (C (store st))"
  note inst = setup_instance [OF assms(1)]
  obtain T where lv: "led_view M C ok ?G T ?X st" and tr: "tracked ?G T" using inv_led [OF assms(2)] .
  have ns: "\<not> is_state_name (dataName d)" and wf: "wf_record r" and room: "pointer_count ?G + length (pointers r) < 2 ^ 30"
    using assms(3-7) by (simp_all add: has_room_def)
  have "present M ?X (dataName d)" using assms(8) led_view_present [OF lv ns] by simp
  note dup = ledger_instance.onSyncRecord_dup [OF inst lv wf room assms(5-7) ns this]
  show ?thesis
  proof (rule runs_mono [OF dup], elim conjE)
    fix st' assume lv': "led_view M C ok (graphAdd ?G r) (insert (toStateName (recName r)) T) ?X st'"
    note reads = led_view_reads [OF lv']
    have "ledger_inv M C ok st'" by (rule ledger_invI [OF lv' tracked_add(2) [OF tr]])
    then show "stateGraph (lib M) C st' = graphAdd ?G r
      \<and> (\<exists>T. tracks M (C (store st')) T \<and> toStateName (recName r) \<in> T)
      \<and> C (store st') (toMapName (lib M) (payload r)) = C (store st) (toMapName (lib M) (payload r))
      \<and> ledger_inv M C ok st'"
      using reads by (auto simp: outer_at)
  qed
qed

definition demoOther :: "memory ledger_state" where
  "demoOther = demoStart\<lparr>store := (store demoStart)(dataName demoCert \<mapsto> dataBlock ndnTlv demoCert)\<rparr>"

lemma demo_other: "store demoOther (dataName demoCert) \<noteq> None" "ledger_inv demoLedger (\<lambda>m. m) (\<lambda>_. True) demoOther"
  "stateGraph ndnTlv (\<lambda>m. m) demoOther = Map.empty"
proof -
  obtain T where "led_view demoLedger (\<lambda>m. m) (\<lambda>_. True) Map.empty T (outer demoLedger (store demoStart)) demoStart"
    and tr: "tracked Map.empty T"
    using inv_led [OF demo_inv] by (auto simp: demo_graph)
  from led_view_put [OF this(1) demo_names(2)]
  have lv: "led_view demoLedger (\<lambda>m. m) (\<lambda>_. True) Map.empty T
      ((outer demoLedger (store demoStart))(dataName demoCert \<mapsto> dataBlock ndnTlv demoCert)) demoOther"
    unfolding demoOther_def by blast
  show "ledger_inv demoLedger (\<lambda>m. m) (\<lambda>_. True) demoOther" by (rule ledger_invI [OF lv tr])
  show "stateGraph ndnTlv (\<lambda>m. m) demoOther = Map.empty" using led_view_reads(1) [OF lv] by simp
  show "store demoOther (dataName demoCert) \<noteq> None" by (simp add: demoOther_def)
qed

theorem duplicate_payload_received_witness:
  "\<exists>st. store st (dataName demoCert) \<noteq> None \<and> runs (onSyncRecord demoLedger demoRecord) st (\<lambda>_ st'.
    stateGraph ndnTlv (\<lambda>m. m) st' = graphAdd (stateGraph ndnTlv (\<lambda>m. m) st) demoRecord)"
proof (intro exI [of _ demoOther] conjI)
  show "store demoOther (dataName demoCert) \<noteq> None" by (rule demo_other)
  show "runs (onSyncRecord demoLedger demoRecord) demoOther (\<lambda>_ st'.
    stateGraph ndnTlv (\<lambda>m. m) st' = graphAdd (stateGraph ndnTlv (\<lambda>m. m) demoOther) demoRecord)"
    by (rule runs_mono [OF duplicate_payload_received [OF demo_ledger demo_other(2), of demoRecord
          "dataBlock ndnTlv demoCert" demoCert]])
       (use demo_record demo_other in \<open>simp_all add: demo_graph\<close>)
qed

text \<open>A record whose payload is no packet ends the callback with an exception that nothing catches,
  after the record went into the DAG and the tracker, and before the harvest.\<close>

lemma malformed_payload_received:
  assumes "ledger_setup M C ok" and "ledger_inv M C ok st" and "event_ok M (Receive r)"
    and "has_room (stateGraph (lib M) C st) (Receive r)" and "recType r \<noteq> REPLY_RECORD"
    and "bindE (of_option (TlvError ''Block'') (readBlock (lib M) (payload r))) (dataOf (lib M)) = Inl e"
  shows "\<exists>st'. onSyncRecord M r st = (Inl e, st')
    \<and> stateGraph (lib M) C st' = graphAdd (stateGraph (lib M) C st) r
    \<and> (\<exists>T. tracks M (C (store st')) T \<and> toStateName (recName r) \<in> T) \<and> ledger_inv M C ok st'"
proof -
  let ?G = "stateGraph (lib M) C st" and ?X = "outer M (C (store st))"
  obtain T where lv: "led_view M C ok ?G T ?X st" and tr: "tracked ?G T" using inv_led [OF assms(2)] .
  have wf: "wf_record r" and room: "pointer_count ?G + length (pointers r) < 2 ^ 30"
    using assms(3,4) by (simp_all add: has_room_def)
  obtain st' where st': "onSyncRecord M r st = (Inl e, st')"
    and lv': "led_view M C ok (graphAdd ?G r) (insert (toStateName (recName r)) T) ?X st'"
    using ledger_instance.onSyncRecord_bad [OF setup_instance [OF assms(1)] lv wf room assms(5,6)] by blast
  note reads = led_view_reads [OF lv']
  have "ledger_inv M C ok st'" by (rule ledger_invI [OF lv' tracked_add(2) [OF tr]])
  with st' reads show ?thesis by blast
qed

definition badRecord :: ledger_record where
  "badRecord = demoRecord\<lparr>payload := wire ndnTlv (nameBlock ndnTlv [])\<rparr>"

section \<open>Properties of reply records\<close>

text \<open>C6: the reply timer publishes one reply record, under the next name, that cites exactly the accepted
  records below the threshold that are no reply records and were not cited before: what is stored, besides edge
  states, is the packets in which the sync library publishes exactly that record. The DAG is harvested, and
  nothing it cited will be cited again: each is marked as replied or interlocked.\<close>

theorem reply_published:
  assumes "ledger_setup M C ok" and "prefix_ok M" and "ledger_inv M C ok st"
    and "\<forall>suf. C (store st) (nextSync M st @ suf) = None"
    and U: "U = unreplied M (stateGraph (lib M) C st) (set (repliedRecords st))" and "U \<noteq> {}"
    and "pointer_count (stateGraph (lib M) C st) + card U < 2 ^ 30"
  shows "runs (publishReply M) st (\<lambda>_ st'. \<exists>ps. distinct ps \<and> set ps = U \<and>
    stateGraph (lib M) C st' = harvested M (graphAdd (stateGraph (lib M) C st) (replyRecord (nextName M st) ps))
    \<and> (let p = publication M (svsSeq st + 1) (replyRecord (nextName M st) ps) in
        p \<noteq> [] \<and> (\<forall>x \<in> set p. C (store st') (dataName x) = Some (dataBlock (lib M) x))
        \<and> outer M (C (store st')) = putPackets (lib M) p (outer M (C (store st))))
    \<and> seqNo st' = svsSeq st + 1
    \<and> unreplied M (stateGraph (lib M) C st') (set (repliedRecords st')) \<inter> U = {}
    \<and> ledger_inv M C ok st')"
proof -
  let ?G = "stateGraph (lib M) C st" and ?X = "outer M (C (store st))"
  note inst = setup_instance [OF assms(1)] and pre = sync_outer [OF assms(2)]
  obtain T where lv: "led_view M C ok ?G T ?X st" and tr: "tracked ?G T" using inv_led [OF assms(3)] .
  have room: "pointer_count ?G + card (unreplied M ?G (set (repliedRecords st))) < 2 ^ 30"
    using assms(7) by (simp add: U)
  have free: "\<forall>suf. ?X (syncName M (svsSeq st + 1) @ suf) = None"
    using assms(4) outer_at [OF pre] by (simp add: nextSync_def)
  have names: "svs_packet_names (lib M) (svs M)" using assms(1) by (simp add: ledger_setup_def)
  show ?thesis
  proof (rule runs_mono [OF ledger_instance.publishReply_ok [OF inst lv assms(2) free room U assms(6)]], elim exE conjE)
    fix st' ps H
    assume ps: "distinct ps" "set ps = U" and H: "H = graphAdd ?G (replyRecord (nextName M st) ps)"
      and lv': "led_view M C ok (harvested M H) (T \<union> ripeIn M H)
        (putPackets (lib M) (publication M (svsSeq st + 1) (replyRecord (nextName M st) ps)) ?X) st'"
      and seq: "seqNo st' = svsSeq st + 1"
      and R: "set (repliedRecords st') = {n \<in> set (repliedRecords st) \<union> U. toStateName n \<notin> ripeIn M H}"
    note reads = led_view_reads [OF lv']
    have inv: "ledger_inv M C ok st'"
      using lv' tracked_harvest [OF tracked_add(1) [OF tr]] H by (intro ledger_invI) auto
    have "n \<in> set (repliedRecords st')" if n: "n \<in> U" and u: "n \<in> unreplied M (harvested M H) R'" for n R'
    proof -
      obtain m where m: "nstatus (nodeAt (harvested M H) m) = LOADED" "n = recName (nrec (nodeAt (harvested M H) m))"
        using u by (auto simp: unreplied_def)
      then have "m \<in> dom (harvested M H)" by (auto simp: nodeAt_def emptyNode_def split: option.splits)
      then have "recName (nrec (nodeAt (harvested M H) m)) = fromStateName m" "is_state_name m"
        using ledger_instance.led_names [OF inst lv'] by blast+
      then have "m = toStateName n" using m(2) is_state_nameE by simp
      then have "toStateName n \<notin> ripeIn M H"
        using m(1) by (auto simp: harvested_def nodeAt_interlockAll split: if_splits)
      then show ?thesis using n R by simp
    qed
    then have "unreplied M (harvested M H) (set (repliedRecords st')) \<inter> U = {}"
      by (auto simp: unreplied_def)
    moreover have "let p = publication M (svsSeq st + 1) (replyRecord (nextName M st) ps) in
        p \<noteq> [] \<and> (\<forall>x \<in> set p. C (store st') (dataName x) = Some (dataBlock (lib M) x))
        \<and> outer M (C (store st')) = putPackets (lib M) p ?X"
      (is "let p = ?p in _")
    proof -
      have "C (store st') (dataName x) = Some (dataBlock (lib M) x)" if x: "x \<in> set ?p" for x
      proof -
        obtain suf where "dataName x = syncName M (svsSeq st + 1) @ suf"
          using publication_names(3) [OF names x] by blast
        then have "outer_name M (dataName x)" using pre by simp
        then show ?thesis using reads(2) putPackets_in [OF publication_names(2) [OF names] x] by simp
      qed
      then show ?thesis using publication_names(1) [OF names] lv' by (simp add: led_view_def)
    qed
    ultimately show "\<exists>ps. distinct ps \<and> set ps = U
      \<and> stateGraph (lib M) C st' = harvested M (graphAdd ?G (replyRecord (nextName M st) ps))
      \<and> (let p = publication M (svsSeq st + 1) (replyRecord (nextName M st) ps) in
          p \<noteq> [] \<and> (\<forall>x \<in> set p. C (store st') (dataName x) = Some (dataBlock (lib M) x))
          \<and> outer M (C (store st')) = putPackets (lib M) p ?X)
      \<and> seqNo st' = svsSeq st + 1
      \<and> unreplied M (stateGraph (lib M) C st') (set (repliedRecords st')) \<inter> U = {} \<and> ledger_inv M C ok st'"
      using ps H reads(1) inv seq by (intro exI [of _ ps]) simp
  qed
qed

definition demoReceived :: "memory ledger_state" where
  "demoReceived = snd (onSyncRecord demoLedger demoRecord demoStart)"

lemma demo_received_graph: "\<exists>T X. led_view demoLedger (\<lambda>m. m) (\<lambda>_. True)
    (harvested demoLedger (graphAdd Map.empty demoRecord)) T X demoReceived
  \<and> (\<forall>n. X (instancePrefix demoLedger @ n) = None) \<and> tracked (harvested demoLedger (graphAdd Map.empty demoRecord)) T
  \<and> X (dataName demoCert) = Some (dataBlock ndnTlv demoCert)
  \<and> X (toMapName ndnTlv (payload demoRecord)) =
      Some (payloadMapOf demoLedger (payload demoRecord) (toStateName (recName demoRecord)))"
proof -
  let ?X = "outer demoLedger (store demoStart)" and ?sn = "toStateName (recName demoRecord)"
  obtain T where lv: "led_view demoLedger (\<lambda>m. m) (\<lambda>_. True) Map.empty T ?X demoStart" and tr: "tracked Map.empty T"
    using inv_led [OF demo_inv] by (auto simp: demo_graph)
  have X: "?X n = None" for n by (auto simp: outer_def demo_store)
  define X' where "X' = putNew (?X(dataName demoCert \<mapsto> dataBlock ndnTlv demoCert))
    (toMapName ndnTlv (payload demoRecord)) (payloadMapOf demoLedger (payload demoRecord) ?sn)"
  have new: "if recType demoRecord = REPLY_RECORD then X' = ?X
    else readBlock (lib demoLedger) (payload demoRecord) = Some (dataBlock ndnTlv demoCert)
      \<and> dataOf (lib demoLedger) (dataBlock ndnTlv demoCert) = Inr demoCert \<and> outer_name demoLedger (dataName demoCert)
      \<and> ?X (dataName demoCert) = None
      \<and> X' = putNew (?X(dataName demoCert \<mapsto> dataBlock ndnTlv demoCert))
          (toMapName (lib demoLedger) (payload demoRecord)) (payloadMapOf demoLedger (payload demoRecord) ?sn)"
    using demo_record demo_names(2) X by (simp add: X'_def)
  have "pointer_count Map.empty + length (pointers demoRecord) < 2 ^ 30" by (simp add: demoRecord_def)
  from demo.onSyncRecord_new [OF lv demo_record(4) this refl refl new]
  have "led_view demoLedger (\<lambda>m. m) (\<lambda>_. True) (harvested demoLedger (graphAdd Map.empty demoRecord))
      (insert ?sn T \<union> ripeIn demoLedger (graphAdd Map.empty demoRecord)) X' demoReceived"
    by (auto simp: runs_def demoReceived_def)
  moreover have "X' (instancePrefix demoLedger @ n) = None" for n
    using X map_name_prefix [OF demo_prefix, of "payload demoRecord" n]
    by (simp add: X'_def putNew_def demoCert_def generic_def)
  moreover have "X' (dataName demoCert) = Some (dataBlock ndnTlv demoCert)"
    "X' (toMapName ndnTlv (payload demoRecord)) = Some (payloadMapOf demoLedger (payload demoRecord) ?sn)"
    using X not_sym [OF demo_names(5)] demo_names(5) by (simp_all add: X'_def putNew_def)
  ultimately show ?thesis using tracked_harvest [OF tracked_add(2) [OF tr]] by blast
qed

lemma demo_waiting: "unreplied demoLedger (harvested demoLedger (graphAdd Map.empty demoRecord)) R = {recName demoRecord} - R"
  "ndesc (nodeAt (harvested demoLedger (graphAdd Map.empty demoRecord)) (toStateName (recName demoRecord))) = []"
  "harvested demoLedger (graphAdd Map.empty demoRecord) (toStateName (recName demoRecord)) \<noteq> None"
proof -
  let ?G = "graphAdd Map.empty demoRecord" and ?sn = "toStateName (recName demoRecord)"
  let ?H = "loadNode Map.empty demoRecord" and ?a = "toStateName [generic ''ledger'', generic ''alice'', sequenceComp ndnTlv 1]"
  have pend: "pending_at Map.empty n" "ndesc (nodeAt Map.empty n) = []" for n
    by (simp_all add: pending_at_def nodeAt_def emptyNode_def)
  have G: "?G = resolve ?H [?sn]" by (simp add: graphAdd_def Let_def pend)
  have sn: "?sn \<noteq> ?a" by (simp add: demoRecord_def toStateName_def generic_def)
  have parents: "parentsAt ?H ?sn = [?a]"
    by (simp add: parentsAt_def load_at parents_def) (simp add: demoRecord_def)
  have a: "pending_at ?H ?a" using sn pend by (simp add: pending_at_def load_at)
  have "b = ?a" if "ancestor ?H [?a] b" for b
    using that by (induction rule: ancestor.induct) (use a in \<open>auto simp: expandable_at_def\<close>)
  then have "\<not> ancestor ?H (parentsAt ?H ?sn) ?sn" using sn by (auto simp only: parents)
  then have "set (ndesc (nodeAt ?G ?sn)) = {}"
    unfolding G ndesc_resolve using pend(2) by (auto simp: load_at)
  then have no: "ndesc (nodeAt ?G ?sn) = []" by simp
  have status: "nstatus (nodeAt ?G n) = LOADED \<longleftrightarrow> n = ?sn" "nstatus (nodeAt ?G n) \<noteq> INTERLOCKED" for n
    using pend(1) [of n] by (auto simp: graphAdd_status pending_at_def)
  have polv: "polv (evaluater demoLedger) (nodeAt ?G ?sn) = 0"
    using no by (simp add: evaluater_def policy_getInterface_def polv_def witness_policy.policy_none)
  have "same_shape ?H ?G" by (simp add: G same_shape_resolve)
  then have r: "nrec (nodeAt ?G ?sn) = demoRecord" by (simp add: same_shape_def load_at)
  have th: "policyThreshold demoConfig = 1" by (simp add: demoConfig_def default_config_def)
  have "ripeIn demoLedger ?G = {}" using polv th status by (auto simp: ripeIn_def ripe_def)
  then have same: "nodeAt (harvested demoLedger ?G) = nodeAt ?G"
    by (simp add: harvested_def nodeAt_interlockAll fun_eq_iff)
  with no show "ndesc (nodeAt (harvested demoLedger ?G) ?sn) = []" by simp
  have "nstatus (nodeAt (harvested demoLedger ?G) ?sn) = LOADED" using same status by simp
  then show "harvested demoLedger ?G ?sn \<noteq> None" using demo.loaded_dom by blast
  note same
  moreover have "{n. n = ?sn \<and> polv (evaluater demoLedger) (nodeAt ?G n) < 1} = {?sn}" using polv by auto
  moreover have "{x. x = demoRecord \<and> recType x \<noteq> REPLY_RECORD} = {demoRecord}" using demo_record(1) by auto
  ultimately show "unreplied demoLedger (harvested demoLedger ?G) R = {recName demoRecord} - R"
    by (simp add: unreplied_def status(1) th r)
qed

lemma demo_received_count: "pointer_count (harvested demoLedger (graphAdd Map.empty demoRecord)) \<le> 1"
proof -
  let ?G = "graphAdd Map.empty demoRecord"
  have "finite (dom ?G)" using graph_good_add [OF graph_good_empty, of demoRecord] by (simp add: graph_good_def)
  then have "pointer_count (harvested demoLedger ?G) = pointer_count ?G"
    unfolding harvested_def ripeIn_def by (rule pointer_count_interlock [OF _ ripe_facts(2)])
  also have "\<dots> \<le> 1" using pointer_count_add(1) [OF graph_good_empty, of demoRecord] by (simp add: demoRecord_def)
  finally show ?thesis .
qed

theorem reply_published_witness:
  "\<exists>st. recName demoRecord \<in> unreplied demoLedger (stateGraph ndnTlv (\<lambda>m. m) st) (set (repliedRecords st))
    \<and> runs (publishReply demoLedger) st (\<lambda>_ st'.
        recName demoRecord \<notin> unreplied demoLedger (stateGraph ndnTlv (\<lambda>m. m) st') (set (repliedRecords st')))"
proof -
  let ?G = "harvested demoLedger (graphAdd Map.empty demoRecord)"
  obtain T X where lv: "led_view demoLedger (\<lambda>m. m) (\<lambda>_. True) ?G T X demoReceived" "tracked ?G T"
    and free: "\<forall>n. X (instancePrefix demoLedger @ n) = None" using demo_received_graph by blast
  let ?st = "demoReceived\<lparr>repliedRecords := []\<rparr>"
  have lv': "led_view demoLedger (\<lambda>m. m) (\<lambda>_. True) ?G T X ?st" by (rule led_view_more [OF lv(1)]) simp_all
  note reads = led_view_reads [OF lv']
  have U: "unreplied demoLedger (stateGraph (lib demoLedger) (\<lambda>m. m) ?st) (set (repliedRecords ?st)) = {recName demoRecord}"
    using reads(1) demo_waiting(1) [of "{}"] by simp
  have next': "\<forall>suf. store ?st (nextSync demoLedger ?st @ suf) = None"
    using reads(2) [OF sync_outer [OF demo_prefix]] free by (simp add: nextSync_def syncName_def syncDataName_def)
  have room: "pointer_count (stateGraph (lib demoLedger) (\<lambda>m. m) ?st) + card {recName demoRecord} < 2 ^ 30"
    using reads(1) demo_received_count by simp
  have "runs (publishReply demoLedger) ?st (\<lambda>_ st'.
        recName demoRecord \<notin> unreplied demoLedger (stateGraph ndnTlv (\<lambda>m. m) st') (set (repliedRecords st')))"
    by (rule runs_mono [OF reply_published [OF demo_ledger demo_prefix ledger_invI [OF lv' lv(2)] next' U [symmetric] _ room]])
       auto
  with U show ?thesis by (intro exI [of _ ?st]) simp
qed

text \<open>With nothing new to cite the reply timer publishes nothing and leaves graph, stored packets and
  sequence number as they are.\<close>

lemma reply_silent:
  assumes "ledger_setup M C ok" and "ledger_inv M C ok st"
    and "unreplied M (stateGraph (lib M) C st) (set (repliedRecords st)) = {}"
  shows "runs (publishReply M) st (\<lambda>_ st'. stateGraph (lib M) C st' = stateGraph (lib M) C st
    \<and> outer M (C (store st')) = outer M (C (store st)) \<and> seqNo st' = seqNo st \<and> outbox st' = outbox st)"
proof -
  let ?G = "stateGraph (lib M) C st" and ?X = "outer M (C (store st))"
  obtain T where lv: "led_view M C ok ?G T ?X st" and "tracked ?G T" using inv_led [OF assms(2)] .
  show ?thesis
    by (rule runs_mono [OF ledger_instance.publishReply_none [OF setup_instance [OF assms(1)] lv assms(3)]])
       (auto simp: led_view_def same_io_def)
qed

lemma reply_silent_witness:
  "runs (publishReply demoLedger) demoStart (\<lambda>_ st'. stateGraph ndnTlv (\<lambda>m. m) st' = stateGraph ndnTlv (\<lambda>m. m) demoStart
    \<and> outer demoLedger (store st') = outer demoLedger (store demoStart) \<and> seqNo st' = seqNo demoStart
    \<and> outbox st' = outbox demoStart)"
  using reply_silent [OF demo_ledger demo_inv]
  by (simp add: demo_graph unreplied_def nodeAt_def emptyNode_def)

section \<open>The reachable states\<close>

text \<open>C1: in every state a ledger can reach by submissions, received records, reply timers and queries, in any
  order and whichever of them fail, the DAG is sound and complete, its waitlist is consistent, every interlocked
  record is in the global tracker, and the tracker names accepted records only.\<close>

theorem ledger_reach_safe:
  assumes "ledger_setup M C ok" and "prefix_ok M" and "ledger_reach M C ok st"
  shows "let G = stateGraph (lib M) C st in graph_good G \<and> dag_good (evaluater M) G (waitlist st)
    \<and> (\<exists>T. tracks M (C (store st)) T \<and> (\<forall>n. nstatus (nodeAt G n) = INTERLOCKED \<longrightarrow> n \<in> T)
        \<and> (\<forall>n \<in> T. \<not> pending_at G n))"
proof -
  have "ledger_inv M C ok st" by (rule ledger_instance.reach_inv [OF setup_instance [OF assms(1)] assms(3,2)])
  then show ?thesis by (auto simp: ledger_inv_def led_view_def dag_inv_def tracked_def Let_def)
qed

lemma demo_reach_2: "ledger_reach demoLedger (\<lambda>m. m) (\<lambda>_. True) demoSubmitted"
proof -
  have "ledger_reach demoLedger (\<lambda>m. m) (\<lambda>_. True) (snd (handleEvent demoLedger (Submit demoCert) demoStart))"
    by (rule ledger_reach.event [OF demo_reach]) (simp_all add: demo_names(3) demo_room)
  then show ?thesis
    by (simp add: demoSubmitted_def bindM_def ret_def split: prod.splits sum.splits)
qed

theorem ledger_reach_safe_witness:
  "let G = stateGraph (lib demoLedger) (\<lambda>m. m) demoSubmitted in
    graph_good G \<and> dag_good (evaluater demoLedger) G (waitlist demoSubmitted)
    \<and> (\<exists>T. tracks demoLedger (store demoSubmitted) T \<and> (\<forall>n. nstatus (nodeAt G n) = INTERLOCKED \<longrightarrow> n \<in> T)
        \<and> (\<forall>n \<in> T. \<not> pending_at G n))"
  by (rule ledger_reach_safe [OF demo_ledger demo_prefix demo_reach_2])

end
