(* ===== verification/Ledger_Answers.thy ===== *)
theory Ledger_Answers
  imports Ledger_Theorems
begin

text \<open>
  What the ledger answers to queries: exact names, certificates with their records (always a Nack, for the
  packets that the code looks for are stored by no operation), internal objects.
  A reply of more than one packet is a segmented one; its first segment is sent at once, the rest is
  kept in \<open>sessions\<close>.
\<close>

section \<open>The elementary answers\<close>

definition nackData :: "'s ledger \<Rightarrow> name \<Rightarrow> 's ledger_state \<Rightarrow> data" where
  "nackData M n st = signWith (face M) (instancePrefix M)
     ((prepareData (lib M) n (clock (lib M) (tick st) div 1000000))\<lparr>freshness := freshnessPeriod (config M)\<rparr>)"

lemma sendNack_run: "sendNack M n st =
  (Inr (), st\<lparr>tick := Suc (tick st), outbox := outbox st @ [PutData (nackData M n st)]\<rparr>)"
  by (simp add: sendNack_def bindM_def nowM_def put_packet_def modifyM_def nackData_def)

lemma queryContent_state: "snd (queryContent M n st) = st"
proof -
  have "preserves (\<lambda>s. s) (queryContent M n)"
    unfolding queryContent_def recordBlocks_def by (intro preserves_rules)
  then show ?thesis by (simp add: preserves_def)
qed

lemma sendResponse_run:
  assumes "0 < maxSegmentSize (config M)" and "0 < length (wire (lib M) b)" and "length (wire (lib M) b) < 2 ^ 31"
    and "signs (face M)"
  shows "\<exists>d rest p. prodStore p = d # rest \<and> concat (map (bvalue \<circ> content) (d # rest)) = wire (lib M) b
    \<and> sendResponse M n b st = (Inr (), st\<lparr>tick := Suc (tick st), outbox := outbox st @ [PutData d],
        sessions := sessions st @ [(n @ [generic ''data'', versionComp (lib M) (nat (clock (lib M) (tick st) div 1000))], p)]\<rparr>)"
proof -
  let ?t = "nat (clock (lib M) (tick st) div 1000)"
  let ?v = "n @ [generic ''data'', versionComp (lib M) ?t]"
  let ?w = "if isVersion (lib M) (versionComp (lib M) ?t) then ?v else ?v @ [versionComp (lib M) ?t]"
  have "0 < prodMaxSegment (producerOptions M)" using assms(1) by (simp add: producerOptions_def)
  then obtain sto where sto: "populateStore (lib M) (face M) (producerOptions M) ?w b = Inr sto" "sto \<noteq> []"
    "concat (map (bvalue \<circ> content) sto) = wire (lib M) b"
    using populate_whole [OF assms(4) _ assms(2,3)] by blast
  then obtain d rest where d: "sto = d # rest" by (cases sto) auto
  obtain p where p: "newProducer (lib M) (face M) (producerOptions M) ?t ?v b = Inr p" "prodStore p = d # rest"
    using sto(1) d by (auto simp: newProducer_def Let_def split: if_splits)
  then have "sendResponse M n b st = (Inr (), st\<lparr>tick := Suc (tick st), outbox := outbox st @ [PutData d],
        sessions := sessions st @ [(?v, p)]\<rparr>)"
    by (simp add: sendResponse_def bindM_def nowM_def liftE_def put_packet_def modifyM_def)
  with p(2) sto(3) d show ?thesis by blast
qed

section \<open>Properties\<close>

text \<open>A query for an exact name is answered with the stored packet of that name, and with an
  application-level Nack if there is none; nothing else is sent and nothing stored changes.\<close>

lemma exact_query:
  assumes "block_store (intf M) C ok" and "ok (store st)" and "forwardingHint q \<noteq> []" and "\<not> canBePrefix q"
    and "\<forall>b. C (store st) (interestName q) = Some b \<longrightarrow> dataOf (lib M) b = Inr d"
  shows "\<exists>t. onQuery M q st = (Inr (), st\<lparr>tick := t, outbox := outbox st @
    [PutData (if C (store st) (interestName q) = None then nackData M (interestName q) st else d)]\<rparr>)"
proof (cases "C (store st) (interestName q)")
  case None
  then obtain m where "getBlockM (intf M) (interestName q) st = (Inl (RuntimeError m), st)"
    using block_store.getBlockM_missing [OF assms(1,2)] by blast
  then show ?thesis
    using assms(3,4) None
    by (auto simp: onQuery_def Let_def replyOrSendNack_def catchM_def bindM_def sendNack_run)
next
  case (Some b)
  then have "getBlockM (intf M) (interestName q) st = (Inr b, st)"
    by (rule block_store.getBlockM_ok [OF assms(1,2)])
  then show ?thesis
    using assms(3-5) Some
    by (intro exI [of _ "tick st"])
       (simp add: onQuery_def Let_def replyOrSendNack_def catchM_def bindM_def liftE_def put_packet_def modifyM_def)
qed

text \<open>A response to a query: its first segment is sent, and the segments make up the block.\<close>

definition responded :: "'s ledger \<Rightarrow> block \<Rightarrow> 's ledger_state \<Rightarrow> exn + unit \<Rightarrow> 's ledger_state \<Rightarrow> bool" where
  "responded M b st r st' \<longleftrightarrow> (\<exists>t v p d rest. r = Inr ()
     \<and> st' = st\<lparr>tick := t, outbox := outbox st @ [PutData d], sessions := sessions st @ [(v, p)]\<rparr>
     \<and> prodStore p = d # rest \<and> concat (map (bvalue \<circ> content) (d # rest)) = wire (lib M) b)"

definition sendable :: "'s ledger \<Rightarrow> block \<Rightarrow> bool" where
  "sendable M b \<longleftrightarrow> 0 < maxSegmentSize (config M) \<and> signs (face M) \<and> 0 < length (wire (lib M) b)
     \<and> length (wire (lib M) b) < 2 ^ 31"

lemma sendResponse_responded: "sendable M b \<Longrightarrow> ends (sendResponse M n b) st (responded M b st)"
  using sendResponse_run [of M b n st] unfolding sendable_def ends_def responded_def by fastforce

lemma answer_run:
  assumes "m st = (Inr b, st)" and "sendable M b"
  shows "ends (catchM (bindM m (\<lambda>b. sendResponse M n b)) p h) st (responded M b st)"
proof -
  obtain r s where s: "sendResponse M n b st = (r, s)" by force
  then have resp: "responded M b st r s" using sendResponse_responded [OF assms(2), of n st] by (simp add: ends_def)
  then have "r = Inr ()" by (auto simp: responded_def)
  then show ?thesis using resp s assms(1) by (simp add: ends_def catchM_def bindM_def)
qed

text \<open>What the names of packets (\<open>D\<close>) and records (\<open>R\<close>) are assumed to be: records are not named like packets,
  payload maps, internal objects or this ledger's own sync packets, packets are not named like payload maps.\<close>

definition names_apart :: "'s ledger \<Rightarrow> name set \<Rightarrow> name set \<Rightarrow> bool" where
  "names_apart M D R \<longleftrightarrow> own_names M \<subseteq> R \<and> (\<forall>p. toMapName (lib M) p \<notin> D)
     \<and> (\<forall>n \<in> R. wf_name n \<and> outer_name M n \<and> n \<notin> D \<and> (\<forall>p. n \<noteq> toMapName (lib M) p)
          \<and> (\<forall>k suf. n \<noteq> syncName M k @ suf))"

text \<open>Looking for the records that belong to a certificate fails: their packets are stored under the names of
  the sync library, never under those of the records.\<close>

lemma record_not_stored:
  assumes "stored_in M D R X" and "names_apart M D R" and "r \<in> R"
  shows "X r = None"
proof (rule ccontr)
  assume "X r \<noteq> None"
  then obtain b where "X r = Some b" by blast
  with assms(1) have "r \<in> D \<or> (\<exists>k suf. r = syncName M k @ suf) \<or> (\<exists>p. r = toMapName (lib M) p)"
    unfolding stored_in_def by blast
  with assms(2,3) show False unfolding names_apart_def by blast
qed

lemma queryContent_fails:
  assumes "ledger_setup M C ok" and "prefix_ok M" and "led_view M C ok G T X st"
    and "stored_in M D R X" and "names_apart M D R"
  shows "\<exists>m. queryContent M certName st = (Inl (RuntimeError m), st)"
proof -
  have bs: "block_store (intf M) C ok" and codec: "ndn_codec (lib M)" and tlv: "tlv_codec (lib M)"
    using assms(1) by (simp_all add: ledger_setup_def ndn_codec_def)
  have ok: "ok (store st)" by (rule led_view_ok [OF assms(3)])
  note get = block_store.getBlockM_ok [OF bs ok] and miss = block_store.getBlockM_missing [OF bs ok]
  show ?thesis
  proof (cases "C (store st) certName")
    case None
    from miss [OF this] show ?thesis by (auto simp: queryContent_def bindM_def)
  next
    case (Some pb)
    note pb = get [OF this]
    let ?m = "toMapName (lib M) (wire (lib M) pb)"
    show ?thesis
    proof (cases "C (store st) ?m")
      case None
      from miss [OF this] show ?thesis by (auto simp: queryContent_def bindM_def pb)
    next
      case (Some mb)
      then have "X ?m = Some mb" using led_view_outer [OF assms(3) outer_name_map] by simp
      then have "?m \<in> D \<or> (\<exists>k suf. ?m = syncName M k @ suf)
          \<or> (\<exists>p r. r \<in> R \<and> ?m = toMapName (lib M) p \<and> mb = payloadMapOf M p (toStateName r))"
        using assms(4) unfolding stored_in_def by blast
      moreover have "?m \<notin> D" using assms(5) unfolding names_apart_def by blast
      ultimately obtain p r where r: "r \<in> R" "mb = payloadMapOf M p (toStateName r)"
        using map_name_sync [OF assms(2)] by blast
      have "wf_name (toMapName (lib M) p)"
        by (simp add: toMapName_def mapNameHeader_def ndn_codec.wf_digestComp [OF codec])
      moreover have "wf_name (toStateName r)" using r(1) assms(5) by (simp add: names_apart_def)
      ultimately have map: "decodePayloadMap (lib M) mb = Inr \<lparr>mapName = toMapName (lib M) p, mapTo = toStateName r\<rparr>"
        by (simp add: r(2) payloadMapOf_def tlv_codec.decode_encodePayloadMap [OF tlv])
      note mb = get [OF Some]
      show ?thesis
      proof (cases "C (store st) (toStateName r)")
        case None
        from miss [OF this] show ?thesis by (auto simp: queryContent_def bindM_def pb mb map liftE_def)
      next
        case (Some sb)
        note sb = get [OF this]
        have "states_stored (lib M) (C (store st))" using assms(3) by (simp add: led_view_def dag_inv_def)
        then obtain s where s: "decodeEdgeState (lib M) sb = Inr s" "stateName s = toStateName r"
          using Some unfolding states_stored_def by force
        have "C (store st) r = None"
          using record_not_stored [OF assms(4,5) r(1)] led_view_outer [OF assms(3)] r(1) assms(5)
          by (simp add: names_apart_def)
        moreover have "fromStateName (toStateName r) = r"
          by (simp add: fromStateName_def toStateName_def name_sub_def stateNameHeader_def)
        ultimately obtain m where "getBlockM (intf M) (fromStateName (toStateName r)) st = (Inl (RuntimeError m), st)"
          using miss [of r] by auto
        then show ?thesis
          by (simp add: queryContent_def bindM_def pb mb map liftE_def sb s recordBlocks_def)
      qed
    qed
  qed
qed

text \<open>C7: every query for a certificate and its records is answered with an application-level Nack, in every state a
  ledger reaches when packets and records are not named like each other or like the ledger's own objects, also
  when the certificate, its record and its edge state are there: the answer is built from the packets
  stored under the names of the records, and no operation stores any there.\<close>

theorem certificate_query_nacked:
  assumes "ledger_setup M C ok" and "prefix_ok M" and "ledger_reach_in M C ok D R st" and "names_apart M D R"
    and "forwardingHint q \<noteq> []" and "canBePrefix q" and "4 \<le> length (interestName q)"
    and "isCertName M ((interestName q)[length (interestName q) - 4 := generic ''KEY''])"
  shows "onQuery M q st = (Inr (), st\<lparr>tick := Suc (tick st),
    outbox := outbox st @ [PutData (nackData M (interestName q) st)]\<rparr>)"
proof -
  let ?cert = "(interestName q)[length (interestName q) - 4 := generic ''KEY'']"
  have set: "name_set (interestName q) (- 4) (generic ''KEY'') = Inr ?cert"
    using assms(7) by (simp add: name_set_def name_index_def nat_diff_distrib')
  have "ledger_inv_in M C ok D R st"
    using ledger_instance.reach_in_inv [OF setup_instance [OF assms(1)] assms(3,2)] assms(4) by (simp add: names_apart_def)
  then obtain G T X where "led_view M C ok G T X st" "stored_in M D R X" by (auto simp: ledger_inv_in_def)
  from queryContent_fails [OF assms(1,2) this assms(4)] obtain m where
    "queryContent M ?cert st = (Inl (RuntimeError m), st)" by blast
  then show ?thesis
    using assms(5,6,8) set by (simp add: onQuery_def Let_def bindM_def liftE_def catchM_def sendNack_run)
qed

definition demoQuery :: interest where
  "demoQuery = \<lparr>interestName = dataName demoCert, canBePrefix = True, mustBeFresh = False,
     forwardingHint = [[generic ''ledger'']], appParams = None\<rparr>"

lemma demo_apart: "names_apart demoLedger {dataName demoCert} (own_names demoLedger)"
proof -
  have wf: "wf_name (instancePrefix demoLedger)" using demo_prefix by (simp add: prefix_ok_def)
  have "wf_name n \<and> outer_name demoLedger n \<and> n \<notin> {dataName demoCert} \<and> (\<forall>p. n \<noteq> toMapName ndnTlv p)
      \<and> (\<forall>k suf. n \<noteq> syncName demoLedger k @ suf)" if own: "n \<in> own_names demoLedger" for n
  proof -
    obtain k where n: "n = instancePrefix demoLedger @ [sequenceComp ndnTlv k]"
      using own unfolding own_names_def demoLedger_simps(1) by blast
    have "outer_name demoLedger n" unfolding n by (rule prefix_outer [OF demo_prefix])
    moreover have "n \<noteq> toMapName ndnTlv p" for p
      using map_name_prefix [OF demo_prefix, of p "[sequenceComp ndnTlv k]"] unfolding n demoLedger_simps(1)
      by (rule not_sym)
    moreover have "wf_name n" using wf tlv.wf_sequenceComp by (simp add: n)
    ultimately show ?thesis
      by (auto simp: n demoCert_def syncName_def syncDataName_def syncPrefix_def)
  qed
  then show ?thesis using not_sym [OF demo_names(5)] by (simp add: names_apart_def)
qed

text \<open>After a successful submission, with the certificate, its payload map and its edge state stored.\<close>

theorem certificate_query_nacked_witness:
  "onQuery demoLedger demoQuery demoSubmitted = (Inr (), demoSubmitted\<lparr>tick := Suc (tick demoSubmitted),
      outbox := outbox demoSubmitted @ [PutData (nackData demoLedger (dataName demoCert) demoSubmitted)]\<rparr>)
    \<and> store demoSubmitted (dataName demoCert) \<noteq> None"
proof -
  have reach: "ledger_reach_in demoLedger (\<lambda>m. m) (\<lambda>_. True) {dataName demoCert} (own_names demoLedger) demoSubmitted"
    by (rule demo_reach_in)
  show ?thesis
    using certificate_query_nacked [OF demo_ledger demo_prefix reach demo_apart, of demoQuery] demo_submitted(2)
    by (simp add: demoQuery_def demoCert_def)
qed

lemma demo_sendable: "length (wire ndnTlv b) < 2 ^ 31 \<Longrightarrow> sendable demoLedger b"
  by (auto simp: sendable_def demoConfig_def default_config_def signs_def demoFace_def ndnTlv_def)

lemma internal_answer:
  assumes "block_store (intf M) C ok" and "ok (store st)" and "canBePrefix i"
    and "interestName i = instancePrefix M @ keyword ''internal'' # objName"
    and "\<forall>b. C (store st) objName = Some b \<longrightarrow> sendable M b"
  shows "case C (store st) objName of
      Some b \<Rightarrow> ends (onInternalQuery M i) st (responded M b st)
    | None \<Rightarrow> onInternalQuery M i st = (Inr (), st\<lparr>tick := Suc (tick st),
        outbox := outbox st @ [PutData (nackData M (interestName i) st)]\<rparr>)"
proof -
  have c: "name_get (interestName i) (int (length (instancePrefix M))) = Inr (keyword ''internal'')"
    by (simp add: assms(4) name_get_def name_index_def)
  have sub: "name_sub (interestName i) (length (instancePrefix M) + 1) = objName"
    by (simp add: assms(4) name_sub_def)
  have start: "onInternalQuery M i st = catchM (bindM (getBlockM (intf M) objName) (\<lambda>b. sendResponse M (interestName i) b))
      is_runtime_error (\<lambda>_. sendNack M (interestName i)) st"
    using assms(3) c sub by (simp add: onInternalQuery_def Let_def bindM_def liftE_def)
  show ?thesis
  proof (cases "C (store st) objName")
    case None
    then obtain m where "getBlockM (intf M) objName st = (Inl (RuntimeError m), st)"
      using block_store.getBlockM_missing [OF assms(1,2)] by blast
    then show ?thesis by (simp add: None start catchM_def bindM_def sendNack_run)
  next
    case (Some b)
    then have get: "getBlockM (intf M) objName st = (Inr b, st)"
      by (rule block_store.getBlockM_ok [OF assms(1,2)])
    have "sendable M b" using assms(5) Some by simp
    with get have "ends (catchM (bindM (getBlockM (intf M) objName) (\<lambda>b. sendResponse M (interestName i) b))
        is_runtime_error (\<lambda>_. sendNack M (interestName i))) st (responded M b st)"
      by (rule answer_run)
    then show ?thesis by (simp add: Some ends_def start)
  qed
qed

text \<open>A query below the keyword \<open>internal\<close> is answered with the stored object it names (an edge state, the
  tracker), cut into segments, and with a Nack if nothing is stored under that name.\<close>

lemma internal_query:
  assumes "block_store (intf M) C ok" and "ok (store st)" and "canBePrefix i"
    and "interestName i = instancePrefix M @ keyword ''internal'' # objName"
    and "\<forall>b. C (store st) objName = Some b \<longrightarrow> sendable M b"
  shows "case C (store st) objName of
      Some b \<Rightarrow> ends (onInternalQuery M i) st (responded M b st)
    | None \<Rightarrow> onInternalQuery M i st = (Inr (), st\<lparr>tick := Suc (tick st),
        outbox := outbox st @ [PutData (nackData M (interestName i) st)]\<rparr>)"
  by (rule internal_answer) (fact assms)+

end
