(* ===== verification/Append_Theorems.thy ===== *)
theory Append_Theorems
  imports Append_Ledger Ledger_Answers
begin

text \<open>
  The append protocol as a whole: a client and a ledger that exchange packets. \<open>append_setting\<close> is what
  the properties assume of library, keys and random numbers.
\<close>

definition append_setting :: "append_env \<Rightarrow> bool" where
  "append_setting E \<longleftrightarrow> ndn_codec (envLib E) \<and> (\<forall>i. envRandom E i < 2 ^ 64)
     \<and> (\<forall>w d. dataName (envSign E w d) = dataName d \<and> content (envSign E w d) = content d)"

definition demoEnv :: append_env where
  "demoEnv = \<lparr>envLib = ndnTlv, envSign = (\<lambda>w d. d\<lparr>signature := ''s''\<rparr>), envValidate = (\<lambda>_. Valid), envRandom = (\<lambda>i. (i + 1000) mod 2 ^ 64)\<rparr>"

section \<open>Runs of the client's side\<close>

lemma dispatch_run:
  assumes "k < length (tasks c)" and "t = tasks c ! k" and "opts = taskOptions t"
  shows "dispatchNotification E k c = (Inr (), (if optRetries opts > MAX_RETRIES
    then c\<lparr>outcomes := outcomes c @ [OnFailure (taskData t) \<lparr>errCode = TIMEOUT,
      errInfo = toUri (envLib E) (interestName (makeNotification (envLib E) opts)) @ '' not acked''\<rparr>]\<rparr>
    else c\<lparr>sentPackets := sentPackets c @ [Express (makeNotification (envLib E) opts)]\<rparr>)
    \<lparr>tasks := (tasks c)[k := t\<lparr>taskOptions := opts\<lparr>optRetries := optRetries opts + 1\<rparr>\<rparr>]\<rparr>)"
  using assms
  by (simp add: dispatchNotification_def exhaustRetries_def Let_def bindM_def taskM_def getsM_def setOptions_def
      modifyM_def report_def sendOut_def)

lemma newClient_simps [simp]:
  "clientPrefix (newClient pfx) = pfx" "clientHandle (newClient pfx) = newHandle" "clientRetryCount (newClient pfx) = 0"
  "tasks (newClient pfx) = []" "sentPackets (newClient pfx) = []" "outcomes (newClient pfx) = []" "drawn (newClient pfx) = 0"
  by (simp_all add: newClient_def)

definition firstTask :: "append_env \<Rightarrow> name \<Rightarrow> name \<Rightarrow> data list \<Rightarrow> task" where
  "firstTask E pfx topic ds = \<lparr>taskOptions = (clientOptions pfx topic (envRandom E 0))\<lparr>optRetries := 1\<rparr>,
     taskData = ds, taskFilter = 0\<rparr>"

lemma appendData_run:
  assumes "topic \<noteq> []" and "ds \<noteq> []" and "dataName (hd ds) \<noteq> []"
  shows "appendData E topic ds (newClient pfx) = (Inr (envRandom E 0), (newClient pfx)\<lparr>drawn := Suc 0,
    clientHandle := handleFilter 0 newHandle, tasks := [firstTask E pfx topic ds],
    sentPackets := [Express (makeNotification (envLib E) (clientOptions pfx topic (envRandom E 0)))]\<rparr>)"
proof -
  let ?t = "\<lparr>taskOptions = clientOptions pfx topic (envRandom E 0), taskData = ds, taskFilter = 0\<rparr>"
  let ?c = "(newClient pfx)\<lparr>drawn := Suc 0, clientHandle := handleFilter 0 newHandle, tasks := [?t]\<rparr>"
  have "dispatchNotification E 0 ?c = (Inr (), ?c\<lparr>sentPackets := [Express (makeNotification (envLib E) (taskOptions ?t))],
      tasks := [firstTask E pfx topic ds]\<rparr>)"
    by (subst dispatch_run [OF _ refl refl])
       (simp_all add: clientOptions_def MAX_RETRIES_def firstTask_def)
  then show ?thesis
    using assms by (simp add: appendData_def bindM_def getsM_def modifyM_def Let_def newHandle_def ret_def clientOptions_def)
qed

lemma fetcher_below_filter:
  assumes "k < length (tasks c)" and "opts = taskOptions (tasks c ! k)"
    and "taskFilter (tasks c ! k) \<in> activeFilters (clientHandle c)"
    and "optPrefix o' = optPrefix opts" and "optNonce o' = optNonce opts"
  shows "filterMatches E c (fst (makeFetcher (envLib E) (optTopic opts) nonce2 o')) k"
  using assms by (simp add: filterMatches_def Let_def makeInterestFilter_def makeFetcher_def)

lemma answerFetch_run:
  assumes "ndn_codec (envLib E)" and "k < length (tasks c)" and "t = tasks c ! k" and "opts = taskOptions t"
    and "optNonce2 opts = 0" and "nonce2 < 2 ^ 64" and "interestName i = pre @ [numberComp (envLib E) nonce2]"
  shows "answerFetch E k i c = (Inr (), c\<lparr>tasks := (tasks c)[k := t\<lparr>taskOptions := opts\<lparr>optNonce2 := nonce2\<rparr>\<rparr>],
    sentPackets := sentPackets c @ [Send (envSign E (optPrefix opts)
      (makeSubmission (envLib E) (opts\<lparr>optNonce2 := nonce2\<rparr>) (taskData t)))]\<rparr>)"
  using assms
  by (simp add: answerFetch_def bindM_def taskM_def getsM_def liftE_def ndn_codec.readNumber_numberComp Let_def
      setOptions_def sendOut_def modifyM_def)

section \<open>The whole exchange\<close>

text \<open>A client and a ledger over a network that delivers: each packet that one side sends is given to the
  other.\<close>

type_synonym ('c, 'l, 'a) both = "('c \<times> 'l, 'a) cm"

definition atClient :: "('c, 'a) cm \<Rightarrow> ('c, 'l, 'a) both" where
  "atClient m = (\<lambda>(c, s). case m c of (r, c') \<Rightarrow> (r, (c', s)))"

definition atLedger :: "('l, 'a) cm \<Rightarrow> ('c, 'l, 'a) both" where
  "atLedger m = (\<lambda>(c, s). case m s of (r, s') \<Rightarrow> (r, (c, s')))"

definition expectInterest :: "sent list \<Rightarrow> ('st, interest) cm" where
  "expectInterest ps = (case last ps of Express i \<Rightarrow> ret i | Send _ \<Rightarrow> raise (StdException ''interest expected''))"

definition expectData :: "sent list \<Rightarrow> ('st, data) cm" where
  "expectData ps = (case last ps of Send d \<Rightarrow> ret d | Express _ \<Rightarrow> raise (StdException ''data expected''))"

text \<open>Each side's part may be an operation around the code's: \<open>start\<close>, \<open>fetch\<close> and \<open>acked\<close> are the client's,
  \<open>sentBy\<close> what it has sent.\<close>

definition conversation :: "('c, 'b) cm \<Rightarrow> (interest \<Rightarrow> ('c, unit) cm) \<Rightarrow> (data \<Rightarrow> ('c, unit) cm) \<Rightarrow> ('c \<Rightarrow> sent list)
    \<Rightarrow> append_env \<Rightarrow> 'u update \<Rightarrow> ('c, 'u append_ledger, unit) both" where
  "conversation start fetch acked sentBy EL onUpdate =
     bindM (atClient start) (\<lambda>_.
     bindM (getsM (sentBy \<circ> fst)) (\<lambda>ps. bindM (expectInterest ps) (\<lambda>notification.
     bindM (atLedger (onNotification EL notification)) (\<lambda>k.
     bindM (getsM (alSent \<circ> snd)) (\<lambda>ps. bindM (expectInterest ps) (\<lambda>fetcher.
     bindM (atClient (fetch fetcher)) (\<lambda>_.
     bindM (getsM (sentBy \<circ> fst)) (\<lambda>ps. bindM (expectData ps) (\<lambda>submission.
     bindM (atLedger (onSubmission EL onUpdate k submission)) (\<lambda>_.
     bindM (getsM (alSent \<circ> snd)) (\<lambda>ps. bindM (expectData ps) (\<lambda>ack.
     atClient (acked ack)))))))))))))"

definition exchange :: "append_env \<Rightarrow> append_env \<Rightarrow> 'u update \<Rightarrow> name \<Rightarrow> data list \<Rightarrow> (client, 'u append_ledger, unit) both" where
  "exchange EC EL onUpdate topic ds = conversation (appendData EC topic ds) (onFetch EC) (onAck EC 0) sentPackets EL onUpdate"

lemma conversation_run:
  assumes "start c = (Inr x, c1)" and "last (sentBy c1) = Express i" and "onNotification EL i s = (Inr k, s1)"
    and "last (alSent s1) = Express f" and "fetch f c1 = (Inr (), c2)" and "last (sentBy c2) = Send d"
    and "onSubmission EL onUpdate k d s1 = (Inr (), s2)" and "last (alSent s2) = Send a" and "acked a c2 = (Inr (), c3)"
  shows "conversation start fetch acked sentBy EL onUpdate (c, s) = (Inr (), (c3, s2))"
  using assms by (simp add: conversation_def atClient_def atLedger_def expectInterest_def expectData_def bindM_def getsM_def ret_def)

text \<open>The steps and states of the exchange.\<close>

lemma exchange_steps:
  assumes EC: "append_setting EC" and EL: "append_setting EL" and lib: "envLib EL = envLib EC"
    and valid: "\<And>d. envValidate EC d = Valid" "\<And>d. envValidate EL d = Valid"
    and ds: "ds \<noteq> []" "dataName (hd ds) \<noteq> []" "list_all wf_data ds"
    and names: "topic \<noteq> []" "wf_name topic" "wf_name pfx" "alTopic s = topic"
    and upd: "updateAll onUpdate ds (user s) = (Inr ss, u)" and ss: "list_all wf_append_status ss"
  shows "\<exists>n c1 i k s1 f c2 sub s2 ack c3 opts. appendData EC topic ds (newClient pfx) = (Inr n, c1) \<and> last (sentPackets c1) = Express i
    \<and> onNotification EL i s = (Inr k, s1) \<and> last (alSent s1) = Express f \<and> onFetch EC f c1 = (Inr (), c2)
    \<and> last (sentPackets c2) = Send sub \<and> onSubmission EL onUpdate k sub s1 = (Inr (), s2) \<and> last (alSent s2) = Send ack
    \<and> onAck EC 0 ack c2 = (Inr (), c3) \<and> user s2 = u
    \<and> outcomes c1 = [] \<and> outcomes c2 = [] \<and> outcomes c3 = [OnSuccess ds ack] \<and> praseAck (envLib EC) ack = Inr ss
    \<and> content ack = content (makeNotificationAck (envLib EC) opts ss)
    \<and> sentPackets c3 ! 0 = Express (makeNotification (envLib EC) (clientOptions pfx topic (envRandom EC 0)))
    \<and> dataName ack = interestName (makeNotification (envLib EC) (clientOptions pfx topic (envRandom EC 0)))
    \<and> activeFilters (clientHandle c3) = {}"
proof -
  let ?L = "envLib EC" and ?opts = "clientOptions pfx topic (envRandom EC 0)"
  let ?n2 = "envRandom EL (Suc (alDrawn s))"
  have codec: "ndn_codec ?L" and tlv: "tlv_codec ?L" using EC by (simp_all add: append_setting_def ndn_codec_def)
  have n2: "?n2 < 2 ^ 64" using EL by (simp add: append_setting_def)
  have wf: "wf_options ?opts"
    using EC names by (simp add: wf_options_def clientOptions_def append_setting_def)
  let ?t = "firstTask EC pfx topic ds"
  let ?c1 = "(newClient pfx)\<lparr>drawn := Suc 0, clientHandle := handleFilter 0 newHandle, tasks := [?t],
    sentPackets := [Express (makeNotification ?L ?opts)]\<rparr>"
  let ?f = "fst (makeFetcher ?L topic ?n2 ?opts)"
  let ?s1 = "s\<lparr>alDrawn := Suc (Suc (alDrawn s)), served := served s @ [?opts\<lparr>optNonce2 := ?n2, optRetries := 1\<rparr>],
      alSent := alSent s @ [Express ?f]\<rparr>"
  have topic': "optTopic ?opts = alTopic s" using names by (simp add: clientOptions_def)
  have notif: "onNotification EL (makeNotification ?L ?opts) s = (Inr (length (served s)), ?s1)"
    using onNotification_run [of EL ?opts s, OF _ wf topic' refl] tlv lib names by simp
  let ?o2 = "?opts\<lparr>optRetries := 1, optNonce2 := ?n2\<rparr>"
  let ?sub = "envSign EC (optPrefix ?opts) (makeSubmission ?L ?o2 ds)"
  let ?c2 = "?c1\<lparr>tasks := [?t\<lparr>taskOptions := ?o2\<rparr>], sentPackets := sentPackets ?c1 @ [Send ?sub]\<rparr>"
  have "filterMatches EC ?c1 (fst (makeFetcher ?L (optTopic (taskOptions (tasks ?c1 ! 0))) ?n2 ?opts)) 0"
    by (rule fetcher_below_filter)
       (simp_all add: firstTask_def activeFilters_def handleFilter_def newHandle_def)
  then have match: "filter (filterMatches EC ?c1 ?f) [0..<length (tasks ?c1)] = [0]"
    by (simp add: firstTask_def clientOptions_def)
  have "answerFetch EC 0 ?f ?c1 = (Inr (), ?c2)"
    by (subst answerFetch_run [OF codec _ refl refl _ n2, where pre = "pfx @ generic ''msg'' # topic @ [numberComp ?L (envRandom EC 0)]"])
       (simp_all add: firstTask_def clientOptions_def makeFetcher_def Let_def)
  then have fetch: "onFetch EC ?f ?c1 = (Inr (), ?c2)"
    using match by (simp add: onFetch_def bindM_def getsM_def ret_def)
  let ?ack = "envSign EL (alPrefix s) (makeNotificationAck ?L (?opts\<lparr>optNonce2 := ?n2, optRetries := 1\<rparr>) ss)"
  let ?s2 = "?s1\<lparr>alRetryCount := 0, user := u, alSent := alSent ?s1 @ [Send ?ack]\<rparr>"
  have "content ?sub = encodeBlock (envLib EL) tlv_Content (map (dataBlock (envLib EL)) ds)"
    using EC lib by (simp add: append_setting_def makeSubmission_def)
  then have subm: "onSubmission EL onUpdate (length (served s)) ?sub ?s1 = (Inr (), ?s2)"
    using onSubmission_run [of EL ds ?sub onUpdate ?s1 ss u "length (served s)"] codec lib ds(3) valid(2) upd by simp
  have "content ?ack = content (makeNotificationAck ?L (?opts\<lparr>optNonce2 := ?n2, optRetries := 1\<rparr>) ss)"
    using EL by (simp add: append_setting_def)
  then have parse: "praseAck ?L ?ack = Inr ss"
    by (rule tlv_codec.praseAck_makeNotificationAck [OF tlv ss])
  let ?c3 = "?c2\<lparr>clientHandle := unregisterFilters (clientHandle ?c2), clientRetryCount := 0, outcomes := [OnSuccess ds ?ack]\<rparr>"
  have ack: "onAck EC 0 ?ack ?c2 = (Inr (), ?c3)"
    using parse valid(1) by (simp add: onAck_def client_onValidationSuccess_def taskM_def report_def bindM_def getsM_def
        modifyM_def liftE_def firstTask_def)
  have last: "last (sentPackets ?c1) = Express (makeNotification ?L ?opts)" "last (alSent ?s1) = Express ?f"
    "last (sentPackets ?c2) = Send ?sub" "last (alSent ?s2) = Send ?ack"
    by simp_all
  have start: "appendData EC topic ds (newClient pfx) = (Inr (envRandom EC 0), ?c1)"
    by (rule appendData_run [OF names(1) ds(1,2), of EC pfx])
  have name: "dataName ?ack = interestName (makeNotification ?L ?opts)"
    using EL makeNotification_cong [of "?opts\<lparr>optNonce2 := ?n2, optRetries := 1\<rparr>" ?opts ?L]
    by (simp add: append_setting_def makeNotificationAck_def emptyData_def)
  have "content ?ack = content (makeNotificationAck ?L ?opts ss)"
    using EL by (simp add: append_setting_def makeNotificationAck_def)
  with start last notif fetch subm ack parse name show ?thesis
    by (intro exI conjI) (assumption | simp)+
qed

lemma exchange_run:
  assumes EC: "append_setting EC" and EL: "append_setting EL" and lib: "envLib EL = envLib EC"
    and valid: "\<And>d. envValidate EC d = Valid" "\<And>d. envValidate EL d = Valid"
    and ds: "ds \<noteq> []" "dataName (hd ds) \<noteq> []" "list_all wf_data ds"
    and names: "topic \<noteq> []" "wf_name topic" "wf_name pfx" "alTopic s = topic"
    and upd: "updateAll onUpdate ds (user s) = (Inr ss, u)" and ss: "list_all wf_append_status ss"
  shows "\<exists>c' s' ack. exchange EC EL onUpdate topic ds (newClient pfx, s) = (Inr (), (c', s'))
    \<and> user s' = u \<and> outcomes c' = [OnSuccess ds ack] \<and> praseAck (envLib EC) ack = Inr ss
    \<and> sentPackets c' ! 0 = Express (makeNotification (envLib EC) (clientOptions pfx topic (envRandom EC 0)))
    \<and> dataName ack = interestName (makeNotification (envLib EC) (clientOptions pfx topic (envRandom EC 0)))
    \<and> activeFilters (clientHandle c') = {}"
proof -
  from exchange_steps [OF assms] obtain n c1 i k s1 f c2 sub s2 ack c3 where
    "appendData EC topic ds (newClient pfx) = (Inr n, c1)" "last (sentPackets c1) = Express i"
    "onNotification EL i s = (Inr k, s1)" "last (alSent s1) = Express f" "onFetch EC f c1 = (Inr (), c2)"
    "last (sentPackets c2) = Send sub" "onSubmission EL onUpdate k sub s1 = (Inr (), s2)" "last (alSent s2) = Send ack"
    "onAck EC 0 ack c2 = (Inr (), c3)" and rest: "user s2 = u" "outcomes c3 = [OnSuccess ds ack]" "praseAck (envLib EC) ack = Inr ss"
    "sentPackets c3 ! 0 = Express (makeNotification (envLib EC) (clientOptions pfx topic (envRandom EC 0)))"
    "dataName ack = interestName (makeNotification (envLib EC) (clientOptions pfx topic (envRandom EC 0)))"
    "activeFilters (clientHandle c3) = {}" by blast
  then have "exchange EC EL onUpdate topic ds (newClient pfx, s) = (Inr (), (c3, s2))"
    unfolding exchange_def by (intro conversation_run)
  with rest show ?thesis by blast
qed

section \<open>Properties\<close>

text \<open>Appending a certificate to a ledger instance, from the client's call to its callback: the client
  notifies, the ledger fetches the submission, validates, stores and records the certificate, and the
  client's success callback gets an acknowledgement, for its notification, with the status success.\<close>

lemma certificate_appended:
  assumes "append_setting EC" and "append_setting EL" and "envLib EL = envLib EC"
    and "\<And>x. envValidate EC x = Valid" and "\<And>x. envValidate EL x = Valid"
    and "wf_data d" and "dataName d \<noteq> []" and "topic \<noteq> []" and "wf_name topic" and "wf_name pfx" and "alTopic s = topic"
    and "ledger_setup M C ok" and "prefix_ok M" and "ledger_inv M C ok (user s)" and "validate M d = Some True"
    and "new_submission M (C (store (user s))) d (nextSync M (user s))"
    and "has_room (stateGraph (lib M) C (user s)) (Submit d)"
  shows "\<exists>c' s' ack. exchange EC EL (onDataSubmission M) topic [d] (newClient pfx, s) = (Inr (), (c', s'))
    \<and> submitted M C d (user s) (user s') \<and> ledger_inv M C ok (user s')
    \<and> outcomes c' = [OnSuccess [d] ack] \<and> praseAck (envLib EC) ack = Inr [SUCCESS]
    \<and> sentPackets c' ! 0 = Express (makeNotification (envLib EC) (clientOptions pfx topic (envRandom EC 0)))
    \<and> dataName ack = interestName (makeNotification (envLib EC) (clientOptions pfx topic (envRandom EC 0)))"
proof -
  obtain u where u: "onDataSubmission M d (user s) = (Inr SUCCESS, u)" "submitted M C d (user s) u" "ledger_inv M C ok u"
    using submission_run [OF assms(12-17)] by (auto simp: runs_def)
  have upd: "updateAll (onDataSubmission M) [d] (user s) = (Inr [SUCCESS], u)"
    by (simp add: updateAll_def bindM_def u(1) ret_def)
  have ds: "[d] \<noteq> []" "dataName (hd [d]) \<noteq> []" "list_all wf_data [d]" using assms(6,7) by simp_all
  obtain c' s' ack where "exchange EC EL (onDataSubmission M) topic [d] (newClient pfx, s) = (Inr (), (c', s'))"
      "user s' = u" "outcomes c' = [OnSuccess [d] ack]" "praseAck (envLib EC) ack = Inr [SUCCESS]"
      "sentPackets c' ! 0 = Express (makeNotification (envLib EC) (clientOptions pfx topic (envRandom EC 0)))"
      "dataName ack = interestName (makeNotification (envLib EC) (clientOptions pfx topic (envRandom EC 0)))"
    using exchange_run [OF assms(1-5) ds assms(8-11) upd] by auto
  with u show ?thesis by blast
qed

lemma demo_env: "append_setting demoEnv" "envValidate demoEnv x = Valid" "envLib demoEnv = ndnTlv"
  by (simp_all add: append_setting_def demoEnv_def tlv.ndn_codec_axioms)

text \<open>C28: a submission of several packets is handed to the update callback packet by packet, in order, and the
  client reads the statuses in that order. The client's success callback is called whatever the statuses are,
  failures included.\<close>

theorem statuses_arrive:
  assumes "append_setting EC" and "append_setting EL" and "envLib EL = envLib EC"
    and "\<And>d. envValidate EC d = Valid" and "\<And>d. envValidate EL d = Valid"
    and "ds \<noteq> []" and "dataName (hd ds) \<noteq> []" and "list_all wf_data ds"
    and "topic \<noteq> []" and "wf_name topic" and "wf_name pfx" and "alTopic s = topic"
    and "updateAll onUpdate ds (user s) = (Inr ss, u)" and "list_all wf_append_status ss"
  shows "\<exists>c' s' ack. exchange EC EL onUpdate topic ds (newClient pfx, s) = (Inr (), (c', s'))
    \<and> user s' = u \<and> outcomes c' = [OnSuccess ds ack] \<and> praseAck (envLib EC) ack = Inr ss"
  using exchange_run [OF assms] by auto

theorem statuses_arrive_witness:
  "\<exists>c' s' ack. exchange demoEnv demoEnv (\<lambda>d n. (Inr (if n = 0 then FAILURE_STORAGE else SUCCESS), Suc n)) [generic ''append'']
      [demoCert, demoCert] (newClient [generic ''bob''], newAppendLedger [generic ''ledger''] [generic ''append''] (0 :: nat)) =
      (Inr (), (c', s'))
    \<and> user s' = 2 \<and> outcomes c' = [OnSuccess [demoCert, demoCert] ack] \<and> praseAck (envLib demoEnv) ack = Inr [FAILURE_STORAGE, SUCCESS]"
proof -
  have d: "wf_data demoCert" "dataName demoCert \<noteq> []"
    by (simp_all add: wf_data_def demoCert_def tlv_Content_def)
  show ?thesis
    by (rule statuses_arrive)
       (use d in \<open>simp_all add: demo_env newAppendLedger_def updateAll_def bindM_def ret_def numeral_2_eq_2\<close>)
qed

section \<open>Retries\<close>

definition clientTimeouts :: "append_env \<Rightarrow> nat \<Rightarrow> (client, unit) cm" where
  "clientTimeouts E j = forM (\<lambda>_. onNotificationTimeout E 0) (replicate j ())"

definition notAcked :: "append_env \<Rightarrow> data list \<Rightarrow> interest \<Rightarrow> outcome" where
  "notAcked E ds i = OnFailure ds \<lparr>errCode = TIMEOUT, errInfo = toUri (envLib E) (interestName i) @ '' not acked''\<rparr>"

lemma dispatch_one:
  assumes "tasks c = [t]" and "i = makeNotification (envLib E) (taskOptions t)"
  shows "dispatchNotification E 0 c = (Inr (), (if optRetries (taskOptions t) > MAX_RETRIES
      then c\<lparr>outcomes := outcomes c @ [notAcked E (taskData t) i]\<rparr>
      else c\<lparr>sentPackets := sentPackets c @ [Express i]\<rparr>)
      \<lparr>tasks := [t\<lparr>taskOptions := (taskOptions t)\<lparr>optRetries := optRetries (taskOptions t) + 1\<rparr>\<rparr>]\<rparr>)"
  unfolding notAcked_def assms(2)
  by (subst dispatch_run [of 0 c t "taskOptions t"]) (simp_all add: assms(1))

lemma makeNotification_retries [simp]:
  "makeNotification L (opts\<lparr>optRetries := r\<rparr>) = makeNotification L opts"
  by (rule makeNotification_cong) simp_all

lemma timeouts_loop:
  assumes "k + j \<le> 5" and "tasks c = [t]" and "optRetries (taskOptions t) = int k" and "taskData t = ds"
    and "makeNotification (envLib E) (taskOptions t) = i" and "1 \<le> k" and "k \<le> 4"
  shows "runs (clientTimeouts E j) c (\<lambda>_ c'. sentPackets c' = sentPackets c @ replicate (min j (4 - k)) (Express i)
      \<and> outcomes c' = outcomes c @ (if k + j < 5 then [] else [notAcked E ds i]))"
  using assms
proof (induction j arbitrary: c k t)
  case 0
  then show ?case by (simp add: clientTimeouts_def runs_rules)
next
  case (Suc j)
  let ?t = "t\<lparr>taskOptions := (taskOptions t)\<lparr>optRetries := optRetries (taskOptions t) + 1\<rparr>\<rparr>"
  note step = dispatch_one [OF Suc.prems(2) Suc.prems(5) [symmetric]]
  show ?case
  proof (cases "k = 4")
    case True
    then have "j = 0" using Suc.prems(1) by simp
    then show ?thesis
      using True Suc.prems step
      by (simp add: clientTimeouts_def onNotificationTimeout_def runs_def bindM_def ret_def MAX_RETRIES_def)
  next
    case False
    define c' where "c' = c\<lparr>sentPackets := sentPackets c @ [Express i], tasks := [?t]\<rparr>"
    have first: "dispatchNotification E 0 c = (Inr (), c')"
      using step Suc.prems False by (simp add: MAX_RETRIES_def c'_def)
    have "runs (clientTimeouts E j) c' (\<lambda>_ c''. sentPackets c'' = sentPackets c' @ replicate (min j (4 - Suc k)) (Express i)
      \<and> outcomes c'' = outcomes c' @ (if Suc k + j < 5 then [] else [notAcked E ds i]))"
      by (rule Suc.IH [of _ _ ?t]) (use Suc.prems False in \<open>simp_all add: c'_def\<close>)
    moreover have "min (Suc j) (4 - k) = Suc (min j (4 - Suc k))" using Suc.prems False by simp
    ultimately show ?thesis
      by (simp add: clientTimeouts_def onNotificationTimeout_def runs_def bindM_def first c'_def)
  qed
qed

text \<open>C29: a notification that is never answered is sent four times (once and \<open>MAX_RETRIES\<close> more); with the
  fourth timeout the failure callback is called, once, with the timeout error.\<close>

theorem notification_retries:
  assumes "topic \<noteq> []" and "ds \<noteq> []" and "dataName (hd ds) \<noteq> []" and "j \<le> 4"
    and i: "i = makeNotification (envLib E) (clientOptions pfx topic (envRandom E 0))"
  shows "runs (bindM (appendData E topic ds) (\<lambda>_. clientTimeouts E j)) (newClient pfx) (\<lambda>_ c.
    sentPackets c = replicate (min (j + 1) 4) (Express i)
    \<and> outcomes c = (if j < 4 then [] else [notAcked E ds i]))"
proof -
  let ?t = "firstTask E pfx topic ds"
  define c1 where "c1 = (newClient pfx)\<lparr>drawn := Suc 0, clientHandle := handleFilter 0 newHandle, tasks := [?t],
    sentPackets := [Express i]\<rparr>"
  have start: "appendData E topic ds (newClient pfx) = (Inr (envRandom E 0), c1)"
    using appendData_run [OF assms(1-3), of E pfx] by (simp add: c1_def i)
  have "runs (clientTimeouts E j) c1 (\<lambda>_ c'. sentPackets c' = sentPackets c1 @ replicate (min j (4 - 1)) (Express i)
      \<and> outcomes c' = outcomes c1 @ (if 1 + j < 5 then [] else [notAcked E ds i]))"
    by (rule timeouts_loop [of _ _ _ ?t]) (use assms(4) in \<open>simp_all add: c1_def firstTask_def i\<close>)
  moreover have "min (j + 1) 4 = Suc (min j 3)" by simp
  ultimately show ?thesis
    using start by (simp add: runs_def bindM_def c1_def)
qed

theorem notification_retries_witness:
  "runs (bindM (appendData demoEnv [generic ''append''] [demoCert]) (\<lambda>_. clientTimeouts demoEnv 4)) (newClient [generic ''bob''])
    (\<lambda>_ c. let i = makeNotification (envLib demoEnv) (clientOptions [generic ''bob''] [generic ''append''] (envRandom demoEnv 0)) in
      sentPackets c = replicate 4 (Express i) \<and> length (outcomes c) = 1)"
  by (rule runs_mono [OF notification_retries [where j = 4, OF _ _ _ _ refl]]) (simp_all add: demoCert_def Let_def)

definition ledgerTimeouts :: "append_env \<Rightarrow> nat \<Rightarrow> nat \<Rightarrow> ('u, unit) al" where
  "ledgerTimeouts E k j = forM (\<lambda>_. onFetcherTimeout E k) (replicate j ())"

lemma ledger_loop:
  assumes "m + j \<le> 5" and "k < length (served s)" and "optRetries (served s ! k) = int m" and "1 \<le> m" and "m \<le> 4"
    and "makeNotification (envLib E) (served s ! k) = i"
  shows "runs (ledgerTimeouts E k j) s (\<lambda>_ s'. \<exists>fs acks. alSent s' = alSent s @ map Express fs @ map Send acks
    \<and> length fs = min j (4 - m) \<and> length acks = (if m + j < 5 then 0 else 1) \<and> user s' = user s
    \<and> (\<forall>a \<in> set acks. \<exists>opts. a = envSign E (alPrefix s) (makeNotificationAck (envLib E) opts [FAILURE_TIMEOUT])
        \<and> makeNotification (envLib E) opts = i))"
  using assms
proof (induction j arbitrary: s m)
  case 0
  then show ?case by (simp add: ledgerTimeouts_def runs_rules)
next
  case (Suc j)
  define opts where "opts = (served s ! k)\<lparr>optNonce2 := envRandom E (alDrawn s), optRetries := optRetries (served s ! k) + 1\<rparr>"
  have i: "makeNotification (envLib E) opts = i"
    using Suc.prems(6) makeNotification_cong [of opts "served s ! k" "envLib E"] by (simp add: opts_def)
  note step = serveClient_run [OF Suc.prems(2) refl refl opts_def]
  show ?case
  proof (cases "m = 4")
    case True
    then have "j = 0" using Suc.prems(1) by simp
    moreover have "optRetries (served s ! k) > MAX_RETRIES" using True Suc.prems(3) by (simp add: MAX_RETRIES_def)
    ultimately show ?thesis
      using True step i
      by (auto simp: ledgerTimeouts_def onFetcherTimeout_def runs_def bindM_def ret_def
          intro!: exI [of _ "[envSign E (alPrefix s) (makeNotificationAck (envLib E) opts [FAILURE_TIMEOUT])]"])
  next
    case False
    let ?f = "fst (makeFetcher (envLib E) (alTopic s) (envRandom E (alDrawn s)) (served s ! k))"
    define s' where "s' = s\<lparr>alDrawn := Suc (alDrawn s), served := (served s)[k := opts], alSent := alSent s @ [Express ?f]\<rparr>"
    have "\<not> optRetries (served s ! k) > MAX_RETRIES" using False Suc.prems(3,5) by (simp add: MAX_RETRIES_def)
    then have first: "serveClient E k s = (Inr (), s')" using step by (simp add: s'_def)
    have "runs (ledgerTimeouts E k j) s' (\<lambda>_ s''. \<exists>fs acks. alSent s'' = alSent s' @ map Express fs @ map Send acks
      \<and> length fs = min j (4 - Suc m) \<and> length acks = (if Suc m + j < 5 then 0 else 1) \<and> user s'' = user s'
      \<and> (\<forall>a \<in> set acks. \<exists>opts. a = envSign E (alPrefix s') (makeNotificationAck (envLib E) opts [FAILURE_TIMEOUT])
          \<and> makeNotification (envLib E) opts = i))"
      by (rule Suc.IH) (use Suc.prems False i in \<open>simp_all add: s'_def, simp add: opts_def\<close>)
    then obtain s'' fs acks where "ledgerTimeouts E k j s' = (Inr (), s'')"
      "alSent s'' = alSent s @ map Express (?f # fs) @ map Send acks" "length (?f # fs) = min (Suc j) (4 - m)"
      "length acks = (if m + Suc j < 5 then 0 else 1)" "user s'' = user s"
      "\<forall>a \<in> set acks. \<exists>opts. a = envSign E (alPrefix s) (makeNotificationAck (envLib E) opts [FAILURE_TIMEOUT])
          \<and> makeNotification (envLib E) opts = i"
      using Suc.prems(5) False by (auto simp: runs_def s'_def)
    moreover have "ledgerTimeouts E k (Suc j) s = ledgerTimeouts E k j s'"
      by (simp add: ledgerTimeouts_def onFetcherTimeout_def bindM_def first)
    ultimately show ?thesis
      unfolding runs_def by (intro exI [of _ "()"] exI [of _ s''] exI [of _ "?f # fs"] exI [of _ acks] conjI) simp_all
  qed
qed

text \<open>C30: a ledger whose client does not deliver fetches four times; with the fourth timeout it acknowledges
  the notification, once, with the status timeout, and its own state is unchanged.\<close>

theorem ledger_gives_up:
  assumes "append_setting E" and "wf_options opts" and "optTopic opts = alTopic s" and "j \<le> 4"
  shows "runs (bindM (onNotification E (makeNotification (envLib E) opts)) (\<lambda>k. ledgerTimeouts E k j)) s (\<lambda>_ s'.
    \<exists>fs acks. alSent s' = alSent s @ map Express fs @ map Send acks
    \<and> length fs = min (j + 1) 4 \<and> length acks = (if j < 4 then 0 else 1) \<and> user s' = user s
    \<and> (\<forall>a \<in> set acks. dataName a = interestName (makeNotification (envLib E) opts) \<and> praseAck (envLib E) a = Inr [FAILURE_TIMEOUT]))"
proof -
  let ?i = "makeNotification (envLib E) opts"
  have codec: "tlv_codec (envLib E)" using assms(1) by (simp add: append_setting_def ndn_codec_def)
  define n2 where "n2 = envRandom E (Suc (alDrawn s))"
  let ?f = "fst (makeFetcher (envLib E) (alTopic s) n2 opts)"
  define s1 where "s1 = s\<lparr>alDrawn := alDrawn s + 2, served := served s @ [opts\<lparr>optNonce2 := n2, optRetries := 1\<rparr>],
      alSent := alSent s @ [Express ?f]\<rparr>"
  have first: "onNotification E ?i s = (Inr (length (served s)), s1)"
    unfolding s1_def by (rule onNotification_run [OF codec assms(2,3) n2_def])
  have "makeNotification (envLib E) (opts\<lparr>optNonce2 := n2, optRetries := 1\<rparr>) = ?i"
    by (rule makeNotification_cong) simp_all
  then have "runs (ledgerTimeouts E (length (served s)) j) s1 (\<lambda>_ s'. \<exists>fs acks. alSent s' = alSent s1 @ map Express fs @ map Send acks
    \<and> length fs = min j (4 - 1) \<and> length acks = (if 1 + j < 5 then 0 else 1) \<and> user s' = user s1
    \<and> (\<forall>a \<in> set acks. \<exists>opts. a = envSign E (alPrefix s1) (makeNotificationAck (envLib E) opts [FAILURE_TIMEOUT])
        \<and> makeNotification (envLib E) opts = ?i))"
    using assms(4) by (intro ledger_loop) (simp_all add: s1_def)
  then obtain s' fs acks where run: "ledgerTimeouts E (length (served s)) j s1 = (Inr (), s')"
    and s': "alSent s' = alSent s @ map Express (?f # fs) @ map Send acks" "length fs = min j 3"
      "length acks = (if 1 + j < 5 then 0 else 1)" "user s' = user s"
    and acks: "\<forall>a \<in> set acks. \<exists>opts'. a = envSign E (alPrefix s) (makeNotificationAck (envLib E) opts' [FAILURE_TIMEOUT])
        \<and> makeNotification (envLib E) opts' = ?i"
    by (auto simp: runs_def s1_def)
  have "dataName a = interestName ?i \<and> praseAck (envLib E) a = Inr [FAILURE_TIMEOUT]" if "a \<in> set acks" for a
  proof -
    obtain opts' where a: "a = envSign E (alPrefix s) (makeNotificationAck (envLib E) opts' [FAILURE_TIMEOUT])"
      "makeNotification (envLib E) opts' = ?i" using acks \<open>a \<in> set acks\<close> by blast
    then have "dataName a = interestName ?i"
      using assms(1) by (simp add: append_setting_def makeNotificationAck_def emptyData_def)
    moreover have "praseAck (envLib E) a = Inr [FAILURE_TIMEOUT]"
      by (rule tlv_codec.praseAck_makeNotificationAck [OF codec]) (use assms(1) a in \<open>simp_all add: append_setting_def\<close>)
    ultimately show ?thesis ..
  qed
  moreover have "length (?f # fs) = min (j + 1) 4" using s'(2) by simp
  ultimately show ?thesis
    using run s' first by (auto simp: runs_def bindM_def intro!: exI [of _ "?f # fs"] exI [of _ acks])
qed

theorem ledger_gives_up_witness:
  "runs (bindM (onNotification demoEnv (makeNotification (envLib demoEnv) demoOptions)) (\<lambda>k. ledgerTimeouts demoEnv k 4))
    (newAppendLedger [generic ''ledger''] (optTopic demoOptions) demoStart) (\<lambda>_ s'. length (alSent s') = 5 \<and> user s' = demoStart)"
  by (rule runs_mono [OF ledger_gives_up [OF demo_env(1) demo_options, of _ 4]]) (auto simp: newAppendLedger_def)

section \<open>Several fetches, several tasks\<close>

lemma forM_append: "forM f (xs @ ys) = bindM (forM f xs) (\<lambda>_. forM f ys)"
  by (induction xs) (simp_all add: bindM_def ret_def fun_eq_iff split: prod.split sum.split)

definition submissionPacket :: "append_env \<Rightarrow> task \<Rightarrow> nat \<Rightarrow> sent" where
  "submissionPacket E t n = Send (envSign E (optPrefix (taskOptions t))
     (makeSubmission (envLib E) ((taskOptions t)\<lparr>optNonce2 := n\<rparr>) (taskData t)))"

lemma answered_silent:
  "optNonce2 (taskOptions (tasks c ! k)) > 0 \<Longrightarrow> k < length (tasks c) \<Longrightarrow> forM (answerFetch E k) is c = (Inr (), c)"
  by (induction "is") (simp_all add: answerFetch_def bindM_def taskM_def getsM_def ret_def)

text \<open>A fetch whose nonce is 0 is answered and leaves the task as it was.\<close>

lemma zero_fetches:
  assumes "ndn_codec (envLib E)" and "k < length (tasks c)" and "optNonce2 (taskOptions (tasks c ! k)) = 0"
    and "\<forall>i \<in> set zs. \<exists>pre. interestName i = pre @ [numberComp (envLib E) 0]"
  shows "forM (answerFetch E k) zs c =
    (Inr (), c\<lparr>sentPackets := sentPackets c @ map (\<lambda>_. submissionPacket E (tasks c ! k) 0) zs\<rparr>)"
  using assms(2-4)
proof (induction zs arbitrary: c)
  case (Cons i zs)
  then obtain pre where "interestName i = pre @ [numberComp (envLib E) 0]" by auto
  moreover have "(taskOptions (tasks c ! k))\<lparr>optNonce2 := 0\<rparr> = taskOptions (tasks c ! k)"
    using Cons.prems(2) by simp
  then have "(tasks c)[k := (tasks c ! k)\<lparr>taskOptions := (taskOptions (tasks c ! k))\<lparr>optNonce2 := 0\<rparr>\<rparr>] = tasks c" by simp
  ultimately have "answerFetch E k i c =
      (Inr (), c\<lparr>sentPackets := sentPackets c @ [submissionPacket E (tasks c ! k) 0]\<rparr>)"
    using answerFetch_run [OF assms(1) Cons.prems(1) refl refl Cons.prems(2), of 0 i pre]
    by (simp add: submissionPacket_def)
  moreover have "\<forall>i \<in> set zs. \<exists>pre. interestName i = pre @ [numberComp (envLib E) 0]"
    using Cons.prems(3) by simp
  ultimately show ?case
    using Cons.IH [of "c\<lparr>sentPackets := sentPackets c @ [submissionPacket E (tasks c ! k) 0]\<rparr>"] Cons.prems(1,2)
    by (simp add: bindM_def)
qed (simp add: ret_def)



lemma onFetch_silent:
  assumes "activeFilters (clientHandle c) = {}"
  shows "onFetch E i c = (Inr (), c)"
  using assms by (simp add: onFetch_def filterMatches_def Let_def bindM_def getsM_def ret_def)

lemma onAck_filters: "activeFilters (clientHandle (snd (onAck E k ack c))) = {}"
  by (cases "praseAck (envLib E) ack"; cases "envValidate E ack")
     (simp_all add: onAck_def bindM_def modifyM_def client_onValidationSuccess_def client_onValidationFailure_def taskM_def
        getsM_def liftE_def report_def raise_def ret_def)

text \<open>C40: the acknowledgement of any one task, valid or not, cancels the filters of all tasks of the client,
  since they share one handle: from then on no fetch of a ledger is answered, whatever task it is for.\<close>

theorem ack_silences_all_tasks:
  "activeFilters (clientHandle (snd (onAck E k ack c))) = {}
   \<and> onFetch E i (snd (onAck E k ack c)) = (Inr (), snd (onAck E k ack c))"
  using onAck_filters onFetch_silent by blast

end
