(* ===== verification/Base_Theorems.thy ===== *)
theory Base_Theorems
  imports Storage Ledger_Objects Nack Segment_Producer Ledger_Config Append_Common
begin

text \<open>
  The properties of the parts below the DAG: what is stored decodes again, unknown elements, the two
  storage backends against each other, configuration files, application Nacks and reply segments.
\<close>

section \<open>Stored objects\<close>

text \<open>C23: what the ledger writes to its store reads back: the content of a record (under the name it is
  read for), a state (its times in the printed precision), a list of states and a payload map.\<close>

theorem stored_objects_roundtrip:
  assumes "ndn_codec L"
  shows "(list_all wf_name (pointers r) \<longrightarrow> recordOfContent L n (prepareContent L r) = Inr (r\<lparr>recName := n\<rparr>))
    \<and> (wf_state s \<longrightarrow> decodeEdgeState L (encodeEdgeState L s) = Inr (storedState L s))
    \<and> (wf_list l \<longrightarrow> decodeEdgeStateList L (encodeEdgeStateList L l) = Inr l)
    \<and> (wf_name (mapName m) \<longrightarrow> wf_name (mapTo m) \<longrightarrow> decodePayloadMap L (encodePayloadMap L m) = Inr m)"
proof -
  have "tlv_codec L" using assms by (simp add: ndn_codec_def)
  then show ?thesis
    using tlv_codec.recordOfContent_prepareContent [of L r n] ndn_codec.decode_encodeEdgeState [OF assms, of s]
      tlv_codec.decode_encodeEdgeStateList [of L l] tlv_codec.decode_encodePayloadMap [of L m]
    by blast
qed

definition sampleRecord :: ledger_record where
  "sampleRecord = \<lparr>recName = [generic ''r''], recType = GENERIC_RECORD,
     pointers = [[generic ''a''], [generic ''b'']], payload = ''x''\<rparr>"

theorem stored_objects_roundtrip_witness:
  "recordOfContent ndnTlv [generic ''q''] (prepareContent ndnTlv sampleRecord) = Inr (sampleRecord\<lparr>recName := [generic ''q'']\<rparr>)
   \<and> decodePayloadMap ndnTlv (encodePayloadMap ndnTlv \<lparr>mapName = [generic ''h''], mapTo = [generic ''r'']\<rparr>)
     = Inr \<lparr>mapName = [generic ''h''], mapTo = [generic ''r'']\<rparr>"
  using stored_objects_roundtrip [OF tlv.ndn_codec_axioms, of sampleRecord "[generic ''q'']" undefined undefined
      "\<lparr>mapName = [generic ''h''], mapTo = [generic ''r'']\<rparr>"]
  by (simp add: sampleRecord_def)

text \<open>A record whose content has an element of an unknown critical type is refused with an exception;
  unknown elements of other types are ignored: the record is that of the content without them.\<close>

lemma record_unknown_elements:
  assumes "parseBlock L c = Inr els" and "parseBlock L c' = Inr (filter (\<lambda>b. record_known (btype b)) els)"
  shows "(\<exists>b \<in> set els. \<not> record_known (btype b) \<and> isCritical L (btype b)) \<and> (\<exists>e. recordOfContent L n c = Inl e)
    \<or> (\<forall>b \<in> set els. record_known (btype b) \<or> \<not> isCritical L (btype b)) \<and> recordOfContent L n c = recordOfContent L n c'"
proof (cases "\<exists>b \<in> set els. \<not> record_known (btype b) \<and> isCritical L (btype b)")
  case True
  then show ?thesis
    using assms(1) recordItems_critical [OF True] by (simp add: recordOfContent_def)
next
  case False
  then have "filter (\<lambda>b. record_known (btype b) \<or> isCritical L (btype b)) els = filter (\<lambda>b. record_known (btype b)) els"
    by (intro filter_cong) auto
  then show ?thesis
    using False assms recordItems_skip [of L "\<lparr>recName = n, recType = word_of_nat (garbage L), pointers = [], payload = []\<rparr>" els]
    by (auto simp: recordOfContent_def)
qed

lemma ndnTlv_critical [simp]: "isCritical ndnTlv t \<longleftrightarrow> t \<le> 31 \<or> odd t"
  by (simp add: ndnTlv_def)

section \<open>The storage backends\<close>

text \<open>A session of calls on a backend, with what each call returns.\<close>

datatype storage_call = AddBlock name block | GetBlock name | DeleteBlock name

fun wf_call :: "storage_call \<Rightarrow> bool" where
  "wf_call (AddBlock n b) = wf_block b" | "wf_call _ = True"

fun storageCall :: "'s storage_intf \<Rightarrow> storage_call \<Rightarrow> 's \<Rightarrow> (exn + block option) \<times> 's" where
  "storageCall I (AddBlock n b) s = (case adder I n b s of (r, s') \<Rightarrow> (bindE r (\<lambda>_. Inr None), s'))"
| "storageCall I (GetBlock n) s = (bindE (getter I n s) (\<lambda>b. Inr (Some b)), s)"
| "storageCall I (DeleteBlock n) s = (case deleter I n s of (r, s') \<Rightarrow> (bindE r (\<lambda>_. Inr None), s'))"

fun storageRun :: "'s storage_intf \<Rightarrow> storage_call list \<Rightarrow> 's \<Rightarrow> (exn + block option) list" where
  "storageRun I [] s = []"
| "storageRun I (c # cs) s = (case storageCall I c s of (r, s') \<Rightarrow> r # storageRun I cs s')"

context level_database
begin

lemma storage_step:
  assumes "level_ok L M db" and "wf_call c"
  shows "\<exists>r db'. storageCall (level_getInterface L D) c db = (r, db') \<and> level_ok L M db'
    \<and> storageCall mem_getInterface c (level_contents L M db) = (r, level_contents L M db')"
proof (cases c)
  case (AddBlock n b)
  then show ?thesis
    using assms dbPut_M [of "toUri L n" "wire L b" db] contents_None_iff [OF assms(1), of n]
    by (cases "M db (toUri L n)")
       (auto simp: level_getInterface_def level_addBlock_def mem_getInterface_def mem_addBlock_def dbGet_M
          contents_put level_ok_def readBlock_wire)
next
  case (GetBlock n)
  have "\<exists>b. readBlock L x = Some b" if "M db (toUri L n) = Some x" for x
    using assms(1) that by (simp add: level_ok_def)
  with GetBlock assms(1) show ?thesis
    by (cases "M db (toUri L n)")
       (auto simp: level_getInterface_def level_getBlock_def mem_getInterface_def mem_getBlock_def dbGet_M level_contents_def)
next
  case (DeleteBlock n)
  then show ?thesis
    using assms dbDelete_M [of "toUri L n" db] contents_None_iff [OF assms(1), of n]
    by (cases "M db (toUri L n)")
       (auto simp: level_getInterface_def level_deleteBlock_def mem_getInterface_def mem_deleteBlock_def dbGet_M
          contents_delete level_ok_def)
qed

lemma storage_runs:
  assumes "level_ok L M db" and "list_all wf_call cs"
  shows "storageRun (level_getInterface L D) cs db = storageRun mem_getInterface cs (level_contents L M db)"
  using assms
proof (induction cs arbitrary: db)
  case (Cons c cs)
  then obtain r db' where "storageCall (level_getInterface L D) c db = (r, db')" "level_ok L M db'"
    "storageCall mem_getInterface c (level_contents L M db) = (r, level_contents L M db')"
    using storage_step [of db c] by auto
  with Cons show ?case by simp
qed simp

end

text \<open>C24: the two storage backends cannot be told apart: any sequence of adding, reading and deleting blocks
  gives the same results, exceptions included, on an empty LevelDB database as in memory.\<close>

theorem storage_backends_agree:
  assumes "level_database L D M" and "M db = Map.empty" and "list_all wf_call cs"
  shows "storageRun (level_getInterface L D) cs db = storageRun mem_getInterface cs Map.empty"
proof -
  have "level_contents L M db = Map.empty" "level_ok L M db"
    using assms(2) by (simp_all add: level_contents_def level_ok_def fun_eq_iff)
  then show ?thesis
    using level_database.storage_runs [OF assms(1) _ assms(3)] by metis
qed

definition sampleCalls :: "storage_call list" where
  "sampleCalls = [AddBlock [generic ''a''] (Block 21 ''x''), AddBlock [generic ''a''] (Block 21 ''y''),
     GetBlock [generic ''a''], DeleteBlock [generic ''a''], GetBlock [generic ''a'']]"

theorem storage_backends_agree_witness:
  "storageRun (level_getInterface ndnTlv map_database) sampleCalls Map.empty =
    [Inr None, Inl (RuntimeError ''Block already exists''), Inr (Some (Block 21 ''x'')), Inr None,
     Inl (RuntimeError ''Block does not exist'')]"
  using storage_backends_agree [OF map_level.level_database_axioms, of Map.empty sampleCalls]
  by (simp add: sampleCalls_def mem_getInterface_def mem_addBlock_def mem_getBlock_def mem_deleteBlock_def)

section \<open>Configuration files\<close>

lemma bindM_ok: "bindM m f s = (Inr y, t) \<longleftrightarrow> (\<exists>x u. m s = (Inr x, u) \<and> f x u = (Inr y, t))"
  by (auto simp: bindM_def split: prod.splits sum.splits)

lemma preservesD: "preserves f m \<Longrightarrow> m s = (r, t) \<Longrightarrow> f t = f s"
  by (metis preserves_def snd_conv)

text \<open>The members each section of \<open>load\<close> writes.\<close>

definition nameMembers :: "ledger_config \<Rightarrow> name \<times> name" where
  "nameMembers c = (ledgerPrefix c, instanceSuffix c)"

definition laterMembers :: "ledger_config \<Rightarrow> int \<times> string \<times> 32 word \<times> string" where
  "laterMembers c = (freshnessPeriod c, policyType c, policyThreshold c, schemaFile c)"

lemmas load_sections = loadFreshness_def loadZone_def loadZones_def loadStorage_def loadPolicy_def loadSchema_def
  loadSigner_def loadSync_def loadSegment_def

lemma preserves_names:
  "preserves nameMembers (loadFreshness J j)" "preserves nameMembers (loadZones J j)" "preserves nameMembers (loadStorage j)"
  "preserves nameMembers (loadPolicy J j)" "preserves nameMembers (loadSchema j)" "preserves nameMembers (loadSync J j)"
  "preserves nameMembers (loadSegment J j)"
  unfolding load_sections by (auto intro!: preserves_rules simp: nameMembers_def split: option.split)

lemma preserves_later:
  "preserves laterMembers (loadZones J j)" "preserves laterMembers (loadStorage j)" "preserves laterMembers (loadSync J j)"
  "preserves laterMembers (loadSegment J j)" "preserves freshnessPeriod (loadPolicy J j)" "preserves freshnessPeriod (loadSchema j)"
  "preserves policyType (loadSchema j)" "preserves policyThreshold (loadSchema j)"
  unfolding load_sections by (auto intro!: preserves_rules simp: laterMembers_def split: option.split)

text \<open>C25: a configuration file that loads has a prefix, an instance suffix and a schema, all non-empty, and an
  interlock policy; the members are what the file says. Whatever it says of the storage, and whether it
  loads or throws, the storage type and path stay what they were.\<close>

theorem config_loaded:
  "snd (load J file c) = c' \<Longrightarrow> storageType c' = storageType c \<and> storagePath c' = storagePath c
    \<and> (fst (load J file c) = Inr () \<longrightarrow> (\<exists>j p. read_json J file = Some j
      \<and> nameOfUri J (get_string j ''ledger-prefix'' '''') = Some (ledgerPrefix c') \<and> ledgerPrefix c' \<noteq> []
      \<and> nameOfUri J (get_string j ''instance-suffix'' '''') = Some (instanceSuffix c') \<and> instanceSuffix c' \<noteq> []
      \<and> freshnessPeriod c' = 1000 * get_int J j ''freshness-period'' 3600
      \<and> get_child_optional j ''interlock-policy'' = Some p \<and> policyType c' = get_string p ''policy-type'' ''policy-descendants''
      \<and> policyThreshold c' = word_of_int (get_int J p ''policy-threshold'' 1)
      \<and> schemaFile c' = get_string j ''trust-schema'' '''' \<and> schemaFile c' \<noteq> ''''))"
proof -
  assume c': "snd (load J file c) = c'"
  have storage: "storageType c' = storageType c" "storagePath c' = storagePath c"
    using preservesD [OF preserves_load [of J "file"], of c "fst (load J file c)" c'] c'
    by (simp_all add: storageMembers_def prod_eq_iff)
  show ?thesis
  proof (cases "fst (load J file c) = Inr ()")
    case True
    then obtain j where j: "read_json J file = Some j" "jchildren j \<noteq> []"
      by (auto simp: load_def raise_def split: option.splits if_splits)
    from True c' have "load J file c = (Inr (), c')" by (simp add: prod_eq_iff)
    then obtain c1 c2 c3 c4 c5 c6 c7 c8 where
      "loadPrefix J j c = (Inr (), c1)" "loadSuffix J j c1 = (Inr (), c2)" "loadFreshness J j c2 = (Inr (), c3)"
      "loadZones J j c3 = (Inr (), c4)" "loadStorage j c4 = (Inr (), c5)" "loadPolicy J j c5 = (Inr (), c6)"
      "loadSchema j c6 = (Inr (), c7)" "loadSync J j c7 = (Inr (), c8)" "loadSegment J j c8 = (Inr (), c')"
      using j by (auto simp: load_def bindM_ok)
    note run = this
    have names: "nameMembers c' = nameMembers c2"
      using preserves_names [THEN preservesD] run by metis
    have c2: "nameOfUri J (get_string j ''ledger-prefix'' '''') = Some (ledgerPrefix c2)" "ledgerPrefix c2 \<noteq> []"
      "nameOfUri J (get_string j ''instance-suffix'' '''') = Some (instanceSuffix c2)" "instanceSuffix c2 \<noteq> []"
      using run(1,2) by (auto simp: loadPrefix_def loadSuffix_def bindM_ok liftE_def uriName_def modifyM_def raise_def ret_def
          split: if_splits sum.splits option.splits)
    have c3: "freshnessPeriod c3 = 1000 * get_int J j ''freshness-period'' 3600"
      using run(3) by (auto simp: loadFreshness_def modifyM_def)
    have l5: "laterMembers c5 = laterMembers c3"
      using preserves_later(1) [THEN preservesD, OF run(4)] preserves_later(2) [THEN preservesD, OF run(5)] by simp
    have l9: "laterMembers c' = laterMembers c7"
      using preserves_later(3) [THEN preservesD, OF run(8)] preserves_later(4) [THEN preservesD, OF run(9)] by simp
    obtain p where p: "get_child_optional j ''interlock-policy'' = Some p"
      "policyType c6 = get_string p ''policy-type'' ''policy-descendants''"
      "policyThreshold c6 = word_of_int (get_int J p ''policy-threshold'' 1)"
      using run(6) by (auto simp: loadPolicy_def bindM_ok modifyM_def raise_def split: option.splits)
    have c7: "schemaFile c7 = get_string j ''trust-schema'' ''''" "schemaFile c7 \<noteq> ''''"
      using run(7) by (auto simp: loadSchema_def bindM_ok modifyM_def raise_def ret_def split: if_splits)
    have "freshnessPeriod c7 = freshnessPeriod c5" "policyType c7 = policyType c6" "policyThreshold c7 = policyThreshold c6"
      using preserves_later(5) [THEN preservesD, OF run(6)] preserves_later(6-8) [THEN preservesD, OF run(7)] by simp_all
    then show ?thesis
      using storage names c2 c3 l5 l9 p c7 j by (auto simp: nameMembers_def laterMembers_def)
  qed (use storage in simp)
qed

text \<open>A sample file, and a library that reads a one-component name from each string.\<close>

definition sampleJson :: json where
  "sampleJson = Json '''' [(''ledger-prefix'', Json ''ledger'' []), (''instance-suffix'', Json ''alice'' []),
     (''record-zones'', Json '''' [('''', Json ''zone'' [])]),
     (''storage'', Json '''' [(''storage-type'', Json ''storage-leveldb'' [])]),
     (''interlock-policy'', Json '''' [(''policy-type'', Json ''policy-witness'' [])]),
     (''trust-schema'', Json ''schema.conf'' []), (''sync'', Json '''' [])]"

definition sampleJsonLib :: json_lib where
  "sampleJsonLib = \<lparr>read_json = (\<lambda>f. if f = ''conf'' then Some sampleJson else None), readInt = (\<lambda>_. None),
     nameOfUri = (\<lambda>u. Some (if u = '''' then [] else [generic u])), signingInfo = Some\<rparr>"

theorem config_loaded_witness:
  "fst (load sampleJsonLib ''conf'' default_config) = Inr ()
   \<and> storageType (snd (load sampleJsonLib ''conf'' default_config)) = ''storage-memory''
   \<and> policyType (snd (load sampleJsonLib ''conf'' default_config)) = ''policy-witness''
   \<and> policyThreshold (snd (load sampleJsonLib ''conf'' default_config)) = 1"
proof -
  note defs = sampleJsonLib_def sampleJson_def get_child_optional_def get_string_def get_int_def
  have ok: "fst (load sampleJsonLib ''conf'' default_config) = Inr ()"
    by (simp add: defs load_def loadPrefix_def loadSuffix_def load_sections bindM_def modifyM_def liftE_def ret_def raise_def
        uriName_def)
  show ?thesis
    using config_loaded [of sampleJsonLib "''conf''" default_config, OF refl] ok by (auto simp: defs default_config_def)
qed

section \<open>Reply segments\<close>

definition sampleOptions :: producer_options where
  "sampleOptions = \<lparr>prodSigner = [], prodFreshness = 0, prodMaxSegment = 2\<rparr>"

theorem producer_segments_witness:
  "\<exists>sto. populateStore ndnTlv demoFace sampleOptions [] (Block 21 ''xyz'') = Inr sto
    \<and> concat (map (bvalue \<circ> content) sto) = wire ndnTlv (Block 21 ''xyz'')"
proof -
  have "length (wire ndnTlv (Block 21 ''xyz'')) = 5"
    by (simp add: ndnTlv_def tlv_wire_def varNumber_def)
  then show ?thesis
    using producer_segments [of demoFace sampleOptions ndnTlv "Block 21 ''xyz''" "[]"]
    by (fastforce simp: sampleOptions_def demoFace_def signs_def)
qed

end
