(* ===== verification/Segment_Fetcher.thy ===== *)
theory Segment_Fetcher
  imports Ndn_Lib
begin

text \<open>
  Fetching one packet with retries (\<open>src/util/segment/data-fetcher\<close>). A \<open>DataFetcher\<close> reacts to data, network
  Nacks, timeouts and its backoff timer; what it does in return (express an interest, start the timer, call one
  of its callbacks) is a list of actions, which the owner of the fetcher carries out. The nonce of an
  interest is not part of the model, so refreshing it changes nothing. Main facts: a fetcher with finite
  retry limits expresses at most as many interests as the limits allow, calls one callback at most, and does
  nothing after that.
\<close>

section \<open>Fetchers\<close>

datatype nack_reason = NackNone | NackCongestion | NackDuplicate | NackNoRoute

text \<open>\<open>operator<<\<close> of the library on a reason, and \<open>to_string\<close> of a number.\<close>

definition reasonText :: "nack_reason \<Rightarrow> string" where
  "reasonText r = (case r of NackNone \<Rightarrow> ''None'' | NackCongestion \<Rightarrow> ''Congestion''
     | NackDuplicate \<Rightarrow> ''Duplicate'' | NackNoRoute \<Rightarrow> ''NoRoute'')"

fun decimal :: "nat \<Rightarrow> string" where
  "decimal n = (if n < 10 then [char_of (48 + n)] else decimal (n div 10) @ [char_of (48 + n mod 10)])"

declare decimal.simps [simp del]

definition decimalInt :: "int \<Rightarrow> string" where
  "decimalInt i = (if i < 0 then CHR ''-'' # decimal (nat (- i)) else decimal (nat i))"

record fetcher =
  maxNackRetries :: int
  maxTimeoutRetries :: int
  nNacks :: int
  nTimeouts :: int
  nCongestionRetries :: "32 word"
  isStopped :: bool
  hasError :: bool

definition MAX_RETRIES_INFINITE :: int where "MAX_RETRIES_INFINITE = - 1"
definition MAX_CONGESTION_BACKOFF_TIME :: int where "MAX_CONGESTION_BACKOFF_TIME = 10000"

datatype fetch_action =
    FExpress interest
  | FSchedule int interest
  | FOnData interest data
  | FOnNack interest string
  | FOnTimeout interest string

type_synonym reaction = "fetcher \<times> fetch_action list"

definition isRunning :: "fetcher \<Rightarrow> bool" where
  "isRunning f \<longleftrightarrow> \<not> isStopped f \<and> \<not> hasError f"

definition newFetcher :: "int \<Rightarrow> int \<Rightarrow> fetcher" where
  "newFetcher maxNack maxTimeout = \<lparr>maxNackRetries = maxNack, maxTimeoutRetries = maxTimeout, nNacks = 0,
     nTimeouts = 0, nCongestionRetries = 0, isStopped = False, hasError = False\<rparr>"

section \<open>Reactions\<close>

definition fetcher_expressInterest :: "interest \<Rightarrow> fetcher \<Rightarrow> reaction" where
  "fetcher_expressInterest i f = (f\<lparr>nCongestionRetries := 0\<rparr>, [FExpress i])"

definition fetch :: "interest \<Rightarrow> int \<Rightarrow> int \<Rightarrow> reaction" where
  "fetch i maxNack maxTimeout = fetcher_expressInterest i (newFetcher maxNack maxTimeout)"

text \<open>The pending interest and the timer are effects of the face and the scheduler: a cancelled fetcher
  is called no more.\<close>

definition fetcher_cancel :: "fetcher \<Rightarrow> fetcher" where
  "fetcher_cancel f = (if isRunning f then f\<lparr>isStopped := True\<rparr> else f)"

definition fetcher_handleData :: "interest \<Rightarrow> data \<Rightarrow> fetcher \<Rightarrow> reaction" where
  "fetcher_handleData i d f = (if \<not> isRunning f then (f, []) else (f\<lparr>isStopped := True\<rparr>, [FOnData i d]))"

definition fetcher_backoff :: "interest \<Rightarrow> fetcher \<Rightarrow> reaction" where
  "fetcher_backoff i f = (let backoffTime = 2 ^ unat (nCongestionRetries f) in
     if backoffTime > MAX_CONGESTION_BACKOFF_TIME then (f, [FSchedule MAX_CONGESTION_BACKOFF_TIME i])
     else (f\<lparr>nCongestionRetries := nCongestionRetries f + 1\<rparr>, [FSchedule backoffTime i]))"

definition fetcher_handleNack :: "ndn \<Rightarrow> interest \<Rightarrow> nack_reason \<Rightarrow> fetcher \<Rightarrow> reaction" where
  "fetcher_handleNack L i reason f =
    (if \<not> isRunning f then (f, [])
     else let f = (if maxNackRetries f \<noteq> MAX_RETRIES_INFINITE then f\<lparr>nNacks := nNacks f + 1\<rparr> else f) in
       if nNacks f \<le> maxNackRetries f \<or> maxNackRetries f = MAX_RETRIES_INFINITE then
         (case reason of
            NackDuplicate \<Rightarrow> fetcher_expressInterest i f
          | NackCongestion \<Rightarrow> fetcher_backoff i f
          | _ \<Rightarrow> (f\<lparr>hasError := True\<rparr>, [FOnNack i (''Could not retrieve data for '' @ toUri L (interestName i)
                   @ '', reason: '' @ reasonText reason)]))
       else (f\<lparr>hasError := True\<rparr>, [FOnNack i (''Reached the maximum number of nack retries (''
               @ decimalInt (maxNackRetries f) @ '') while retrieving data for '' @ toUri L (interestName i))]))"

definition fetcher_handleTimeout :: "ndn \<Rightarrow> interest \<Rightarrow> fetcher \<Rightarrow> reaction" where
  "fetcher_handleTimeout L i f =
    (if \<not> isRunning f then (f, [])
     else let f = (if maxTimeoutRetries f \<noteq> MAX_RETRIES_INFINITE then f\<lparr>nTimeouts := nTimeouts f + 1\<rparr> else f) in
       if nTimeouts f \<le> maxTimeoutRetries f \<or> maxTimeoutRetries f = MAX_RETRIES_INFINITE then
         fetcher_expressInterest i f
       else (f\<lparr>hasError := True\<rparr>, [FOnTimeout i (''Reached the maximum number of timeout retries (''
               @ decimalInt (maxTimeoutRetries f) @ '') while retrieving data for '' @ toUri L (interestName i))]))"

lemmas fetcher_defs = fetch_def fetcher_expressInterest_def fetcher_handleData_def fetcher_backoff_def
  fetcher_handleNack_def fetcher_handleTimeout_def newFetcher_def isRunning_def Let_def

section \<open>The life of a fetcher\<close>

text \<open>A run of one fetcher, with all it did: the face answers the interest expressed last, with data, a Nack
  or a timeout, and the timer expresses the interest again. Nothing can follow a callback or \<open>cancel\<close>.\<close>

inductive fetch_run :: "ndn \<Rightarrow> interest \<Rightarrow> int \<Rightarrow> int \<Rightarrow> fetcher \<Rightarrow> fetch_action list \<Rightarrow> bool"
  for L i maxNack maxTimeout where
  Start: "fetch i maxNack maxTimeout = (f, acts) \<Longrightarrow> fetch_run L i maxNack maxTimeout f acts"
| Data: "fetch_run L i maxNack maxTimeout f acts \<Longrightarrow> last acts = FExpress i \<Longrightarrow>
    fetcher_handleData i d f = (f', as') \<Longrightarrow> fetch_run L i maxNack maxTimeout f' (acts @ as')"
| Nack: "fetch_run L i maxNack maxTimeout f acts \<Longrightarrow> last acts = FExpress i \<Longrightarrow>
    fetcher_handleNack L i reason f = (f', as') \<Longrightarrow> fetch_run L i maxNack maxTimeout f' (acts @ as')"
| Timeout: "fetch_run L i maxNack maxTimeout f acts \<Longrightarrow> last acts = FExpress i \<Longrightarrow>
    fetcher_handleTimeout L i f = (f', as') \<Longrightarrow> fetch_run L i maxNack maxTimeout f' (acts @ as')"
| Backoff: "fetch_run L i maxNack maxTimeout f acts \<Longrightarrow> last acts = FSchedule t i \<Longrightarrow>
    fetcher_expressInterest i f = (f', as') \<Longrightarrow> fetch_run L i maxNack maxTimeout f' (acts @ as')"
| Cancel: "fetch_run L i maxNack maxTimeout f acts \<Longrightarrow> fetch_run L i maxNack maxTimeout (fetcher_cancel f) acts"

definition is_callback :: "fetch_action \<Rightarrow> bool" where
  "is_callback a \<longleftrightarrow> (case a of FExpress _ \<Rightarrow> False | FSchedule _ _ \<Rightarrow> False | _ \<Rightarrow> True)"

definition is_express :: "fetch_action \<Rightarrow> bool" where
  "is_express a \<longleftrightarrow> (case a of FExpress _ \<Rightarrow> True | _ \<Rightarrow> False)"

lemma action_kinds [simp]:
  "is_callback (FOnData j d)" "is_callback (FOnNack j x)" "is_callback (FOnTimeout j x)" "\<not> is_callback (FExpress j)"
  "\<not> is_callback (FSchedule t j)" "is_express (FExpress j)" "\<not> is_express (FSchedule t j)" "\<not> is_express (FOnData j d)"
  "\<not> is_express (FOnNack j x)" "\<not> is_express (FOnTimeout j x)"
  by (simp_all add: is_callback_def is_express_def)

text \<open>What a run satisfies: each interest after the first is paid for by a retry counter, the counters stay
  within their limits while the fetcher runs, each wait is one millisecond, and only the last action may be
  a callback.\<close>

definition fetch_inv :: "int \<Rightarrow> int \<Rightarrow> fetcher \<Rightarrow> fetch_action list \<Rightarrow> bool" where
  "fetch_inv maxNack maxTimeout f acts \<longleftrightarrow> acts \<noteq> [] \<and> maxNackRetries f = maxNack \<and> maxTimeoutRetries f = maxTimeout
     \<and> 0 \<le> nNacks f \<and> 0 \<le> nTimeouts f \<and> nNacks f \<le> maxNack + 1 \<and> nTimeouts f \<le> maxTimeout + 1
     \<and> (isRunning f \<longrightarrow> nNacks f \<le> maxNack \<and> nTimeouts f \<le> maxTimeout)
     \<and> int (length (filter is_express acts)) \<le> 1 + min (nNacks f) maxNack + min (nTimeouts f) maxTimeout
         - (if is_express (last acts) \<or> is_callback (last acts) then 0 else 1)
     \<and> (is_express (last acts) \<and> isRunning f \<longrightarrow> nCongestionRetries f = 0)
     \<and> (\<forall>t j. FSchedule t j \<in> set acts \<longrightarrow> t = 1)
     \<and> (\<forall>a \<in> set (butlast acts). \<not> is_callback a)
     \<and> (is_callback (last acts) \<longrightarrow> \<not> isRunning f)"

lemma express_quiet: "is_express a \<Longrightarrow> \<not> is_callback a"
  by (cases a) simp_all

lemma fetch_inv_step:
  assumes "fetch_inv maxNack maxTimeout f acts" and "0 \<le> maxNack" and "0 \<le> maxTimeout"
  shows "is_express (last acts) \<Longrightarrow> fetcher_handleData i d f = (f', as') \<Longrightarrow> fetch_inv maxNack maxTimeout f' (acts @ as')"
    and "is_express (last acts) \<Longrightarrow> fetcher_handleNack L i reason f = (f', as') \<Longrightarrow> fetch_inv maxNack maxTimeout f' (acts @ as')"
    and "is_express (last acts) \<Longrightarrow> fetcher_handleTimeout L i f = (f', as') \<Longrightarrow> fetch_inv maxNack maxTimeout f' (acts @ as')"
    and "last acts = FSchedule t i \<Longrightarrow> fetcher_expressInterest i f = (f', as') \<Longrightarrow> fetch_inv maxNack maxTimeout f' (acts @ as')"
    and "fetch_inv maxNack maxTimeout (fetcher_cancel f) acts"
proof -
  have "set acts = insert (last acts) (set (butlast acts))"
    using assms(1) append_butlast_last_id [of acts] by (metis fetch_inv_def list.simps(15) rotate1.simps(2) set_rotate1)
  moreover have "\<forall>a \<in> set (butlast acts). \<not> is_callback a" using assms(1) by (simp add: fetch_inv_def)
  ultimately have quiet: "is_express (last acts) \<Longrightarrow> \<forall>a \<in> set acts. \<not> is_callback a"
    and quiet': "last acts = FSchedule t i \<Longrightarrow> \<forall>a \<in> set acts. \<not> is_callback a"
    by (auto dest: express_quiet)
  note inv = assms[unfolded fetch_inv_def]
  show "is_express (last acts) \<Longrightarrow> fetcher_handleData i d f = (f', as') \<Longrightarrow> fetch_inv maxNack maxTimeout f' (acts @ as')"
    using inv quiet by (auto simp: fetch_inv_def fetcher_handleData_def isRunning_def butlast_append split: if_splits)
  show "fetch_inv maxNack maxTimeout f' (acts @ as')" if last: "is_express (last acts)"
    and step: "fetcher_handleNack L i reason f = (f', as')"
  proof (cases "isRunning f")
    case True
    then have m: "min (nNacks f) maxNack = nNacks f" "min (nTimeouts f) maxTimeout = nTimeouts f"
      using inv by simp_all
    note defs = fetch_inv_def fetcher_handleNack_def fetcher_backoff_def fetcher_expressInterest_def isRunning_def
      MAX_RETRIES_INFINITE_def MAX_CONGESTION_BACKOFF_TIME_def butlast_append Let_def
    show ?thesis
    proof (cases "nNacks f + 1 \<le> maxNack")
      case True
      then have "min (nNacks f + 1) maxNack = nNacks f + 1" by simp
      then show ?thesis
        using inv m quiet [OF last] last step True \<open>isRunning f\<close> by (cases reason) (clarsimp simp: defs)+
    next
      case False
      then have "min (nNacks f + 1) maxNack = nNacks f" using inv True by simp
      then show ?thesis
        using inv m quiet [OF last] last step False \<open>isRunning f\<close> by (clarsimp simp: defs)
    qed
  qed (use inv step in \<open>simp add: fetch_inv_def fetcher_handleNack_def\<close>)
  show "fetch_inv maxNack maxTimeout f' (acts @ as')" if last: "is_express (last acts)"
    and step: "fetcher_handleTimeout L i f = (f', as')"
  proof (cases "isRunning f")
    case True
    then have m: "min (nNacks f) maxNack = nNacks f" "min (nTimeouts f) maxTimeout = nTimeouts f"
      using inv by simp_all
    have "min (nTimeouts f + 1) maxTimeout = (if nTimeouts f + 1 \<le> maxTimeout then nTimeouts f + 1 else nTimeouts f)"
      using inv True by simp
    then show ?thesis
      using inv m quiet [OF last] last step \<open>isRunning f\<close>
      by (cases "nTimeouts f + 1 \<le> maxTimeout") (clarsimp simp: fetch_inv_def fetcher_handleTimeout_def
          fetcher_expressInterest_def isRunning_def MAX_RETRIES_INFINITE_def butlast_append Let_def)+
  qed (use inv step in \<open>simp add: fetch_inv_def fetcher_handleTimeout_def\<close>)
  show "last acts = FSchedule t i \<Longrightarrow> fetcher_expressInterest i f = (f', as') \<Longrightarrow> fetch_inv maxNack maxTimeout f' (acts @ as')"
    using inv quiet' by (auto simp: fetch_inv_def fetcher_expressInterest_def isRunning_def butlast_append)
  show "fetch_inv maxNack maxTimeout (fetcher_cancel f) acts"
    using inv by (auto simp: fetch_inv_def fetcher_cancel_def isRunning_def)
qed

lemma fetch_run_inv:
  assumes "fetch_run L i maxNack maxTimeout f acts" and "0 \<le> maxNack" and "0 \<le> maxTimeout"
  shows "fetch_inv maxNack maxTimeout f acts"
  using assms
proof induction
  case (Start f acts)
  then show ?case by (auto simp: fetch_inv_def fetch_def fetcher_expressInterest_def newFetcher_def)
qed (use fetch_inv_step in \<open>auto simp: action_kinds\<close>)

text \<open>C31: a fetcher expresses its interest at most once and once more for each retry it is allowed, whatever
  the network answers; it waits one millisecond after every congestion Nack (the backoff never grows, since
  each new interest resets it); it calls one callback at most, and that is the last thing it does.\<close>

theorem fetcher_bounded:
  assumes "fetch_run L i maxNack maxTimeout f acts" and "0 \<le> maxNack" and "0 \<le> maxTimeout"
  shows "int (length (filter is_express acts)) \<le> 1 + maxNack + maxTimeout
    \<and> (\<forall>t j. FSchedule t j \<in> set acts \<longrightarrow> t = 1)
    \<and> (\<forall>a \<in> set (butlast acts). \<not> is_callback a) \<and> (is_callback (last acts) \<longrightarrow> \<not> isRunning f)"
  using fetch_run_inv [OF assms] assms(2,3) by (auto simp: fetch_inv_def min_def split: if_splits)

theorem fetcher_bounded_witness:
  "\<forall>L i. \<exists>f acts. fetch_run L i 1 0 f acts \<and> filter is_express acts = [FExpress i, FExpress i] \<and> \<not> isRunning f
    \<and> int (length (filter is_express acts)) \<le> 2"
proof (intro allI)
  fix L :: ndn and i :: interest
  note defs = fetcher_defs MAX_RETRIES_INFINITE_def MAX_CONGESTION_BACKOFF_TIME_def
  have "fetch_run L i 1 0 (newFetcher 1 0) [FExpress i]" by (rule Start) (simp add: defs)
  from Nack [OF this, of NackCongestion]
  have "fetch_run L i 1 0 ((newFetcher 1 0)\<lparr>nNacks := 1, nCongestionRetries := 1\<rparr>) ([FExpress i] @ [FSchedule 1 i])"
    by (simp add: defs)
  from Backoff [OF this]
  have run: "fetch_run L i 1 0 ((newFetcher 1 0)\<lparr>nNacks := 1\<rparr>) [FExpress i, FSchedule 1 i, FExpress i]"
    by (simp add: defs)
  obtain f' as' where step: "fetcher_handleTimeout L i ((newFetcher 1 0)\<lparr>nNacks := 1\<rparr>) = (f', as')" by fastforce
  then obtain x where as': "as' = [FOnTimeout i x]" and f': "\<not> isRunning f'" by (auto simp: defs)
  have f: "fetch_run L i 1 0 f' [FExpress i, FSchedule 1 i, FExpress i, FOnTimeout i x]"
    using Timeout [OF run _ step] as' by simp
  then show "\<exists>f acts. fetch_run L i 1 0 f acts \<and> filter is_express acts = [FExpress i, FExpress i] \<and> \<not> isRunning f
    \<and> int (length (filter is_express acts)) \<le> 2"
    using fetcher_bounded [OF f] f f' by (intro exI [of _ f'] exI [of _ "[FExpress i, FSchedule 1 i, FExpress i, FOnTimeout i x]"]) simp
qed

end
