(* ===== verification/Segment_Pipeline.thy ===== *)
theory Segment_Pipeline
  imports Segment_Fetcher
begin

text \<open>
  The fixed-window pipeline (\<open>src/util/segment/pipeline-interests\<close>, \<open>pipeline-interests-fixed\<close>,
  \<open>options.hpp\<close>): \<open>PipelineInterestsFixed\<close> and its base class are one record. The \<open>DataFetcher\<close> objects
  live on the heap \<open>fetchers\<close> (with the pipe number that their callbacks captured); \<open>m_segmentFetchers\<close>
  refers to them by index. \<open>pipeLog\<close> collects what the fetchers ask of face and scheduler, \<open>posted\<close> the
  failures posted to the event loop. The data callback is a parameter: a computation on the pipeline (the
  consumer's part of the state is the field \<open>consumer\<close>). The counters \<open>m_nextSegmentNo\<close>,
  \<open>m_nReceived\<close> and \<open>m_receivedSize\<close> are natural numbers (64-bit in the code, increased by at most one
  packet per call). A failing \<open>BOOST_ASSERT\<close> and an index out of range are \<open>UndefinedBehaviour\<close>.
\<close>

section \<open>State\<close>

record seg_options =
  interestLifetime :: int
  maxRetriesOnTimeoutOrNack :: int
  optMustBeFresh :: bool
  maxPipelineSize :: nat

definition default_options :: seg_options where
  "default_options = \<lparr>interestLifetime = 4000, maxRetriesOnTimeoutOrNack = 15, optMustBeFresh = False, maxPipelineSize = 1\<rparr>"

record 'c pipeline =
  pipeOptions :: seg_options
  pipePrefix :: name
  hasFinalBlockId :: bool
  lastSegmentNo :: nat
  nReceived :: nat
  receivedSize :: nat
  nextSegmentNo :: nat
  isStopping :: bool
  segmentFetchers :: "(nat option \<times> nat) list"
  hasFailure :: bool
  fetchers :: "(fetcher \<times> nat) list"
  pipeLog :: "(nat \<times> fetch_action) list"
  posted :: "string list"
  consumer :: 'c

type_synonym ('c, 'a) pm = "('c pipeline, 'a) cm"

type_synonym 'c data_callback = "data \<Rightarrow> ('c, unit) pm"

definition newPipeline :: "seg_options \<Rightarrow> 'c \<Rightarrow> 'c pipeline" where
  "newPipeline opts c = \<lparr>pipeOptions = opts, pipePrefix = [], hasFinalBlockId = False, lastSegmentNo = 0,
     nReceived = 0, receivedSize = 0, nextSegmentNo = 0, isStopping = False,
     segmentFetchers = replicate (maxPipelineSize opts) (None, 0), hasFailure = False, fetchers = [],
     pipeLog = [], posted = [], consumer = c\<rparr>"

section \<open>Stopping\<close>

definition cancelFetcher :: "nat \<Rightarrow> 'c pipeline \<Rightarrow> 'c pipeline" where
  "cancelFetcher h p = p\<lparr>fetchers := (fetchers p)[h := (fetcher_cancel (fst (fetchers p ! h)), snd (fetchers p ! h))]\<rparr>"

definition cancelEntry :: "'c pipeline \<Rightarrow> nat option \<times> nat \<Rightarrow> 'c pipeline" where
  "cancelEntry p e = (case fst e of None \<Rightarrow> p | Some h \<Rightarrow> cancelFetcher h p)"

definition doCancel :: "'c pipeline \<Rightarrow> 'c pipeline" where
  "doCancel p = (foldl cancelEntry p (segmentFetchers p))\<lparr>segmentFetchers := []\<rparr>"

definition pipe_cancel :: "'c pipeline \<Rightarrow> 'c pipeline" where
  "pipe_cancel p = (if isStopping p then p else doCancel (p\<lparr>isStopping := True\<rparr>))"

definition pipe_onFailure :: "string \<Rightarrow> 'c pipeline \<Rightarrow> 'c pipeline" where
  "pipe_onFailure reason p = (if isStopping p then p
     else (pipe_cancel p)\<lparr>posted := posted (pipe_cancel p) @ [reason]\<rparr>)"

definition allSegmentsReceived :: "'c pipeline \<Rightarrow> bool" where
  "allSegmentsReceived p \<longleftrightarrow> nReceived p > 0 \<and> hasFinalBlockId p \<and> nReceived p - 1 \<ge> lastSegmentNo p"

section \<open>Requesting segments\<close>

definition segmentInterest :: "ndn \<Rightarrow> 'c pipeline \<Rightarrow> nat \<Rightarrow> interest" where
  "segmentInterest L p k = \<lparr>interestName = pipePrefix p @ [segmentComp L k], canBePrefix = False,
     mustBeFresh = optMustBeFresh (pipeOptions p), forwardingHint = [], appParams = None\<rparr>"

definition noFinalSegment :: string where
  "noFinalSegment = ''Fetching terminated but no final segment number has been found''"

definition getNextSegmentNo :: "('c, nat) pm" where
  "getNextSegmentNo = bindM (getsM nextSegmentNo) (\<lambda>n.
     bindM (modifyM (\<lambda>p. p\<lparr>nextSegmentNo := n + 1\<rparr>)) (\<lambda>_. ret n))"

definition startFetcher :: "interest \<Rightarrow> nat \<Rightarrow> ('c, nat) pm" where
  "startFetcher i pipeNo = bindM (getsM (\<lambda>p. p)) (\<lambda>p.
     let retries = maxRetriesOnTimeoutOrNack (pipeOptions p);
         h = length (fetchers p);
         (f, acts) = fetch i retries retries in
     bindM (modifyM (\<lambda>p. p\<lparr>fetchers := fetchers p @ [(f, pipeNo)], pipeLog := pipeLog p @ map (Pair h) acts\<rparr>)) (\<lambda>_.
     ret h))"

definition assignPipe :: "nat \<Rightarrow> nat \<Rightarrow> nat \<Rightarrow> ('c, unit) pm" where
  "assignPipe pipeNo h n = bindM (getsM (\<lambda>p. p)) (\<lambda>p.
     if pipeNo \<ge> length (segmentFetchers p) then raise (UndefinedBehaviour ''operator[]'')
     else if (case fst (segmentFetchers p ! pipeNo) of None \<Rightarrow> False | Some old \<Rightarrow> isRunning (fst (fetchers p ! old)))
     then raise (UndefinedBehaviour ''assertion'')
     else modifyM (\<lambda>p. p\<lparr>segmentFetchers := (segmentFetchers p)[pipeNo := (Some h, n)]\<rparr>))"

definition fetchNextSegment :: "ndn \<Rightarrow> nat \<Rightarrow> ('c, bool) pm" where
  "fetchNextSegment L pipeNo = bindM (getsM (\<lambda>p. p)) (\<lambda>p.
     if isStopping p then ret False
     else if hasFailure p then bindM (modifyM (pipe_onFailure noFinalSegment)) (\<lambda>_. ret False)
     else bindM getNextSegmentNo (\<lambda>n.
       if hasFinalBlockId p \<and> n > lastSegmentNo p then ret False
       else bindM (startFetcher (segmentInterest L p n) pipeNo) (\<lambda>h.
         bindM (assignPipe pipeNo h n) (\<lambda>_. ret True))))"

primrec doRun :: "ndn \<Rightarrow> nat list \<Rightarrow> ('c, unit) pm" where
  "doRun L [] = ret ()"
| "doRun L (k # ks) = bindM (fetchNextSegment L k) (\<lambda>more. if more then doRun L ks else ret ())"

definition pipe_run :: "ndn \<Rightarrow> name \<Rightarrow> ('c, unit) pm" where
  "pipe_run L versionedName =
     (if versionedName = [] \<or> \<not> isVersion L (last versionedName) then raise (UndefinedBehaviour ''assertion'')
      else bindM (modifyM (\<lambda>p. p\<lparr>pipePrefix := versionedName\<rparr>)) (\<lambda>_.
        bindM (getsM pipeOptions) (\<lambda>opts. doRun L [0..<maxPipelineSize opts])))"

section \<open>Answers\<close>

text \<open>The loop over the fetchers when the last segment number becomes known; \<open>True\<close> stands for the
  \<open>return\<close> inside the loop.\<close>

primrec scanFetchers :: "(nat option \<times> nat) list \<Rightarrow> ('c, bool) pm" where
  "scanFetchers [] = ret False"
| "scanFetchers (e # es) = (case fst e of
     None \<Rightarrow> scanFetchers es
   | Some h \<Rightarrow> bindM (getsM (\<lambda>p. p)) (\<lambda>p.
       if snd e > lastSegmentNo p then bindM (modifyM (cancelFetcher h)) (\<lambda>_. scanFetchers es)
       else if hasError (fst (fetchers p ! h)) then
         bindM (modifyM (pipe_onFailure (''Failure retrieving segment #'' @ decimal (snd e)))) (\<lambda>_. ret True)
       else scanFetchers es))"

definition learnFinal :: "ndn \<Rightarrow> data \<Rightarrow> ('c, bool) pm" where
  "learnFinal L d = bindM (getsM hasFinalBlockId) (\<lambda>known.
     case (if known then None else finalBlock d) of
       None \<Rightarrow> ret False
     | Some c \<Rightarrow>
         bindM (liftE (of_option (TlvError ''toSegment'') (readSegment L c))) (\<lambda>k.
         bindM (modifyM (\<lambda>p. p\<lparr>lastSegmentNo := k, hasFinalBlockId := True\<rparr>)) (\<lambda>_.
         bindM (getsM segmentFetchers) scanFetchers)))"

definition pipe_onData :: "'c data_callback \<Rightarrow> data \<Rightarrow> ('c, unit) pm" where
  "pipe_onData cb d = bindM (modifyM (\<lambda>p. p\<lparr>nReceived := nReceived p + 1,
     receivedSize := receivedSize p + length (bvalue (content d))\<rparr>)) (\<lambda>_. cb d)"

definition pipe_handleData :: "ndn \<Rightarrow> 'c data_callback \<Rightarrow> interest \<Rightarrow> data \<Rightarrow> nat \<Rightarrow> ('c, unit) pm" where
  "pipe_handleData L cb i d pipeNo = bindM (getsM isStopping) (\<lambda>stopping.
     if stopping then ret ()
     else if dataName d \<noteq> interestName i then raise (UndefinedBehaviour ''assertion'')
     else bindM (learnFinal L d) (\<lambda>failed.
       if failed then ret ()
       else bindM (pipe_onData cb d) (\<lambda>_.
         bindM (getsM allSegmentsReceived) (\<lambda>complete.
         if complete then ret () else bindM (fetchNextSegment L pipeNo) (\<lambda>_. ret ())))))"

text \<open>The loop of \<open>handleFail\<close>: cancels the fetchers of later segments, and finds out whether all others
  have stopped.\<close>

definition failStep :: "nat \<Rightarrow> bool \<times> 'c pipeline \<Rightarrow> nat option \<times> nat \<Rightarrow> bool \<times> 'c pipeline" where
  "failStep k = (\<lambda>(allStopped, p) e. case fst e of
     None \<Rightarrow> (allStopped, p)
   | Some h \<Rightarrow> if snd e > k then (allStopped, cancelFetcher h p)
       else if isRunning (fst (fetchers p ! h)) then (False, p) else (allStopped, p))"

definition pipe_handleFail :: "string \<Rightarrow> nat \<Rightarrow> ('c, unit) pm" where
  "pipe_handleFail reason pipeNo = bindM (getsM (\<lambda>p. p)) (\<lambda>p.
     if isStopping p then ret ()
     else if pipeNo \<ge> length (segmentFetchers p) then raise (UndefinedBehaviour ''operator[]'')
     else let k = snd (segmentFetchers p ! pipeNo) in
       if hasFinalBlockId p \<and> k \<le> lastSegmentNo p then modifyM (pipe_onFailure reason)
       else if \<not> hasFinalBlockId p then
         (case foldl (failStep k) (True, p) (segmentFetchers p) of
            (True, p') \<Rightarrow> modifyM (\<lambda>_. pipe_onFailure noFinalSegment p')
          | (False, p') \<Rightarrow> modifyM (\<lambda>_. p'\<lparr>hasFailure := True\<rparr>))
       else ret ())"

section \<open>Events\<close>

datatype net_event = EvData data | EvNack nack_reason | EvTimeout | EvTimer

definition react :: "ndn \<Rightarrow> interest \<Rightarrow> net_event \<Rightarrow> fetcher \<Rightarrow> reaction" where
  "react L i ev f = (case ev of EvData d \<Rightarrow> fetcher_handleData i d f | EvNack reason \<Rightarrow> fetcher_handleNack L i reason f
     | EvTimeout \<Rightarrow> fetcher_handleTimeout L i f | EvTimer \<Rightarrow> fetcher_expressInterest i f)"

definition perform :: "ndn \<Rightarrow> 'c data_callback \<Rightarrow> nat \<Rightarrow> nat \<Rightarrow> fetch_action \<Rightarrow> ('c, unit) pm" where
  "perform L cb h pipeNo a = (case a of
     FExpress i \<Rightarrow> modifyM (\<lambda>p. p\<lparr>pipeLog := pipeLog p @ [(h, a)]\<rparr>)
   | FSchedule t i \<Rightarrow> modifyM (\<lambda>p. p\<lparr>pipeLog := pipeLog p @ [(h, a)]\<rparr>)
   | FOnData i d \<Rightarrow> pipe_handleData L cb i d pipeNo
   | FOnNack i reason \<Rightarrow> pipe_handleFail reason pipeNo
   | FOnTimeout i reason \<Rightarrow> pipe_handleFail reason pipeNo)"

definition pipe_event :: "ndn \<Rightarrow> 'c data_callback \<Rightarrow> nat \<Rightarrow> interest \<Rightarrow> net_event \<Rightarrow> ('c, unit) pm" where
  "pipe_event L cb h i ev = bindM (getsM (\<lambda>p. fetchers p ! h)) (\<lambda>(f, pipeNo).
     let (f', acts) = react L i ev f in
     bindM (modifyM (\<lambda>p. p\<lparr>fetchers := (fetchers p)[h := (f', pipeNo)]\<rparr>)) (\<lambda>_.
     forM (perform L cb h pipeNo) acts))"

end
