(* ===== verification/Pipeline_Inv.thy ===== *)
theory Pipeline_Inv
  imports Segment_Pipeline
begin

text \<open>
  Invariants of the pipeline: the loops in closed form, the wiring between pipes and fetchers, and what every
  event keeps of it. \<open>flying p j\<close> is the segment that pipe \<open>j\<close> is fetching.
\<close>

section \<open>Cancelling in closed form\<close>

definition cancelled_in :: "nat set \<Rightarrow> (fetcher \<times> nat) list \<Rightarrow> (fetcher \<times> nat) list" where
  "cancelled_in S fs = map (\<lambda>h. if h \<in> S then (fetcher_cancel (fst (fs ! h)), snd (fs ! h)) else fs ! h) [0..<length fs]"

lemma length_cancelled [simp]: "length (cancelled_in S fs) = length fs"
  by (simp add: cancelled_in_def)

lemma nth_cancelled: "h < length fs \<Longrightarrow> cancelled_in S fs ! h =
  (if h \<in> S then (fetcher_cancel (fst (fs ! h)), snd (fs ! h)) else fs ! h)"
  by (simp add: cancelled_in_def)

lemma cancel_simps [simp]: "fetcher_cancel (fetcher_cancel f) = fetcher_cancel f" "\<not> isRunning (fetcher_cancel f)"
  "hasError (fetcher_cancel f) = hasError f"
  by (simp_all add: fetcher_cancel_def isRunning_def)

lemma cancelled_empty [simp]: "cancelled_in {} fs = fs"
  by (rule nth_equalityI) (simp_all add: nth_cancelled)

lemma cancelled_twice [simp]: "cancelled_in S (cancelled_in T fs) = cancelled_in (S \<union> T) fs"
  by (rule nth_equalityI) (simp_all add: nth_cancelled)

lemma snd_cancelled [simp]: "h < length fs \<Longrightarrow> snd (cancelled_in S fs ! h) = snd (fs ! h)"
  by (simp add: nth_cancelled)

lemma running_cancelled [simp]: "h < length fs \<Longrightarrow> isRunning (fst (cancelled_in S fs ! h)) \<longleftrightarrow> isRunning (fst (fs ! h)) \<and> h \<notin> S"
  by (simp add: nth_cancelled)

lemma hasError_cancelled [simp]: "h < length fs \<Longrightarrow> hasError (fst (cancelled_in S fs ! h)) = hasError (fst (fs ! h))"
  by (simp add: nth_cancelled)

lemma cancelFetcher_eq: "cancelFetcher h p = p\<lparr>fetchers := cancelled_in {h} (fetchers p)\<rparr>"
proof -
  have "(fetchers p)[h := (fetcher_cancel (fst (fetchers p ! h)), snd (fetchers p ! h))] = cancelled_in {h} (fetchers p)"
    by (rule nth_equalityI) (auto simp: nth_cancelled nth_list_update)
  then show ?thesis by (simp add: cancelFetcher_def)
qed

text \<open>The fetchers that a list of entries refers to.\<close>

definition handles :: "(nat option \<times> nat) list \<Rightarrow> nat set" where
  "handles es = {h. \<exists>k. (Some h, k) \<in> set es}"

definition handles_above :: "nat \<Rightarrow> (nat option \<times> nat) list \<Rightarrow> nat set" where
  "handles_above m es = {h. \<exists>k > m. (Some h, k) \<in> set es}"

lemma handles_simps [simp]:
  "handles [] = {}" "handles ((None, k) # es) = handles es" "handles ((Some h, k) # es) = insert h (handles es)"
  "handles_above m [] = {}" "handles_above m ((None, k) # es) = handles_above m es"
  "handles_above m ((Some h, k) # es) = (if k > m then insert h (handles_above m es) else handles_above m es)"
  by (auto simp: handles_def handles_above_def)

lemma handles_above_subset: "handles_above m es \<subseteq> handles es"
  by (auto simp: handles_def handles_above_def)

lemma cancelEntries: "foldl cancelEntry p es = p\<lparr>fetchers := cancelled_in (handles es) (fetchers p)\<rparr>"
proof (induction es arbitrary: p)
  case (Cons e es)
  then show ?case by (cases e; cases "fst e") (auto simp: cancelEntry_def cancelFetcher_eq)
qed simp

text \<open>The pipeline after a failure.\<close>

definition aborted :: "string \<Rightarrow> 'c pipeline \<Rightarrow> 'c pipeline" where
  "aborted reason p = p\<lparr>isStopping := True, fetchers := cancelled_in (handles (segmentFetchers p)) (fetchers p),
     segmentFetchers := [], posted := posted p @ [reason]\<rparr>"

lemma pipe_onFailure_eq: "\<not> isStopping p \<Longrightarrow> pipe_onFailure reason p = aborted reason p"
  by (simp add: pipe_onFailure_def pipe_cancel_def doCancel_def cancelEntries aborted_def)

lemma aborted_cancelled: "S \<subseteq> handles (segmentFetchers p) \<Longrightarrow>
  aborted reason (p\<lparr>fetchers := cancelled_in S (fetchers p)\<rparr>) = aborted reason p"
  by (simp add: aborted_def Un_absorb2)

text \<open>Learning the last segment number.\<close>

definition broken_entry :: "'c pipeline \<Rightarrow> nat option \<times> nat \<Rightarrow> bool" where
  "broken_entry p e \<longleftrightarrow> (case fst e of None \<Rightarrow> False | Some h \<Rightarrow> snd e \<le> lastSegmentNo p \<and> hasError (fst (fetchers p ! h)))"

lemma broken_entry_simps [simp]:
  "\<not> broken_entry p (None, k)" "broken_entry p (Some h, k) \<longleftrightarrow> k \<le> lastSegmentNo p \<and> hasError (fst (fetchers p ! h))"
  by (simp_all add: broken_entry_def)

lemma scan_fine:
  assumes "list_all (\<lambda>e. \<not> broken_entry p e) es" and "\<forall>h \<in> handles es. h < length (fetchers p)"
  shows "scanFetchers es (p\<lparr>fetchers := cancelled_in S (fetchers p)\<rparr>) =
    (Inr False, p\<lparr>fetchers := cancelled_in (S \<union> handles_above (lastSegmentNo p) es) (fetchers p)\<rparr>)"
  using assms
proof (induction es arbitrary: S)
  case (Cons e es)
  then show ?case
    by (cases e; cases "fst e") (simp_all add: bindM_def getsM_def modifyM_def cancelFetcher_eq)
qed (simp add: ret_def)

lemma scan_broken:
  assumes "\<not> list_all (\<lambda>e. \<not> broken_entry p e) es" and "\<forall>h \<in> handles es. h < length (fetchers p)"
    and "\<not> isStopping p" and "handles es \<subseteq> handles (segmentFetchers p)" and "S \<subseteq> handles (segmentFetchers p)"
  shows "\<exists>reason. scanFetchers es (p\<lparr>fetchers := cancelled_in S (fetchers p)\<rparr>) = (Inr True, aborted reason p)"
  using assms
proof (induction es arbitrary: S)
  case (Cons e es)
  obtain o' k where e: "e = (o', k)" by (cases e)
  show ?case
  proof (cases o')
    case (Some h)
    with Cons e show ?thesis
      by (auto simp: bindM_def getsM_def modifyM_def ret_def cancelFetcher_eq pipe_onFailure_eq aborted_cancelled)
  qed (use Cons e in simp)
qed simp

lemma scan_all:
  assumes "\<not> isStopping p" and "\<forall>h \<in> handles (segmentFetchers p). h < length (fetchers p)"
  shows "scanFetchers (segmentFetchers p) p = (Inr False,
      p\<lparr>fetchers := cancelled_in (handles_above (lastSegmentNo p) (segmentFetchers p)) (fetchers p)\<rparr>)
    \<or> (\<exists>reason. scanFetchers (segmentFetchers p) p = (Inr True, aborted reason p))"
  using scan_fine [of p "segmentFetchers p" "{}"] scan_broken [of p "segmentFetchers p" "{}"] assms by fastforce

text \<open>The loop of a failed segment.\<close>

definition flying_below :: "nat \<Rightarrow> 'c pipeline \<Rightarrow> nat option \<times> nat \<Rightarrow> bool" where
  "flying_below k p e \<longleftrightarrow> (case fst e of None \<Rightarrow> False | Some h \<Rightarrow> snd e \<le> k \<and> isRunning (fst (fetchers p ! h)))"

lemma flying_below_simps [simp]:
  "\<not> flying_below k p (None, k')" "flying_below k p (Some h, k') \<longleftrightarrow> k' \<le> k \<and> isRunning (fst (fetchers p ! h))"
  by (simp_all add: flying_below_def)

fun once :: "(nat option \<times> nat) list \<Rightarrow> bool" where
  "once [] \<longleftrightarrow> True"
| "once (e # es) \<longleftrightarrow> (case fst e of None \<Rightarrow> True | Some h \<Rightarrow> h \<notin> handles es) \<and> once es"

lemma fail_loop:
  assumes "\<forall>h \<in> handles es. h < length (fetchers p)" and "S \<inter> handles es = {}" and "once es"
  shows "foldl (failStep k) (b, p\<lparr>fetchers := cancelled_in S (fetchers p)\<rparr>) es =
    (b \<and> list_all (\<lambda>e. \<not> flying_below k p e) es, p\<lparr>fetchers := cancelled_in (S \<union> handles_above k es) (fetchers p)\<rparr>)"
  using assms
proof (induction es arbitrary: b S)
  case (Cons e es)
  obtain o' k1 where e: "e = (o', k1)" by (cases e)
  show ?case
  proof (cases o')
    case None
    then show ?thesis using Cons e by (simp add: failStep_def)
  next
    case (Some h)
    have "h \<notin> handles es" using Cons.prems(3) e Some by simp
    then have h: "h \<notin> S" "h < length (fetchers p)" "insert h S \<inter> handles es = {}" "S \<inter> handles es = {}"
      "\<forall>h \<in> handles es. h < length (fetchers p)" "once es"
      using Cons.prems e Some by auto
    show ?thesis
      using Cons.IH [OF h(5) h(3) h(6), of b] Cons.IH [OF h(5) h(4) h(6), of b] Cons.IH [OF h(5) h(4) h(6), of False] h(1,2) e Some
      by (simp add: failStep_def cancelFetcher_eq)
  qed
qed simp

section \<open>Pipes and fetchers\<close>

definition handleAt :: "'c pipeline \<Rightarrow> nat \<Rightarrow> nat option" where
  "handleAt p j = (if j < length (segmentFetchers p) then fst (segmentFetchers p ! j) else None)"

definition segAt :: "'c pipeline \<Rightarrow> nat \<Rightarrow> nat" where
  "segAt p j = snd (segmentFetchers p ! j)"

definition runs_at :: "'c pipeline \<Rightarrow> nat \<Rightarrow> bool" where
  "runs_at p h \<longleftrightarrow> h < length (fetchers p) \<and> isRunning (fst (fetchers p ! h))"

definition flying :: "'c pipeline \<Rightarrow> nat \<Rightarrow> nat option" where
  "flying p j = (case handleAt p j of None \<Rightarrow> None | Some h \<Rightarrow> if runs_at p h then Some (segAt p j) else None)"

definition wired :: "'c pipeline \<Rightarrow> bool" where
  "wired p \<longleftrightarrow> length (segmentFetchers p) = maxPipelineSize (pipeOptions p)
     \<and> (\<forall>j h. handleAt p j = Some h \<longrightarrow> h < length (fetchers p) \<and> snd (fetchers p ! h) = j \<and> segAt p j < nextSegmentNo p)
     \<and> (\<forall>j j'. handleAt p j \<noteq> None \<longrightarrow> handleAt p j' \<noteq> None \<longrightarrow> segAt p j = segAt p j' \<longrightarrow> j = j')
     \<and> (\<forall>h. runs_at p h \<longrightarrow> handleAt p (snd (fetchers p ! h)) = Some h)"

lemma wiredD:
  assumes "wired p"
  shows "length (segmentFetchers p) = maxPipelineSize (pipeOptions p)"
    and "handleAt p j = Some h \<Longrightarrow> h < length (fetchers p) \<and> snd (fetchers p ! h) = j \<and> segAt p j < nextSegmentNo p"
    and "handleAt p j \<noteq> None \<Longrightarrow> handleAt p j' \<noteq> None \<Longrightarrow> segAt p j = segAt p j' \<Longrightarrow> j = j'"
    and "runs_at p h \<Longrightarrow> handleAt p (snd (fetchers p ! h)) = Some h"
  using assms unfolding wired_def by blast+

lemma wiredI:
  assumes "length (segmentFetchers p) = maxPipelineSize (pipeOptions p)"
    and "\<And>j h. handleAt p j = Some h \<Longrightarrow> h < length (fetchers p) \<and> snd (fetchers p ! h) = j \<and> segAt p j < nextSegmentNo p"
    and "\<And>j j'. handleAt p j \<noteq> None \<Longrightarrow> handleAt p j' \<noteq> None \<Longrightarrow> segAt p j = segAt p j' \<Longrightarrow> j = j'"
    and "\<And>h. runs_at p h \<Longrightarrow> handleAt p (snd (fetchers p ! h)) = Some h"
  shows "wired p"
  using assms unfolding wired_def by blast

lemma flying_Some: "flying p j = Some k \<longleftrightarrow> (\<exists>h. handleAt p j = Some h \<and> segAt p j = k \<and> runs_at p h)"
  by (auto simp: flying_def split: option.splits)

lemma handleAt_bound: "handleAt p j = Some h \<Longrightarrow> j < length (segmentFetchers p)"
  by (simp add: handleAt_def split: if_splits)

text \<open>Both depend on the fields for options, segment numbers and fetchers only.\<close>

lemma structure_cong:
  assumes "segmentFetchers q = segmentFetchers p" and "fetchers q = fetchers p"
  shows "handleAt q = handleAt p" and "segAt q = segAt p" and "runs_at q = runs_at p" and "flying q = flying p"
    and "pipeOptions q = pipeOptions p \<Longrightarrow> nextSegmentNo q = nextSegmentNo p \<Longrightarrow> wired q = wired p"
proof -
  show eqs: "handleAt q = handleAt p" "segAt q = segAt p" "runs_at q = runs_at p"
    by (simp_all add: handleAt_def segAt_def runs_at_def fun_eq_iff assms)
  show "flying q = flying p" by (intro ext) (simp only: flying_def eqs)
  show "pipeOptions q = pipeOptions p \<Longrightarrow> nextSegmentNo q = nextSegmentNo p \<Longrightarrow> wired q = wired p"
    by (simp add: wired_def eqs assms)
qed

lemma entry_at: "(Some h, k) \<in> set (segmentFetchers p) \<longleftrightarrow> (\<exists>j. handleAt p j = Some h \<and> segAt p j = k)"
proof
  assume "(Some h, k) \<in> set (segmentFetchers p)"
  then obtain j where "j < length (segmentFetchers p)" "segmentFetchers p ! j = (Some h, k)" by (auto simp: in_set_conv_nth)
  then show "\<exists>j. handleAt p j = Some h \<and> segAt p j = k" by (intro exI [of _ j]) (simp add: handleAt_def segAt_def)
next
  assume "\<exists>j. handleAt p j = Some h \<and> segAt p j = k"
  then obtain j where "j < length (segmentFetchers p)" "fst (segmentFetchers p ! j) = Some h" "snd (segmentFetchers p ! j) = k"
    by (auto simp: handleAt_def segAt_def split: if_splits)
  then show "(Some h, k) \<in> set (segmentFetchers p)" by (metis nth_mem prod.collapse)
qed

lemma handles_handleAt: "h \<in> handles (segmentFetchers p) \<longleftrightarrow> (\<exists>j. handleAt p j = Some h)"
  by (simp add: handles_def entry_at)

lemma handles_above_at: "h \<in> handles_above m (segmentFetchers p) \<longleftrightarrow> (\<exists>j. handleAt p j = Some h \<and> segAt p j > m)"
  by (auto simp: handles_above_def entry_at)

lemma handles_wired: "wired p \<Longrightarrow> h \<in> handles (segmentFetchers p) \<Longrightarrow> h < length (fetchers p)"
  by (auto simp: handles_handleAt dest: wiredD(2))

lemma running_handles: "wired p \<Longrightarrow> runs_at p h \<Longrightarrow> h \<in> handles (segmentFetchers p)"
  by (auto simp: handles_handleAt dest: wiredD(4))

lemma once_nth: "(\<And>j j' h. j < length es \<Longrightarrow> j' < length es \<Longrightarrow> fst (es ! j) = Some h \<Longrightarrow> fst (es ! j') = Some h \<Longrightarrow> j = j') \<Longrightarrow> once es"
proof (induction es)
  case (Cons e es)
  have "once es"
  proof (rule Cons.IH)
    show "j < length es \<Longrightarrow> j' < length es \<Longrightarrow> fst (es ! j) = Some h \<Longrightarrow> fst (es ! j') = Some h \<Longrightarrow> j = j'" for j j' h
      using Cons.prems [of "Suc j" "Suc j'" h] by simp
  qed
  moreover have "h \<notin> handles es" if "fst e = Some h" for h
  proof
    assume "h \<in> handles es"
    then obtain j where "j < length es" "fst (es ! j) = Some h" by (force simp: handles_def in_set_conv_nth)
    then show False using Cons.prems [of 0 "Suc j" h] that by simp
  qed
  ultimately show ?case by (auto split: option.split)
qed simp

lemma once_wired: "wired p \<Longrightarrow> once (segmentFetchers p)"
proof (rule once_nth)
  fix j j' h assume w: "wired p" "j < length (segmentFetchers p)" "j' < length (segmentFetchers p)"
    "fst (segmentFetchers p ! j) = Some h" "fst (segmentFetchers p ! j') = Some h"
  then show "j = j'" using wiredD(2) [OF w(1), of j h] wiredD(2) [OF w(1), of j' h] by (simp add: handleAt_def)
qed

text \<open>Changing one fetcher, and cancelling.\<close>

lemma update_fetcher:
  assumes w: "wired p" and h: "h < length (fetchers p)" and f': "isRunning f' \<Longrightarrow> isRunning (fst (fetchers p ! h))"
    and q: "q = p\<lparr>fetchers := (fetchers p)[h := (f', snd (fetchers p ! h))]\<rparr>"
  shows "wired q" and "flying q j = (if handleAt p j = Some h then (if isRunning f' then Some (segAt p j) else None) else flying p j)"
proof -
  have eqs: "handleAt q = handleAt p" "segAt q = segAt p" "length (fetchers q) = length (fetchers p)"
    "nextSegmentNo q = nextSegmentNo p" "pipeOptions q = pipeOptions p" "segmentFetchers q = segmentFetchers p"
    "snd (fetchers q ! k) = snd (fetchers p ! k)" for k
    using h by (simp_all add: q handleAt_def segAt_def fun_eq_iff nth_list_update)
  have runs: "runs_at q k \<longleftrightarrow> (if k = h then isRunning f' else runs_at p k)" for k
    using h by (simp add: q runs_at_def nth_list_update)
  have "runs_at q k \<Longrightarrow> runs_at p k" for k
    using runs [of k] f' h by (auto simp: runs_at_def split: if_splits)
  with w show "wired q" unfolding wired_def eqs by blast
  show "flying q j = (if handleAt p j = Some h then (if isRunning f' then Some (segAt p j) else None) else flying p j)"
    by (auto simp: flying_def eqs runs split: option.split)
qed

lemma cancel_some:
  assumes w: "wired p" and q: "q = p\<lparr>fetchers := cancelled_in (handles_above m (segmentFetchers p)) (fetchers p)\<rparr>"
  shows "wired q" and "flying q j = (case flying p j of None \<Rightarrow> None | Some k \<Rightarrow> if k > m then None else Some k)"
proof -
  have eqs: "handleAt q = handleAt p" "segAt q = segAt p" "length (fetchers q) = length (fetchers p)"
    "nextSegmentNo q = nextSegmentNo p" "pipeOptions q = pipeOptions p" "segmentFetchers q = segmentFetchers p"
    by (simp_all add: q handleAt_def segAt_def fun_eq_iff)
  have snd: "k < length (fetchers p) \<Longrightarrow> snd (fetchers q ! k) = snd (fetchers p ! k)" for k by (simp add: q)
  have runs: "runs_at q k \<longleftrightarrow> runs_at p k \<and> k \<notin> handles_above m (segmentFetchers p)" for k
    by (auto simp: q runs_at_def)
  have "runs_at q k \<Longrightarrow> runs_at p k \<and> snd (fetchers q ! k) = snd (fetchers p ! k)" for k
    using runs [of k] snd [of k] by (simp add: runs_at_def)
  moreover have "handleAt p j = Some k \<Longrightarrow> snd (fetchers q ! k) = snd (fetchers p ! k)" for j k
    using snd wiredD(2) [OF w] by blast
  ultimately show "wired q"
    using wiredD [OF w] by (intro wiredI) (simp_all only: eqs, blast+)
  have above: "h \<in> handles_above m (segmentFetchers p) \<longleftrightarrow> segAt p j > m" if "handleAt p j = Some h" for h j
    using that wiredD(2) [OF w] by (auto simp: handles_above_at)
  show "flying q j = (case flying p j of None \<Rightarrow> None | Some k \<Rightarrow> if k > m then None else Some k)"
    using above by (auto simp: flying_def eqs runs split: option.split)
qed

text \<open>Requesting the next segment, in closed form.\<close>

definition launched :: "ndn \<Rightarrow> nat \<Rightarrow> 'c pipeline \<Rightarrow> 'c pipeline" where
  "launched L j p = (let n = nextSegmentNo p; h = length (fetchers p); r = maxRetriesOnTimeoutOrNack (pipeOptions p) in
     p\<lparr>nextSegmentNo := n + 1, fetchers := fetchers p @ [(newFetcher r r, j)],
       pipeLog := pipeLog p @ [(h, FExpress (segmentInterest L p n))],
       segmentFetchers := (segmentFetchers p)[j := (Some h, n)]\<rparr>)"

lemma newFetcher_running [simp]: "isRunning (newFetcher a b)" "(newFetcher a b)\<lparr>nCongestionRetries := 0\<rparr> = newFetcher a b"
  by (simp_all add: newFetcher_def isRunning_def)

lemma fetchNextSegment_eq:
  assumes "wired p" and "j < length (segmentFetchers p)" and "flying p j = None"
  shows "fetchNextSegment L j p =
    (if isStopping p then (Inr False, p)
     else if hasFailure p then (Inr False, aborted noFinalSegment p)
     else if hasFinalBlockId p \<and> nextSegmentNo p > lastSegmentNo p then (Inr False, p\<lparr>nextSegmentNo := nextSegmentNo p + 1\<rparr>)
     else (Inr True, launched L j p))"
proof -
  have old: "\<not> isRunning (fst (fetchers p ! old))" "old < length (fetchers p)" if "fst (segmentFetchers p ! j) = Some old" for old
    using that assms(2,3) wiredD(2) [OF assms(1), of j old] by (simp_all add: flying_def handleAt_def runs_at_def split: if_splits)
  have assign: "assignPipe j (length (fetchers p)) n q = (Inr (), q\<lparr>segmentFetchers := (segmentFetchers q)[j := (Some (length (fetchers p)), n)]\<rparr>)"
    if "segmentFetchers q = segmentFetchers p" "\<forall>k < length (fetchers p). fetchers q ! k = fetchers p ! k" for q n
    using that old assms(2) by (cases "fst (segmentFetchers p ! j)") (simp_all add: assignPipe_def bindM_def getsM_def modifyM_def)
  show ?thesis
    by (simp add: assign nth_append fetchNextSegment_def getNextSegmentNo_def startFetcher_def bindM_def getsM_def modifyM_def ret_def Let_def
        pipe_onFailure_eq launched_def fetch_def fetcher_expressInterest_def)
qed

lemma launched_wired:
  assumes w: "wired p" and j: "j < length (segmentFetchers p)" and none: "flying p j = None"
  shows "wired (launched L j p)" and "flying (launched L j p) i = (if i = j then Some (nextSegmentNo p) else flying p i)"
proof -
  let ?q = "launched L j p" and ?h = "length (fetchers p)"
  have at: "handleAt ?q i = (if i = j then Some ?h else handleAt p i)" "segAt ?q i = (if i = j then nextSegmentNo p else segAt p i)" for i
    using j by (simp_all add: launched_def handleAt_def segAt_def Let_def nth_list_update)
  have len: "length (fetchers ?q) = Suc ?h" "length (segmentFetchers ?q) = length (segmentFetchers p)"
    "nextSegmentNo ?q = Suc (nextSegmentNo p)" "pipeOptions ?q = pipeOptions p"
    by (simp_all add: launched_def Let_def)
  have snd: "snd (fetchers ?q ! k) = (if k = ?h then j else snd (fetchers p ! k))" if "k < Suc ?h" for k
    using that by (simp add: launched_def Let_def nth_append)
  have runs: "runs_at ?q k \<longleftrightarrow> k = ?h \<or> runs_at p k" for k
    by (auto simp: launched_def Let_def runs_at_def nth_append less_Suc_eq)
  have old: "\<not> runs_at p k" if "handleAt p j = Some k" for k
    using that none by (auto simp: flying_def split: if_splits)
  show "wired ?q"
  proof (rule wiredI)
    show "length (segmentFetchers ?q) = maxPipelineSize (pipeOptions ?q)" using wiredD(1) [OF w] by (simp add: len)
    show "handleAt ?q i = Some k \<Longrightarrow> k < length (fetchers ?q) \<and> snd (fetchers ?q ! k) = i \<and> segAt ?q i < nextSegmentNo ?q" for i k
      using wiredD(2) [OF w, of i k] snd [of k] by (auto simp: at len split: if_splits)
    show "handleAt ?q i \<noteq> None \<Longrightarrow> handleAt ?q i' \<noteq> None \<Longrightarrow> segAt ?q i = segAt ?q i' \<Longrightarrow> i = i'" for i i'
      using wiredD(3) [OF w, of i i'] wiredD(2) [OF w, of i] wiredD(2) [OF w, of i'] by (auto simp: at split: if_splits)
    show "runs_at ?q k \<Longrightarrow> handleAt ?q (snd (fetchers ?q ! k)) = Some k" for k
    proof (cases "k = ?h")
      case False
      assume "runs_at ?q k"
      then have k: "runs_at p k" using False by (simp add: runs)
      then have "snd (fetchers ?q ! k) = snd (fetchers p ! k)" using snd [of k] False by (simp add: runs_at_def)
      moreover have "snd (fetchers p ! k) \<noteq> j" using wiredD(4) [OF w k] old k by auto
      ultimately show ?thesis using wiredD(4) [OF w k] by (simp add: at)
    qed (simp add: at snd)
  qed
  have "runs_at p k = runs_at ?q k" if "handleAt p i = Some k" for i k
    using wiredD(2) [OF w that] by (auto simp: runs)
  then show "flying ?q i = (if i = j then Some (nextSegmentNo p) else flying p i)"
    by (auto simp: flying_def at runs split: option.split)
qed

section \<open>What every event keeps\<close>

text \<open>What a fetcher asked for last.\<close>

definition lastAction :: "'c pipeline \<Rightarrow> nat \<Rightarrow> fetch_action" where
  "lastAction p h = last (map snd (filter (\<lambda>a. fst a = h) (pipeLog p)))"

definition asked :: "ndn \<Rightarrow> 'c pipeline \<Rightarrow> bool" where
  "asked L p \<longleftrightarrow> (\<forall>h. runs_at p h \<longrightarrow> (let i = segmentInterest L p (segAt p (snd (fetchers p ! h))) in
     lastAction p h = FExpress i \<or> (\<exists>t. lastAction p h = FSchedule t i)))"

lemma lastAction_append: "pipeLog q = pipeLog p @ [(h, a)] \<Longrightarrow> lastAction q k = (if k = h then a else lastAction p k)"
  by (simp add: lastAction_def)

definition pipe_ok :: "ndn \<Rightarrow> 'c pipeline \<Rightarrow> bool" where
  "pipe_ok L p \<longleftrightarrow> (if isStopping p then segmentFetchers p = [] \<and> (\<forall>h. \<not> runs_at p h)
     else wired p \<and> asked L p \<and> (hasFinalBlockId p \<longrightarrow> (\<forall>j k. flying p j = Some k \<longrightarrow> k \<le> lastSegmentNo p)))"

lemma aborted_ok: "wired p \<Longrightarrow> pipe_ok L (aborted reason p)"
  using running_handles [of p] by (auto simp: pipe_ok_def aborted_def runs_at_def)

lemma asked_launched:
  assumes "asked L p" and w: "wired p" and j: "j < length (segmentFetchers p)" and "flying p j = None"
  shows "asked L (launched L j p)"
  unfolding asked_def
proof (intro allI impI)
  fix k assume k: "runs_at (launched L j p) k"
  let ?q = "launched L j p" and ?h = "length (fetchers p)"
  have int: "segmentInterest L ?q = segmentInterest L p" by (simp add: segmentInterest_def launched_def Let_def fun_eq_iff)
  have log: "lastAction ?q k = (if k = ?h then FExpress (segmentInterest L p (nextSegmentNo p)) else lastAction p k)"
    by (rule lastAction_append) (simp add: launched_def Let_def)
  show "let i = segmentInterest L ?q (segAt ?q (snd (fetchers ?q ! k))) in
     lastAction ?q k = FExpress i \<or> (\<exists>t. lastAction ?q k = FSchedule t i)"
  proof (cases "k = ?h")
    case True
    then have seg: "segAt ?q (snd (fetchers ?q ! k)) = nextSegmentNo p" using j by (simp add: launched_def Let_def segAt_def)
    show ?thesis unfolding log int seg by (simp add: True Let_def)
  next
    case False
    then have run: "runs_at p k" using k by (auto simp: launched_def Let_def runs_at_def nth_append less_Suc_eq split: if_splits)
    have at: "handleAt p (snd (fetchers p ! k)) = Some k" by (rule wiredD(4) [OF w run])
    then have "snd (fetchers p ! k) \<noteq> j" using assms(4) run by (auto simp: flying_def)
    then have seg: "segAt ?q (snd (fetchers ?q ! k)) = segAt p (snd (fetchers p ! k))"
      using run False by (simp add: launched_def Let_def segAt_def nth_append runs_at_def)
    show ?thesis unfolding log int seg using assms(1) run False by (simp add: asked_def)
  qed
qed

lemma fetchNextSegment_ok:
  assumes "pipe_ok L p" and "isStopping p \<or> j < length (segmentFetchers p) \<and> flying p j = None"
  shows "runs (fetchNextSegment L j) p (\<lambda>_ q. pipe_ok L q)"
proof (cases "isStopping p")
  case True
  then show ?thesis using assms by (simp add: fetchNextSegment_def runs_rules)
next
  case False
  then have w: "wired p" "asked L p" and j: "j < length (segmentFetchers p)" "flying p j = None"
    and final: "hasFinalBlockId p \<Longrightarrow> flying p i = Some k \<Longrightarrow> k \<le> lastSegmentNo p" for i k
    using assms by (auto simp: pipe_ok_def)
  define q where q: "q = p\<lparr>nextSegmentNo := nextSegmentNo p + 1\<rparr>"
  have same: "handleAt q = handleAt p" "segAt q = segAt p" "runs_at q = runs_at p" "flying q = flying p"
    by (intro structure_cong; simp add: q)+
  have "wired q"
  proof (rule wiredI)
    show "handleAt q i = Some k \<Longrightarrow> k < length (fetchers q) \<and> snd (fetchers q ! k) = i \<and> segAt q i < nextSegmentNo q" for i k
      using wiredD(2) [OF w(1), of i k] unfolding same by (simp add: q)
  qed (use wiredD [OF w(1)] in \<open>simp_all only: same, simp_all add: q\<close>)
  moreover have "asked L q" using w(2) unfolding asked_def same by (simp add: lastAction_def segmentInterest_def q)
  ultimately have "pipe_ok L q" using False final unfolding pipe_ok_def same by (simp add: q)
  moreover have "pipe_ok L (launched L j p)" if "\<not> (hasFinalBlockId p \<and> nextSegmentNo p > lastSegmentNo p)"
    using that False launched_wired [OF w(1) j, of L] asked_launched [OF w(2,1) j] final
    by (auto simp: pipe_ok_def launched_def Let_def)
  ultimately show ?thesis
    using False aborted_ok [OF w(1)] by (auto simp: runs_def fetchNextSegment_eq [OF w(1) j] q)
qed

lemma asked_fewer:
  assumes "asked L p" and "\<And>h. runs_at q h \<Longrightarrow> runs_at p h \<and> snd (fetchers q ! h) = snd (fetchers p ! h)"
    and "segmentFetchers q = segmentFetchers p" and "pipeLog q = pipeLog p" and "pipePrefix q = pipePrefix p"
    and "pipeOptions q = pipeOptions p"
  shows "asked L q"
  using assms by (simp add: asked_def segAt_def lastAction_def segmentInterest_def)

text \<open>Fields that the structure does not depend on.\<close>

definition same_pipes :: "'c pipeline \<Rightarrow> 'c pipeline \<Rightarrow> bool" where
  "same_pipes p q \<longleftrightarrow> segmentFetchers q = segmentFetchers p \<and> fetchers q = fetchers p \<and> pipeOptions q = pipeOptions p
     \<and> nextSegmentNo q = nextSegmentNo p \<and> pipePrefix q = pipePrefix p \<and> pipeLog q = pipeLog p \<and> isStopping q = isStopping p"

lemma same_pipes_structure:
  assumes "same_pipes p q"
  shows "wired q = wired p" and "flying q = flying p" and "asked L q = asked L p" and "isStopping q = isStopping p"
    and "runs_at q = runs_at p" and "segmentFetchers q = segmentFetchers p"
proof -
  have eqs: "handleAt q = handleAt p" "segAt q = segAt p" "runs_at q = runs_at p" "flying q = flying p" "wired q = wired p"
    using assms structure_cong [of q p] by (simp_all add: same_pipes_def)
  then show "wired q = wired p" "flying q = flying p" "isStopping q = isStopping p" "runs_at q = runs_at p"
    "segmentFetchers q = segmentFetchers p"
    using assms by (simp_all add: same_pipes_def)
  show "asked L q = asked L p"
    using assms unfolding asked_def eqs by (simp add: same_pipes_def lastAction_def segmentInterest_def)
qed

lemma same_pipes_ok: "same_pipes p q \<Longrightarrow> hasFinalBlockId q = hasFinalBlockId p \<Longrightarrow> lastSegmentNo q = lastSegmentNo p \<Longrightarrow>
  pipe_ok L q = pipe_ok L p"
  by (simp add: pipe_ok_def same_pipes_structure)

text \<open>What the pipeline needs of its data callback: it changes its own part of the state only.\<close>

locale segment_client =
  fixes cb :: "'c data_callback"
  assumes local: "\<exists>r c. cb d p = (r, p\<lparr>consumer := c\<rparr>)"
begin

lemma onData_same: "\<exists>r q. pipe_onData cb d p = (r, q) \<and> same_pipes p q \<and> hasFinalBlockId q = hasFinalBlockId p
    \<and> lastSegmentNo q = lastSegmentNo p"
proof -
  obtain r c where "cb d (p\<lparr>nReceived := nReceived p + 1, receivedSize := receivedSize p + length (bvalue (content d))\<rparr>)
      = (r, p\<lparr>nReceived := nReceived p + 1, receivedSize := receivedSize p + length (bvalue (content d)), consumer := c\<rparr>)"
    using local by fastforce
  then show ?thesis by (simp add: pipe_onData_def bindM_def modifyM_def same_pipes_def)
qed

end

lemma learnFinal_ok:
  assumes "pipe_ok L p" and "\<not> isStopping p"
  shows "ends (learnFinal L d) p (\<lambda>r q. pipe_ok L q \<and> (\<forall>e. r = Inl e \<longrightarrow> e = TlvError ''toSegment'') \<and> (isStopping q \<longleftrightarrow> r = Inr True)
    \<and> (\<not> isStopping q \<longrightarrow> length (segmentFetchers q) = length (segmentFetchers p) \<and> (\<forall>j. flying p j = None \<longrightarrow> flying q j = None)))"
proof -
  have w: "wired p" "asked L p" using assms by (simp_all add: pipe_ok_def)
  show ?thesis
  proof (cases "hasFinalBlockId p \<or> finalBlock d = None \<or> (\<exists>c. finalBlock d = Some c \<and> readSegment L c = None)")
    case True
    then show ?thesis
      using assms by (cases "hasFinalBlockId p"; cases "finalBlock d")
        (auto simp: learnFinal_def ends_def bindM_def getsM_def ret_def liftE_def)
  next
    case False
    then obtain c k where c: "finalBlock d = Some c" "readSegment L c = Some k" "\<not> hasFinalBlockId p" by auto
    define q where q: "q = p\<lparr>lastSegmentNo := k, hasFinalBlockId := True\<rparr>"
    have same: "same_pipes p q" by (simp add: q same_pipes_def)
    note eqs = same_pipes_structure [OF same]
    have wq: "wired q" "\<not> isStopping q" using w assms(2) by (simp_all add: eqs)
    have run: "learnFinal L d p = scanFetchers (segmentFetchers q) q"
      using c by (simp add: learnFinal_def bindM_def getsM_def liftE_def modifyM_def q)
    let ?q' = "q\<lparr>fetchers := cancelled_in (handles_above (lastSegmentNo q) (segmentFetchers q)) (fetchers q)\<rparr>"
    note q' = cancel_some [OF wq(1) refl, of "lastSegmentNo q"]
    have "asked L q" using w(2) by (simp add: eqs)
    then have "asked L ?q'" by (rule asked_fewer) (auto simp: runs_at_def)
    then have "pipe_ok L ?q'"
      using q' wq(2) by (auto simp: pipe_ok_def split: option.splits if_splits)
    moreover have "flying p j = None \<Longrightarrow> flying ?q' j = None" for j
      unfolding q' by (simp add: eqs(2))
    moreover have "isStopping (aborted reason q)" for reason by (simp add: aborted_def)
    moreover have "\<forall>h \<in> handles (segmentFetchers q). h < length (fetchers q)" using handles_wired [OF wq(1)] by blast
    from scan_all [OF wq(2) this] have "learnFinal L d p = (Inr False, ?q') \<or> (\<exists>reason. learnFinal L d p = (Inr True, aborted reason q))"
      unfolding run .
    ultimately show ?thesis
      using wq(2) aborted_ok [OF wq(1), of L] eqs(6) unfolding ends_def by fastforce
  qed
qed

text \<open>Errors that the pipeline raises itself are library errors, never a broken precondition.\<close>

definition sane_error :: "'c data_callback \<Rightarrow> exn + 'a \<Rightarrow> bool" where
  "sane_error cb r \<longleftrightarrow> (\<forall>e. r = Inl e \<longrightarrow> e = TlvError ''toSegment'' \<or> (\<exists>d p. fst (cb d p) = Inl e))"

context segment_client
begin

lemma handleData_ok:
  assumes "pipe_ok L p" and "isStopping p \<or> j < length (segmentFetchers p) \<and> flying p j = None" and "dataName d = interestName i"
  shows "ends (pipe_handleData L cb i d j) p (\<lambda>r q. pipe_ok L q \<and> sane_error cb r)"
proof (cases "isStopping p")
  case True
  then show ?thesis using assms by (simp add: pipe_handleData_def ends_def bindM_def getsM_def ret_def sane_error_def)
next
  case False
  have "ends (pipe_onData cb d) q (\<lambda>r q'. pipe_ok L q' \<and> sane_error cb r
      \<and> (\<not> isStopping q' \<longrightarrow> j < length (segmentFetchers q') \<and> flying q' j = None))"
    if "pipe_ok L q" "\<not> isStopping q" "j < length (segmentFetchers q)" "flying q j = None" for q
  proof -
    obtain r q' where q': "pipe_onData cb d q = (r, q')" "same_pipes q q'" "hasFinalBlockId q' = hasFinalBlockId q"
      "lastSegmentNo q' = lastSegmentNo q" using onData_same [of d q] by blast
    then have "fst (pipe_onData cb d q) = r" by simp
    then have "sane_error cb r" unfolding pipe_onData_def bindM_def modifyM_def sane_error_def by auto
    then show ?thesis
      using q' that same_pipes_ok [OF q'(2-4), of L] same_pipes_structure [OF q'(2)] by (simp add: ends_def)
  qed
  note data = this
  have rest: "ends (bindM (pipe_onData cb d) (\<lambda>_. bindM (getsM allSegmentsReceived) (\<lambda>complete.
      if complete then ret () else bindM (fetchNextSegment L j) (\<lambda>_. ret ())))) q (\<lambda>r q'. pipe_ok L q' \<and> sane_error cb r)"
    if q: "pipe_ok L q" "\<not> isStopping q" "j < length (segmentFetchers q)" "flying q j = None" for q
  proof (rule ends_bindI [OF data [OF q]], goal_cases)
    case (2 x q')
    then have "pipe_ok L q'" "runs (fetchNextSegment L j) q' (\<lambda>_ q. pipe_ok L q)"
      using fetchNextSegment_ok [of L q' j] by auto
    then show ?case
      by (auto simp: ends_def bindM_def getsM_def ret_def sane_error_def runs_def)
  qed (simp add: sane_error_def)
  have "\<not> isStopping p" "j < length (segmentFetchers p)" "flying p j = None" using False assms(2) by simp_all
  have "ends (bindM (learnFinal L d) (\<lambda>failed. if failed then ret () else bindM (pipe_onData cb d) (\<lambda>_.
      bindM (getsM allSegmentsReceived) (\<lambda>complete. if complete then ret () else bindM (fetchNextSegment L j) (\<lambda>_. ret ()))))) p
    (\<lambda>r q'. pipe_ok L q' \<and> sane_error cb r)"
  proof (rule ends_bindI [OF learnFinal_ok [OF assms(1) False]], goal_cases)
    case (2 failed q)
    then show ?case
      using rest [of q] \<open>j < length (segmentFetchers p)\<close> \<open>flying p j = None\<close>
      by (cases failed) (simp_all add: ends_ret sane_error_def)
  qed (simp add: sane_error_def)
  then show ?thesis
    using False assms(3) by (simp add: pipe_handleData_def ends_def bindM_def getsM_def)
qed

end

lemma handleFail_ok:
  assumes "pipe_ok L p" and "isStopping p \<or> j < length (segmentFetchers p) \<and> handleAt p j \<noteq> None"
  shows "runs (pipe_handleFail reason j) p (\<lambda>_ q. pipe_ok L q)"
proof (cases "isStopping p \<or> hasFinalBlockId p")
  case True
  have "pipe_ok L (pipe_onFailure reason p)" if "\<not> isStopping p"
  proof -
    have "wired p" using that assms(1) by (simp add: pipe_ok_def)
    then show ?thesis using that by (simp add: pipe_onFailure_eq aborted_ok)
  qed
  with True assms show ?thesis
    by (cases "isStopping p") (simp_all add: pipe_handleFail_def runs_def bindM_def getsM_def ret_def modifyM_def Let_def)
next
  case False
  then have w: "wired p" "asked L p" and j: "j < length (segmentFetchers p)" using assms by (simp_all add: pipe_ok_def)
  let ?k = "snd (segmentFetchers p ! j)"
  let ?q = "p\<lparr>fetchers := cancelled_in (handles_above ?k (segmentFetchers p)) (fetchers p)\<rparr>"
  obtain b where loop: "foldl (failStep ?k) (True, p) (segmentFetchers p) = (b, ?q)"
    using fail_loop [of "segmentFetchers p" p "{}" ?k True] handles_wired [OF w(1)] once_wired [OF w(1)] by simp
  have wq: "wired ?q" "asked L ?q"
    by (rule cancel_some [OF w(1) refl]) (rule asked_fewer [OF w(2)], auto simp: runs_at_def)
  have "same_pipes ?q (?q\<lparr>hasFailure := True\<rparr>)" by (simp add: same_pipes_def)
  from same_pipes_structure [OF this] wq have "wired (?q\<lparr>hasFailure := True\<rparr>)" "asked L (?q\<lparr>hasFailure := True\<rparr>)" by simp_all
  then have "pipe_ok L (?q\<lparr>hasFailure := True\<rparr>)" using False by (simp add: pipe_ok_def)
  moreover have "pipe_ok L (pipe_onFailure noFinalSegment ?q)"
    using False wq by (simp add: pipe_onFailure_eq aborted_ok)
  ultimately show ?thesis
    using False j loop by (cases b) (simp_all add: pipe_handleFail_def runs_def bindM_def getsM_def modifyM_def Let_def)
qed

text \<open>A reaction retries, or it stops the fetcher and calls one callback.\<close>

lemma react_cases:
  assumes "isRunning f" and "react L i ev f = (f', acts)"
  obtains (retry) a where "isRunning f'" and "acts = [a]" and "a = FExpress i \<or> (\<exists>t. a = FSchedule t i)"
  | (data) d where "\<not> isRunning f'" and "ev = EvData d" and "acts = [FOnData i d]"
  | (fail) reason where "\<not> isRunning f'" and "acts = [FOnNack i reason] \<or> acts = [FOnTimeout i reason]"
  using assms
  by (cases ev)
     (auto simp: react_def fetcher_handleData_def fetcher_handleNack_def fetcher_handleTimeout_def fetcher_backoff_def
        fetcher_expressInterest_def isRunning_def Let_def split: nack_reason.splits if_splits)

text \<open>The state after a reaction is stored in the fetcher.\<close>

lemma store_reaction:
  assumes ok: "pipe_ok L p" "\<not> isStopping p" and h: "runs_at p h" and f': "isRunning f' \<Longrightarrow> isRunning (fst (fetchers p ! h))"
    and q: "q = p\<lparr>fetchers := (fetchers p)[h := (f', snd (fetchers p ! h))]\<rparr>"
  shows "pipe_ok L q" and "\<not> isRunning f' \<Longrightarrow> flying q (snd (fetchers p ! h)) = None"
    and "snd (fetchers p ! h) < length (segmentFetchers q)" and "handleAt q (snd (fetchers p ! h)) = Some h"
proof -
  have w: "wired p" "asked L p" using ok by (simp_all add: pipe_ok_def)
  have len: "h < length (fetchers p)" using h by (simp add: runs_at_def)
  note upd = update_fetcher [OF w(1) len f' q]
  have at: "handleAt p (snd (fetchers p ! h)) = Some h" by (rule wiredD(4) [OF w(1) h])
  have "asked L q"
    by (rule asked_fewer [OF w(2)]) (use f' len in \<open>auto simp: q runs_at_def nth_list_update split: if_splits\<close>)
  moreover have "flying q j = Some k \<Longrightarrow> flying p j = Some k" for j k
    using upd(2) h by (auto simp: flying_Some split: if_splits)
  ultimately show "pipe_ok L q" using upd(1) ok by (auto simp: pipe_ok_def q)
  show "\<not> isRunning f' \<Longrightarrow> flying q (snd (fetchers p ! h)) = None" using upd(2) at by simp
  show "snd (fetchers p ! h) < length (segmentFetchers q)" using handleAt_bound [OF at] by (simp add: q)
  show "handleAt q (snd (fetchers p ! h)) = Some h" using at by (simp add: q handleAt_def split: if_splits)
qed

lemma log_action_ok:
  assumes "pipe_ok L q" and "\<not> isStopping q" and "handleAt q (snd (fetchers q ! h)) = Some h"
    and "a = FExpress i \<or> (\<exists>t. a = FSchedule t i)" and "i = segmentInterest L q (segAt q (snd (fetchers q ! h)))"
  shows "pipe_ok L (q\<lparr>pipeLog := pipeLog q @ [(h, a)]\<rparr>)"
proof -
  define r where r: "r = q\<lparr>pipeLog := pipeLog q @ [(h, a)]\<rparr>"
  have eqs: "handleAt r = handleAt q" "segAt r = segAt q" "runs_at r = runs_at q" "flying r = flying q" "wired r = wired q"
    by (intro structure_cong; simp add: r)+
  have log: "lastAction r k = (if k = h then a else lastAction q k)" for k by (rule lastAction_append) (simp add: r)
  have "asked L r"
    unfolding asked_def eqs log using assms by (auto simp: asked_def pipe_ok_def segmentInterest_def r Let_def)
  then show ?thesis using assms(1,2) unfolding r [symmetric] pipe_ok_def eqs by (simp add: r)
qed

context segment_client
begin

lemma event_ok:
  assumes ok: "pipe_ok L p" and h: "runs_at p h" and i: "i = segmentInterest L p (segAt p (snd (fetchers p ! h)))"
    and "\<And>d. ev = EvData d \<Longrightarrow> dataName d = interestName i"
  shows "ends (pipe_event L cb h i ev) p (\<lambda>r q. pipe_ok L q \<and> sane_error cb r)"
proof -
  have go: "\<not> isStopping p" using ok h by (auto simp: pipe_ok_def)
  let ?j = "snd (fetchers p ! h)"
  obtain f' acts where react: "react L i ev (fst (fetchers p ! h)) = (f', acts)" by fastforce
  define q where q: "q = p\<lparr>fetchers := (fetchers p)[h := (f', ?j)]\<rparr>"
  have run: "pipe_event L cb h i ev p = forM (perform L cb h ?j) acts q"
    using react by (simp add: pipe_event_def bindM_def getsM_def modifyM_def case_prod_beta q)
  have running: "isRunning (fst (fetchers p ! h))" and len: "h < length (fetchers p)" using h by (simp_all add: runs_at_def)
  note stored = store_reaction [OF ok go h _ q]
  have go': "\<not> isStopping q" using go by (simp add: q)
  from running react show ?thesis
  proof (cases rule: react_cases)
    case (retry a)
    have "snd (fetchers q ! h) = ?j" "segAt q ?j = segAt p ?j" "segmentInterest L q = segmentInterest L p"
      using len by (simp_all add: q segAt_def segmentInterest_def fun_eq_iff)
    then have "pipe_ok L (q\<lparr>pipeLog := pipeLog q @ [(h, a)]\<rparr>)"
      using log_action_ok [of L q h a i] stored(1,4) running go' retry(3) i by simp
    then show ?thesis
      unfolding ends_def run using retry by (auto simp: perform_def bindM_def modifyM_def ret_def sane_error_def)
  next
    case (data d)
    then have "ends (pipe_handleData L cb i d ?j) q (\<lambda>r q. pipe_ok L q \<and> sane_error cb r)"
      using assms(4) stored(1-3) by (intro handleData_ok) auto
    then show ?thesis
      unfolding ends_def run using data
      by (auto simp: perform_def bindM_def ret_def split: prod.split sum.split)
  next
    case (fail reason)
    then have "runs (pipe_handleFail reason ?j) q (\<lambda>_ q. pipe_ok L q)"
      using stored(1,3,4) by (intro handleFail_ok) auto
    then show ?thesis
      unfolding ends_def run using fail by (auto simp: perform_def bindM_def ret_def runs_def sane_error_def)
  qed
qed

end

section \<open>Reachable pipelines\<close>

lemma newPipeline_ok: "pipe_ok L (newPipeline opts c)" and newPipeline_flying: "flying (newPipeline opts c) j = None"
proof -
  have at: "handleAt (newPipeline opts c) j = None" "\<not> runs_at (newPipeline opts c) h" for j h
    by (simp_all add: newPipeline_def handleAt_def runs_at_def)
  have "wired (newPipeline opts c)"
    by (rule wiredI) (use at in \<open>auto simp: newPipeline_def\<close>)
  moreover have "\<not> isStopping (newPipeline opts c)" "\<not> hasFinalBlockId (newPipeline opts c)" by (simp_all add: newPipeline_def)
  ultimately show "pipe_ok L (newPipeline opts c)" by (simp add: pipe_ok_def asked_def at)
  show "flying (newPipeline opts c) j = None" by (simp add: flying_def at)
qed

lemma doRun_ok:
  assumes "pipe_ok L p" and "\<not> isStopping p \<longrightarrow> length (segmentFetchers p) = n \<and> (\<forall>j \<ge> k. flying p j = None)"
  shows "runs (doRun L [k..<n]) p (\<lambda>_ q. pipe_ok L q)"
  using assms
proof (induction "n - k" arbitrary: k p)
  case 0
  then show ?case by (simp add: runs_rules)
next
  case (Suc x)
  then have k: "k < n" "[k..<n] = k # [Suc k..<n]" by (simp_all add: upt_conv_Cons)
  obtain b q where q: "fetchNextSegment L k p = (Inr b, q)" "pipe_ok L q"
    using fetchNextSegment_ok [of L p k] Suc.prems k(1) by (auto simp: runs_def)
  have next_pipes: "\<not> isStopping q \<longrightarrow> length (segmentFetchers q) = n \<and> (\<forall>j \<ge> Suc k. flying q j = None)" if b
  proof (cases "isStopping p")
    case True
    then show ?thesis using q(1) that by (simp add: fetchNextSegment_def bindM_def getsM_def ret_def)
  next
    case False
    have w: "wired p" using Suc.prems(1) False by (simp add: pipe_ok_def)
    have j: "k < length (segmentFetchers p)" "flying p k = None" using Suc.prems(2) False k(1) by simp_all
    have "q = launched L k p" using q(1) that by (auto simp: fetchNextSegment_eq [OF w j] split: if_splits)
    then show ?thesis
      using Suc.prems(2) False launched_wired(2) [OF w j] by (simp add: launched_def Let_def)
  qed
  show ?case
  proof (cases b)
    case True
    then have "runs (doRun L [Suc k..<n]) q (\<lambda>_ q. pipe_ok L q)"
      using Suc.hyps(2) next_pipes q(2) by (intro Suc.hyps(1)) simp_all
    then show ?thesis using True q(1) by (simp add: k(2) runs_def bindM_def)
  qed (use q in \<open>simp add: k(2) runs_def bindM_def ret_def\<close>)
qed

lemma pipe_run_ok: "ends (pipe_run L nm) (newPipeline opts c) (\<lambda>_ q. pipe_ok L q)"
proof (cases "nm = [] \<or> \<not> isVersion L (last nm)")
  case True
  then show ?thesis by (auto simp: pipe_run_def ends_def raise_def newPipeline_ok)
next
  case False
  define p where p: "p = (newPipeline opts c)\<lparr>pipePrefix := nm\<rparr>"
  have eqs: "handleAt p = handleAt (newPipeline opts c)" "segAt p = segAt (newPipeline opts c)" "runs_at p = runs_at (newPipeline opts c)"
    "flying p = flying (newPipeline opts c)" "wired p = wired (newPipeline opts c)"
    by (intro structure_cong; simp add: p)+
  have none: "\<not> runs_at p h" for h by (simp add: p newPipeline_def runs_at_def)
  have "pipe_ok L p"
    using newPipeline_ok [of L opts c] newPipeline_flying [of opts c] none unfolding pipe_ok_def asked_def eqs(4,5) by (simp add: p newPipeline_def)
  moreover have "length (segmentFetchers p) = maxPipelineSize opts" "pipeOptions p = opts" by (simp_all add: p newPipeline_def)
  ultimately have "runs (doRun L [0..<maxPipelineSize opts]) p (\<lambda>_ q. pipe_ok L q)"
    by (intro doRun_ok) (simp_all add: eqs newPipeline_flying)
  then show ?thesis
    using False by (auto simp: pipe_run_def ends_def runs_def bindM_def modifyM_def getsM_def p newPipeline_def)
qed

text \<open>An event that the face or the scheduler can deliver: the fetcher runs, and it asked for it.\<close>

definition deliverable :: "'c pipeline \<Rightarrow> nat \<Rightarrow> interest \<Rightarrow> net_event \<Rightarrow> bool" where
  "deliverable p h i ev \<longleftrightarrow> runs_at p h \<and> (case ev of EvTimer \<Rightarrow> (\<exists>t. lastAction p h = FSchedule t i)
     | EvData d \<Rightarrow> lastAction p h = FExpress i \<and> dataName d = interestName i | _ \<Rightarrow> lastAction p h = FExpress i)"

inductive pipe_reach :: "ndn \<Rightarrow> 'c data_callback \<Rightarrow> 'c pipeline \<Rightarrow> bool" for L cb where
  Run: "pipe_run L nm (newPipeline opts c) = (r, p) \<Longrightarrow> pipe_reach L cb p"
| Event: "pipe_reach L cb p \<Longrightarrow> deliverable p h i ev \<Longrightarrow> pipe_event L cb h i ev p = (r, q) \<Longrightarrow> pipe_reach L cb q"
| Cancel: "pipe_reach L cb p \<Longrightarrow> pipe_reach L cb (pipe_cancel p)"

lemma deliverable_interest: "deliverable p h i ev \<Longrightarrow> asked L p \<Longrightarrow> i = segmentInterest L p (segAt p (snd (fetchers p ! h)))"
  by (cases ev) (force simp: deliverable_def asked_def Let_def)+

lemma cancel_ok: "pipe_ok L p \<Longrightarrow> pipe_ok L (pipe_cancel p)"
proof (cases "isStopping p")
  case False
  assume "pipe_ok L p"
  then have "wired p" using False by (simp add: pipe_ok_def)
  then show ?thesis
    using False running_handles [of p] by (auto simp: pipe_ok_def pipe_cancel_def doCancel_def cancelEntries runs_at_def)
qed (simp add: pipe_cancel_def)

context segment_client
begin

lemma deliverable_ok:
  assumes "pipe_ok L p" and "deliverable p h i ev"
  shows "ends (pipe_event L cb h i ev) p (\<lambda>r q. pipe_ok L q \<and> sane_error cb r)"
proof (rule event_ok [OF assms(1)])
  show h: "runs_at p h" using assms(2) by (simp add: deliverable_def)
  then have "\<not> isStopping p" using assms(1) by (auto simp: pipe_ok_def)
  then have "asked L p" using assms(1) by (simp add: pipe_ok_def)
  then show "i = segmentInterest L p (segAt p (snd (fetchers p ! h)))" using deliverable_interest assms(2) by blast
  show "ev = EvData d \<Longrightarrow> dataName d = interestName i" for d using assms(2) by (simp add: deliverable_def)
qed

lemma reach_ok: "pipe_reach L cb p \<Longrightarrow> pipe_ok L p"
proof (induction rule: pipe_reach.induct)
  case (Run nm opts c r p)
  then show ?case using pipe_run_ok [of L nm opts c] by (simp add: ends_def)
next
  case (Event p h i ev r q)
  then show ?case using deliverable_ok [of L p h i ev] by (simp add: ends_def)
qed (rule cancel_ok)

lemma reach_window:
  assumes "pipe_reach L cb p"
  shows "card {h. runs_at p h} \<le> maxPipelineSize (pipeOptions p)" and "inj_on (\<lambda>h. segAt p (snd (fetchers p ! h))) {h. runs_at p h}"
    and "hasFinalBlockId p \<Longrightarrow> runs_at p h \<Longrightarrow> segAt p (snd (fetchers p ! h)) \<le> lastSegmentNo p"
    and "isStopping p \<Longrightarrow> \<not> runs_at p h"
proof -
  have ok: "pipe_ok L p" by (rule reach_ok [OF assms])
  show "isStopping p \<Longrightarrow> \<not> runs_at p h" for h using ok by (simp add: pipe_ok_def)
  then have go: "runs_at p h \<Longrightarrow> \<not> isStopping p" for h by blast
  have w: "runs_at p h \<Longrightarrow> wired p" for h using go ok by (auto simp: pipe_ok_def)
  have inj: "inj_on (\<lambda>h. snd (fetchers p ! h)) {h. runs_at p h}"
  proof (rule inj_onI, clarsimp)
    fix h k assume "runs_at p h" "runs_at p k" "snd (fetchers p ! h) = snd (fetchers p ! k)"
    then show "h = k" using wiredD(4) [OF w] by (metis option.inject)
  qed
  have "snd (fetchers p ! h) < maxPipelineSize (pipeOptions p)" if "runs_at p h" for h
    using handleAt_bound [OF wiredD(4) [OF w [OF that] that]] wiredD(1) [OF w [OF that]] by simp
  then have "(\<lambda>h. snd (fetchers p ! h)) ` {h. runs_at p h} \<subseteq> {..<maxPipelineSize (pipeOptions p)}" by auto
  from card_mono [OF _ this] show "card {h. runs_at p h} \<le> maxPipelineSize (pipeOptions p)"
    by (simp add: card_image [OF inj])
  show "inj_on (\<lambda>h. segAt p (snd (fetchers p ! h))) {h. runs_at p h}"
  proof (rule inj_onI, clarsimp)
    fix h k assume hk: "runs_at p h" "runs_at p k" "segAt p (snd (fetchers p ! h)) = segAt p (snd (fetchers p ! k))"
    note wp = w [OF hk(1)]
    have "snd (fetchers p ! h) = snd (fetchers p ! k)"
      by (rule wiredD(3) [OF wp _ _ hk(3)]) (simp_all add: wiredD(4) [OF wp hk(1)] wiredD(4) [OF wp hk(2)])
    then show "h = k" using inj hk by (simp add: inj_on_def)
  qed
  show "segAt p (snd (fetchers p ! h)) \<le> lastSegmentNo p" if "hasFinalBlockId p" "runs_at p h" for h
    using that ok go [OF that(2)] wiredD(4) [OF w [OF that(2)] that(2)] by (auto simp: pipe_ok_def flying_Some)
qed

end

text \<open>C12: whatever the network answers, a pipeline never has more fetchers at work than its window, no two of
  them for the same segment, none beyond the last segment once that is known, and none at all after it has
  stopped; and no event makes an assertion of the code fail or an index leave its vector.\<close>

theorem pipeline_window:
  assumes "segment_client cb" and "pipe_reach L cb p"
  shows "card {h. runs_at p h} \<le> maxPipelineSize (pipeOptions p)
    \<and> inj_on (\<lambda>h. segAt p (snd (fetchers p ! h))) {h. runs_at p h}
    \<and> (\<forall>h. runs_at p h \<longrightarrow> \<not> isStopping p \<and> (hasFinalBlockId p \<longrightarrow> segAt p (snd (fetchers p ! h)) \<le> lastSegmentNo p))
    \<and> (\<forall>h i ev. deliverable p h i ev \<longrightarrow> sane_error cb (fst (pipe_event L cb h i ev p)))"
  using segment_client.reach_window [OF assms] segment_client.deliverable_ok [OF assms(1) segment_client.reach_ok [OF assms]]
  by (auto simp: ends_def)

end
