(* ===== verification/Segment_Consumer.thy ===== *)
theory Segment_Consumer
  imports Pipeline_Inv Segment_Producer
begin

text \<open>
  The segment consumer (\<open>src/util/segment/consumer\<close>): validates the segments that its pipeline delivers, puts
  their contents in order into a buffer, and hands the block to its owner's callback once the pipeline has
  received all segments. The owner's state is the field \<open>owner\<close>. The validator is a parameter: \<open>None\<close>
  stands for an answer that comes later (then the event is \<open>onSegmentValid\<close> or \<open>onSegmentInvalid\<close>).
\<close>

record 'u seg_consumer =
  outputBuffer :: bytes
  nextToPrint :: nat
  bufferedData :: "(nat \<times> data) list"
  owner :: 'u

type_synonym validator = "data \<Rightarrow> validation option"
type_synonym 'u finish_callback = "block \<Rightarrow> ('u, unit) cm"

definition newConsumer :: "'u \<Rightarrow> 'u seg_consumer" where
  "newConsumer u = \<lparr>outputBuffer = [], nextToPrint = 0, bufferedData = [], owner = u\<rparr>"

text \<open>The loop over the buffered segments, a map in ascending order.\<close>

fun writeLoop :: "(nat \<times> data) list \<Rightarrow> nat \<Rightarrow> bytes \<Rightarrow> (nat \<times> data) list \<times> nat \<times> bytes" where
  "writeLoop [] n out = ([], n, out)"
| "writeLoop ((k, d) # m) n out =
     (if k = n then writeLoop m (n + 1) (out @ bvalue (content d)) else ((k, d) # m, n, out))"

definition callOwner :: "'u finish_callback \<Rightarrow> block \<Rightarrow> ('u seg_consumer, unit) cm" where
  "callOwner finishCb b = (\<lambda>c. case finishCb b (owner c) of (r, u) \<Rightarrow> (r, c\<lparr>owner := u\<rparr>))"

definition writeInOrderData :: "ndn \<Rightarrow> 'u finish_callback \<Rightarrow> bool \<Rightarrow> ('u seg_consumer, unit) cm" where
  "writeInOrderData L finishCb allReceived =
     bindM (modifyM (\<lambda>c. case writeLoop (bufferedData c) (nextToPrint c) (outputBuffer c) of
       (m, n, out) \<Rightarrow> c\<lparr>bufferedData := m, nextToPrint := n, outputBuffer := out\<rparr>)) (\<lambda>_.
     if allReceived then
       bindM (getsM outputBuffer) (\<lambda>out.
       bindM (liftE (of_option (TlvError ''Block'') (readBlock L out))) (\<lambda>b. callOwner finishCb b))
     else ret ())"

definition getSegmentFromPacket :: "ndn \<Rightarrow> data \<Rightarrow> exn + nat" where
  "getSegmentFromPacket L d = (if dataName d = [] then Inl (StdException ''Name::at'')
     else of_option (TlvError ''toSegment'') (readSegment L (last (dataName d))))"

definition onSegmentValid :: "ndn \<Rightarrow> 'u finish_callback \<Rightarrow> bool \<Rightarrow> data \<Rightarrow> ('u seg_consumer, unit) cm" where
  "onSegmentValid L finishCb allReceived d =
     (if contentType d = tlv_ContentType_Nack then
        raise (RuntimeError (''Internal error of SegmentConsumer: '' @ toUri L (dataName d)))
      else
        bindM (liftE (getSegmentFromPacket L d)) (\<lambda>k.
        bindM (modifyM (\<lambda>c. c\<lparr>bufferedData := map_at k d (\<lambda>_. d) (bufferedData c)\<rparr>)) (\<lambda>_.
        writeInOrderData L finishCb allReceived)))"

definition onSegmentInvalid :: "string \<Rightarrow> ('u seg_consumer, unit) cm" where
  "onSegmentInvalid info = raise (RuntimeError (''Internal error of SegmentConsumer: '' @ info))"

definition consumer_handleData :: "ndn \<Rightarrow> validator \<Rightarrow> 'u finish_callback \<Rightarrow> bool \<Rightarrow> data \<Rightarrow> ('u seg_consumer, unit) cm" where
  "consumer_handleData L V finishCb allReceived d = (case V d of
     None \<Rightarrow> ret ()
   | Some Valid \<Rightarrow> onSegmentValid L finishCb allReceived d
   | Some (Invalid info) \<Rightarrow> onSegmentInvalid info)"

text \<open>The callbacks that \<open>run\<close> gives to the pipeline: data goes to \<open>handleData\<close>, which asks the pipeline
  whether it has all segments; a posted failure is thrown in the event loop.\<close>

definition onConsumer :: "('u seg_consumer, 'a) cm \<Rightarrow> ('u seg_consumer, 'a) pm" where
  "onConsumer m = (\<lambda>p. case m (consumer p) of (r, c) \<Rightarrow> (r, p\<lparr>consumer := c\<rparr>))"

definition consumer_callback :: "ndn \<Rightarrow> validator \<Rightarrow> 'u finish_callback \<Rightarrow> 'u seg_consumer data_callback" where
  "consumer_callback L V finishCb d = bindM (getsM allSegmentsReceived) (\<lambda>allReceived.
     onConsumer (consumer_handleData L V finishCb allReceived d))"

definition onPostedFailure :: "string \<Rightarrow> ('u seg_consumer, unit) pm" where
  "onPostedFailure msg = raise (RuntimeError msg)"

definition consumer_run :: "ndn \<Rightarrow> name \<Rightarrow> ('u seg_consumer, unit) pm" where
  "consumer_run L versionedName =
     bindM (onConsumer (modifyM (\<lambda>c. c\<lparr>nextToPrint := 0, bufferedData := []\<rparr>))) (\<lambda>_. pipe_run L versionedName)"

interpretation seg_client: segment_client "consumer_callback L V finishCb"
  by unfold_locales (auto simp: consumer_callback_def onConsumer_def bindM_def getsM_def split: prod.split)

section \<open>Segments in any order\<close>

text \<open>A reply: the segments \<open>0..n-1\<close> as the producer makes them.\<close>

definition reply_segments :: "ndn \<Rightarrow> name \<Rightarrow> data list \<Rightarrow> bool" where
  "reply_segments L versioned sto \<longleftrightarrow> sto \<noteq> [] \<and> length sto < 2 ^ 64 \<and> (\<forall>k < length sto.
     dataName (sto ! k) = versioned @ [segmentComp L k] \<and> finalBlock (sto ! k) = Some (segmentComp L (length sto - 1))
     \<and> contentType (sto ! k) \<noteq> tlv_ContentType_Nack)"

text \<open>What the consumer holds when the segments \<open>R\<close> have arrived: those before the first missing one are
  written, the others wait.\<close>

definition holds :: "data list \<Rightarrow> nat set \<Rightarrow> 'u seg_consumer \<Rightarrow> bool" where
  "holds sto R c \<longleftrightarrow> {..<nextToPrint c} \<subseteq> R \<and> nextToPrint c \<notin> R
     \<and> bufferedData c = map (\<lambda>k. (k, sto ! k)) (sorted_list_of_set {k \<in> R. nextToPrint c < k})
     \<and> outputBuffer c = concat (map (\<lambda>k. bvalue (content (sto ! k))) [0..<nextToPrint c])"

lemma writeLoop_sorted:
  assumes "sorted_wrt (<) ks" and "\<forall>k \<in> set ks. q \<le> k"
  shows "\<exists>q'. writeLoop (map (\<lambda>k. (k, f k)) ks) q out =
      (map (\<lambda>k. (k, f k)) (filter (\<lambda>k. q' < k) ks), q', out @ concat (map (\<lambda>k. bvalue (content (f k))) [q..<q']))
    \<and> q \<le> q' \<and> {q..<q'} \<subseteq> set ks \<and> q' \<notin> set ks"
  using assms
proof (induction ks arbitrary: q out)
  case Nil
  then show ?case by simp
next
  case (Cons k ks)
  show ?case
  proof (cases "k = q")
    case True
    then have "sorted_wrt (<) ks" "\<forall>k \<in> set ks. Suc q \<le> k" using Cons.prems by auto
    from Cons.IH [OF this, of "out @ bvalue (content (f q))"] obtain q' where
      "writeLoop (map (\<lambda>k. (k, f k)) ks) (Suc q) (out @ bvalue (content (f q))) =
      (map (\<lambda>k. (k, f k)) (filter (\<lambda>k. q' < k) ks), q', (out @ bvalue (content (f q))) @ concat (map (\<lambda>k. bvalue (content (f k))) [Suc q..<q']))"
      "Suc q \<le> q'" "{Suc q..<q'} \<subseteq> set ks" "q' \<notin> set ks"
      by blast
    moreover have "[q..<q'] = q # [Suc q..<q']" using calculation(2) by (simp add: upt_conv_Cons)
    moreover have "{q..<q'} = insert q {Suc q..<q'}" using calculation(2) by auto
    moreover have "filter (\<lambda>k. q' < k) (k # ks) = filter (\<lambda>k. q' < k) ks" using True calculation(2) by simp
    ultimately show ?thesis using True by (intro exI [of _ q'] conjI) (simp, simp, auto)
  next
    case False
    then have "\<forall>x \<in> set (k # ks). q < x" using Cons.prems by fastforce
    then have "filter (\<lambda>k. q < k) (k # ks) = k # ks" "q \<notin> set (k # ks)" by (auto intro: filter_True)
    then show ?thesis using False by (intro exI [of _ q]) simp
  qed
qed

lemma map_at_new:
  "sorted_wrt (<) ks \<Longrightarrow> k \<notin> set ks \<Longrightarrow> map_at k (f k) (\<lambda>_. f k) (map (\<lambda>k. (k, f k)) ks) = map (\<lambda>k. (k, f k)) (insort k ks)"
  by (induction ks) auto

lemma holds_new: "holds sto {} (newConsumer u)"
  by (simp add: holds_def newConsumer_def)

lemma holds_insert:
  assumes h: "holds sto R c" and k: "k \<notin> R" and fin: "finite R"
    and c': "c' = (case writeLoop (map_at k (sto ! k) (\<lambda>_. sto ! k) (bufferedData c)) (nextToPrint c) (outputBuffer c) of
      (m, n, out) \<Rightarrow> c\<lparr>bufferedData := m, nextToPrint := n, outputBuffer := out\<rparr>)"
  shows "holds sto (insert k R) c'" and "owner c' = owner c"
proof -
  let ?q = "nextToPrint c" and ?ks = "sorted_list_of_set {k \<in> R. nextToPrint c < k}"
  have q: "{..<?q} \<subseteq> R" "?q \<notin> R" using h by (simp_all add: holds_def)
  have "?q \<le> k" using q(1) k by (meson lessThan_iff linorder_not_less subset_iff)
  have ks: "insort k ?ks = sorted_list_of_set (insert k {k \<in> R. ?q < k})" using fin k by simp
  have set_ks: "set (insort k ?ks) = insert k {k \<in> R. ?q < k}" using fin by (simp add: set_insort_key)
  have "bufferedData c = map (\<lambda>k. (k, sto ! k)) ?ks" using h by (simp add: holds_def)
  then have m: "map_at k (sto ! k) (\<lambda>_. sto ! k) (bufferedData c) = map (\<lambda>k. (k, sto ! k)) (insort k ?ks)"
    using map_at_new [of ?ks k "(!) sto"] k fin by (simp add: strict_sorted_list_of_set)
  have "sorted_wrt (<) (insort k ?ks)" unfolding ks by (rule strict_sorted_list_of_set)
  moreover have "\<forall>x \<in> set (insort k ?ks). ?q \<le> x" using \<open>?q \<le> k\<close> unfolding set_ks by auto
  ultimately obtain q' where w: "writeLoop (map (\<lambda>k. (k, sto ! k)) (insort k ?ks)) ?q (outputBuffer c) =
      (map (\<lambda>k. (k, sto ! k)) (filter (\<lambda>k. q' < k) (insort k ?ks)), q',
       outputBuffer c @ concat (map (\<lambda>k. bvalue (content (sto ! k))) [?q..<q']))"
    and q': "?q \<le> q'" "{?q..<q'} \<subseteq> insert k {k \<in> R. ?q < k}" "q' \<notin> insert k {k \<in> R. ?q < k}"
    using writeLoop_sorted [of "insort k ?ks" ?q "(!) sto" "outputBuffer c"] set_ks by auto
  have fields: "nextToPrint c' = q'" "bufferedData c' = map (\<lambda>k. (k, sto ! k)) (filter (\<lambda>k. q' < k) (insort k ?ks))"
    "outputBuffer c' = outputBuffer c @ concat (map (\<lambda>k. bvalue (content (sto ! k))) [?q..<q'])" "owner c' = owner c"
    unfolding c' m w by simp_all
  have "{..<q'} = {..<?q} \<union> {?q..<q'}" using q'(1) by auto
  then have "{..<q'} \<subseteq> insert k R" using q(1) q'(2) by auto
  moreover have "q' \<notin> insert k R"
    using q'(1,3) q(2) by (cases "q' = ?q") auto
  moreover have "filter (\<lambda>k. q' < k) (insort k ?ks) = sorted_list_of_set {j \<in> insert k R. q' < j}"
  proof -
    have "filter (\<lambda>k. q' < k) (insort k ?ks) = sorted_list_of_set (set (filter (\<lambda>k. q' < k) (insort k ?ks)))"
      using sorted_wrt_filter [of "(<)" "insort k ?ks"] unfolding ks
      by (metis sorted_list_of_set.idem_if_sorted_distinct strict_sorted_iff strict_sorted_list_of_set)
    also have "set (filter (\<lambda>k. q' < k) (insort k ?ks)) = {j \<in> insert k R. q' < j}"
    proof -
      have "{x \<in> insert k {k \<in> R. ?q < k}. q' < x} = {j \<in> insert k R. q' < j}" using q'(1) by auto
      then show ?thesis by (simp only: set_filter set_ks)
    qed
    finally show ?thesis .
  qed
  moreover have "outputBuffer c' = concat (map (\<lambda>k. bvalue (content (sto ! k))) [0..<q'])"
  proof -
    have "[0..<q'] = [0..<?q] @ [?q..<q']" using upt_add_eq_append [of 0 ?q "q' - ?q"] q'(1) by simp
    with h fields(3) show ?thesis by (simp add: holds_def)
  qed
  ultimately show "holds sto (insert k R) c'" by (simp add: holds_def fields)
  show "owner c' = owner c" by (rule fields(4))
qed

lemma holds_all: "holds sto {..<n} c \<Longrightarrow> n = length sto \<Longrightarrow> outputBuffer c = concat (map (bvalue \<circ> content) sto)"
proof -
  assume h: "holds sto {..<n} c" and n: "n = length sto"
  have q: "nextToPrint c = n" using h unfolding holds_def lessThan_subset_iff by simp
  have "outputBuffer c = concat (map (\<lambda>k. bvalue (content (sto ! k))) [0..<nextToPrint c])" using h unfolding holds_def by blast
  moreover have "map (\<lambda>k. bvalue (content (sto ! k))) [0..<n] = map (bvalue \<circ> content) sto"
    unfolding n by (rule nth_equalityI) simp_all
  ultimately show ?thesis by (simp only: q)
qed

text \<open>A valid segment: it is put in its place; with the last one the owner gets the block.\<close>

lemma segment_received:
  assumes "ndn_codec L" and "reply_segments L versioned sto" and "V (sto ! k) = Some Valid"
    and "holds sto R c" and "k < length sto" and "k \<notin> R" and "finite R"
  shows "\<exists>c'. holds sto (insert k R) c' \<and> owner c' = owner c
    \<and> consumer_handleData L V finishCb allReceived (sto ! k) c = (if allReceived
        then bindM (liftE (of_option (TlvError ''Block'') (readBlock L (outputBuffer c')))) (\<lambda>b. callOwner finishCb b) c'
        else (Inr (), c'))"
proof -
  have "k < 2 ^ 64" using assms(2,5) by (simp add: reply_segments_def)
  then have "getSegmentFromPacket L (sto ! k) = Inr k"
    using assms(1,2,5) by (simp add: getSegmentFromPacket_def reply_segments_def ndn_codec.readSegment_segmentComp)
  moreover have "contentType (sto ! k) \<noteq> tlv_ContentType_Nack" using assms(2,5) by (simp add: reply_segments_def)
  ultimately show ?thesis
    using assms(3) holds_insert [OF assms(4,6,7) refl]
    by (intro exI) (auto simp: consumer_handleData_def onSegmentValid_def writeInOrderData_def bindM_def modifyM_def getsM_def liftE_def ret_def)
qed

end
