(* ===== verification/Segment_Fetch.thy ===== *)
theory Segment_Fetch
  imports Segment_Consumer
begin

text \<open>
  Producer, network, pipeline and consumer together: a network that loses, delays and reorders packets, but
  answers within the retry limits. Main fact: after as many deliveries as there are segments the consumer's
  owner has been called once, with the block that the producer was given; before that it has not been
  called, and some segment can still be delivered.
\<close>

section \<open>Runs\<close>

text \<open>\<open>net_run ... m p\<close>: the state \<open>p\<close> after \<open>m\<close> segments of the store were delivered, in any order, and any
  number of retries that the fetchers were allowed.\<close>

inductive net_run :: "ndn \<Rightarrow> 'u seg_consumer data_callback \<Rightarrow> name \<Rightarrow> data list \<Rightarrow> seg_options \<Rightarrow> 'u \<Rightarrow> nat
    \<Rightarrow> 'u seg_consumer pipeline \<Rightarrow> bool"
  for L cb versioned sto opts u where
  Start: "consumer_run L versioned (newPipeline opts (newConsumer u)) = (r, p) \<Longrightarrow> net_run L cb versioned sto opts u 0 p"
| Deliver: "net_run L cb versioned sto opts u m p \<Longrightarrow> deliverable p h i (EvData d) \<Longrightarrow> d \<in> set sto \<Longrightarrow>
    pipe_event L cb h i (EvData d) p = (r, q) \<Longrightarrow> net_run L cb versioned sto opts u (Suc m) q"
| Retry: "net_run L cb versioned sto opts u m p \<Longrightarrow> deliverable p h i ev \<Longrightarrow> isRunning (fst (react L i ev (fst (fetchers p ! h)))) \<Longrightarrow>
    pipe_event L cb h i ev p = (r, q) \<Longrightarrow> net_run L cb versioned sto opts u m q"

section \<open>The invariant of a transfer\<close>

definition transfers :: "ndn \<Rightarrow> name \<Rightarrow> data list \<Rightarrow> nat \<Rightarrow> 'u \<Rightarrow> 'u \<Rightarrow> nat set \<Rightarrow> 'u seg_consumer pipeline \<Rightarrow> bool" where
  "transfers L versioned sto w u u' R p \<longleftrightarrow>
     wired p \<and> asked L p \<and> \<not> isStopping p \<and> \<not> hasFailure p \<and> posted p = [] \<and> pipePrefix p = versioned
     \<and> maxPipelineSize (pipeOptions p) = w
     \<and> (\<forall>h < length (fetchers p). \<not> hasError (fst (fetchers p ! h)))
     \<and> R \<subseteq> {..<length sto} \<and> R \<subseteq> {..<nextSegmentNo p} \<and> nReceived p = card R \<and> nextSegmentNo p \<le> w + card R
     \<and> (hasFinalBlockId p \<longleftrightarrow> R \<noteq> {}) \<and> (R \<noteq> {} \<longrightarrow> lastSegmentNo p = length sto - 1)
     \<and> (\<forall>k. (\<exists>j. flying p j = Some k) \<longleftrightarrow> k < nextSegmentNo p \<and> k \<notin> R \<and> (R = {} \<or> k < length sto))
     \<and> (nextSegmentNo p < length sto \<longrightarrow> (\<forall>j < w. flying p j \<noteq> None))
     \<and> holds sto R (consumer p) \<and> owner (consumer p) = (if R = {..<length sto} then u' else u)"

lemma transfersD:
  assumes "transfers L versioned sto w u u' R p"
  shows "wired p" "asked L p" "\<not> isStopping p" "\<not> hasFailure p" "posted p = []" "pipePrefix p = versioned"
    "maxPipelineSize (pipeOptions p) = w" "R \<subseteq> {..<length sto}" "R \<subseteq> {..<nextSegmentNo p}" "nReceived p = card R"
    "nextSegmentNo p \<le> w + card R" "hasFinalBlockId p \<longleftrightarrow> R \<noteq> {}" "R \<noteq> {} \<Longrightarrow> lastSegmentNo p = length sto - 1"
    "(\<exists>j. flying p j = Some k) \<longleftrightarrow> k < nextSegmentNo p \<and> k \<notin> R \<and> (R = {} \<or> k < length sto)"
    "nextSegmentNo p < length sto \<Longrightarrow> j < w \<Longrightarrow> flying p j \<noteq> None" "holds sto R (consumer p)"
    "owner (consumer p) = (if R = {..<length sto} then u' else u)" "h < length (fetchers p) \<Longrightarrow> \<not> hasError (fst (fetchers p ! h))"
    "finite R" "pipe_ok L p"
proof -
  note all = assms [unfolded transfers_def]
  show "wired p" "asked L p" "\<not> isStopping p" "\<not> hasFailure p" "posted p = []" "pipePrefix p = versioned"
    "maxPipelineSize (pipeOptions p) = w" "R \<subseteq> {..<length sto}" "R \<subseteq> {..<nextSegmentNo p}" "nReceived p = card R"
    "nextSegmentNo p \<le> w + card R" "hasFinalBlockId p \<longleftrightarrow> R \<noteq> {}" "R \<noteq> {} \<Longrightarrow> lastSegmentNo p = length sto - 1"
    "(\<exists>j. flying p j = Some k) \<longleftrightarrow> k < nextSegmentNo p \<and> k \<notin> R \<and> (R = {} \<or> k < length sto)"
    "nextSegmentNo p < length sto \<Longrightarrow> j < w \<Longrightarrow> flying p j \<noteq> None" "holds sto R (consumer p)"
    "owner (consumer p) = (if R = {..<length sto} then u' else u)" "h < length (fetchers p) \<Longrightarrow> \<not> hasError (fst (fetchers p ! h))"
    using all by blast+
  show "finite R" using all finite_subset [of R "{..<length sto}"] by blast
  have "flying p j = Some k \<Longrightarrow> R \<noteq> {} \<Longrightarrow> k \<le> lastSegmentNo p" for j k
    using all by (metis One_nat_def Suc_pred less_Suc_eq_le not_gr_zero not_less0)
  then show "pipe_ok L p" using all by (simp add: pipe_ok_def)
qed

section \<open>Retries\<close>

lemma react_no_error: "isRunning f \<Longrightarrow> isRunning (fst (react L i ev f)) \<Longrightarrow> \<not> hasError (fst (react L i ev f))"
  by (simp add: isRunning_def)

lemma retry_keeps:
  assumes t: "transfers L versioned sto w u u' R p" and h: "deliverable p h i ev"
    and f': "isRunning (fst (react L i ev (fst (fetchers p ! h))))"
  shows "\<exists>q. pipe_event L cb h i ev p = (Inr (), q) \<and> transfers L versioned sto w u u' R q"
proof -
  note tD = transfersD [OF t]
  have run: "runs_at p h" using h by (simp add: deliverable_def)
  then have len: "h < length (fetchers p)" and running: "isRunning (fst (fetchers p ! h))" by (simp_all add: runs_at_def)
  let ?j = "snd (fetchers p ! h)"
  obtain f acts where react: "react L i ev (fst (fetchers p ! h)) = (f, acts)" by fastforce
  with f' have f: "isRunning f" by simp
  obtain a where a: "acts = [a]" "a = FExpress i \<or> (\<exists>t. a = FSchedule t i)"
    using react_cases [OF running react] f by metis
  define q where q: "q = p\<lparr>fetchers := (fetchers p)[h := (f, ?j)]\<rparr>"
  define q' where q': "q' = q\<lparr>pipeLog := pipeLog q @ [(h, a)]\<rparr>"
  have event: "pipe_event L cb h i ev p = (Inr (), q')"
    using react a by (auto simp: pipe_event_def bindM_def getsM_def modifyM_def case_prod_beta perform_def ret_def q q')
  note stored = store_reaction [OF tD(20,3) run _ q] and upd = update_fetcher [OF tD(1) len _ q]
  have i: "i = segmentInterest L p (segAt p ?j)" by (rule deliverable_interest [OF h tD(2)])
  have "pipe_ok L q'"
    unfolding q'
  proof (rule log_action_ok [OF _ _ _ a(2)])
    show "i = segmentInterest L q (segAt q (snd (fetchers q ! h)))" using i len by (simp add: q segmentInterest_def segAt_def)
  qed (use stored running tD(3) len in \<open>simp_all add: q\<close>)
  moreover have "flying q' = flying q" by (rule structure_cong) (simp_all add: q')
  moreover have "flying q j = flying p j" for j
    using upd(2) running f run by (auto simp: flying_def)
  moreover have "\<not> hasError f" using f by (simp add: isRunning_def)
  moreover have "\<not> isStopping q'" using tD(3) by (simp add: q q')
  ultimately have "wired q'" "asked L q'" "flying q' = flying p" "\<not> hasError f"
    by (simp_all add: pipe_ok_def fun_eq_iff)
  then have "transfers L versioned sto w u u' R q'"
    using t len by (auto simp: transfers_def q q' nth_list_update)
  with event show ?thesis by blast
qed

section \<open>Deliveries\<close>

lemma all_below: "S \<subseteq> {..<n::nat} \<Longrightarrow> n \<le> card S \<longleftrightarrow> S = {..<n}"
  using card_seteq [of "{..<n}" S] by auto

lemma learnFinal_transfer:
  assumes "ndn_codec L" and "reply_segments L versioned sto" and "d \<in> set sto"
    and w: "wired q" "asked L q" "\<not> isStopping q" and err: "\<forall>h < length (fetchers q). \<not> hasError (fst (fetchers q ! h))"
    and final: "hasFinalBlockId q \<Longrightarrow> lastSegmentNo q = length sto - 1 \<and> (\<forall>j k. flying q j = Some k \<longrightarrow> k < length sto)"
  shows "\<exists>q2 fs. learnFinal L d q = (Inr False, q2)
    \<and> q2 = q\<lparr>lastSegmentNo := length sto - 1, hasFinalBlockId := True, fetchers := fs\<rparr>
    \<and> wired q2 \<and> asked L q2 \<and> (\<forall>j k. flying q2 j = Some k \<longleftrightarrow> flying q j = Some k \<and> k < length sto)
    \<and> (\<forall>h < length fs. \<not> hasError (fst (fs ! h)))"
proof (cases "hasFinalBlockId q")
  case True
  show ?thesis
  proof (intro exI [of _ q] exI [of _ "fetchers q"] conjI)
    show "learnFinal L d q = (Inr False, q)" using True by (simp add: learnFinal_def bindM_def getsM_def ret_def)
    show "q = q\<lparr>lastSegmentNo := length sto - 1, hasFinalBlockId := True, fetchers := fetchers q\<rparr>" using final True by simp
  qed (use w err final [OF True] in \<open>simp_all, blast\<close>)
next
  case False
  have len: "0 < length sto" using assms(3) by (cases sto) simp_all
  obtain k where "k < length sto" "d = sto ! k" using assms(3) by (metis in_set_conv_nth)
  then have "finalBlock d = Some (segmentComp L (length sto - 1))" "length sto - 1 < 2 ^ 64"
    using assms(2) by (auto simp: reply_segments_def)
  moreover from this have "readSegment L (segmentComp L (length sto - 1)) = Some (length sto - 1)"
    using assms(1) by (simp add: ndn_codec.readSegment_segmentComp)
  define q1 where q1: "q1 = q\<lparr>lastSegmentNo := length sto - 1, hasFinalBlockId := True\<rparr>"
  have same: "same_pipes q q1" by (simp add: q1 same_pipes_def)
  note eqs = same_pipes_structure [OF same]
  have wq1: "wired q1" using w by (simp add: eqs)
  have "\<not> broken_entry q1 e" if "e \<in> set (segmentFetchers q1)" for e
  proof (cases "fst e")
    case (Some h)
    then have "h \<in> handles (segmentFetchers q1)" using that by (cases e) (auto simp: handles_def)
    then have "h < length (fetchers q)" using handles_wired [OF wq1] by (simp add: q1)
    then show ?thesis using err Some by (simp add: broken_entry_def q1)
  qed (simp add: broken_entry_def)
  then have "list_all (\<lambda>e. \<not> broken_entry q1 e) (segmentFetchers q1)" by (simp add: list_all_iff)
  then have scan: "scanFetchers (segmentFetchers q1) q1 = (Inr False,
      q1\<lparr>fetchers := cancelled_in (handles_above (lastSegmentNo q1) (segmentFetchers q1)) (fetchers q1)\<rparr>)"
    using scan_fine [of q1 "segmentFetchers q1" "{}"] handles_wired [OF wq1] by simp
  let ?fs = "cancelled_in (handles_above (lastSegmentNo q1) (segmentFetchers q1)) (fetchers q1)"
  define q2 where q2: "q2 = q1\<lparr>fetchers := ?fs\<rparr>"
  show ?thesis
  proof (intro exI [of _ q2] exI [of _ ?fs] conjI)
    show "learnFinal L d q = (Inr False, q2)"
      using False calculation \<open>readSegment L (segmentComp L (length sto - 1)) = Some (length sto - 1)\<close> scan
      by (simp add: learnFinal_def bindM_def getsM_def liftE_def modifyM_def q2 q1)
    show "q2 = q\<lparr>lastSegmentNo := length sto - 1, hasFinalBlockId := True, fetchers := ?fs\<rparr>" by (simp add: q2 q1)
    show "wired q2" by (rule cancel_some [OF wq1 q2])
    have "asked L q1" using w by (simp add: eqs)
    then show "asked L q2" by (rule asked_fewer) (auto simp: runs_at_def q2)
    show "\<forall>j k. flying q2 j = Some k \<longleftrightarrow> flying q j = Some k \<and> k < length sto"
    proof (intro allI)
      fix j k
      have "k > lastSegmentNo q1 \<longleftrightarrow> \<not> k < length sto" for k using len by (cases "length sto") (auto simp: q1)
      then show "flying q2 j = Some k \<longleftrightarrow> flying q j = Some k \<and> k < length sto"
        using cancel_some(2) [OF wq1 q2, of j] unfolding eqs(2) by (auto split: option.splits if_splits)
    qed
    show "\<forall>h < length ?fs. \<not> hasError (fst (?fs ! h))" using err by (simp add: q1)
  qed
qed

lemma onData_run: "pipe_onData cb d p = cb d (p\<lparr>nReceived := nReceived p + 1, receivedSize := receivedSize p + length (bvalue (content d))\<rparr>)"
  by (simp add: pipe_onData_def bindM_def modifyM_def)

text \<open>One delivery.\<close>

locale reply_transfer =
  fixes L :: ndn and V :: validator and finishCb :: "'u finish_callback" and versioned :: name and sto :: "data list"
    and w :: nat and u u' :: 'u and b :: block
  assumes codec: "ndn_codec L" and sto: "reply_segments L versioned sto" and window: "0 < w" and size: "w + length sto \<le> 2 ^ 64"
    and valid: "d \<in> set sto \<Longrightarrow> V d = Some Valid"
    and block: "readBlock L (concat (map (bvalue \<circ> content) sto)) = Some b"
    and finish: "finishCb b u = (Inr (), u')"
begin

lemma callback_run:
  assumes "holds sto R (consumer p)" and "owner (consumer p) = u" and "k < length sto" and "k \<notin> R" and "R \<subseteq> {..<length sto}"
    and "allSegmentsReceived p \<longleftrightarrow> insert k R = {..<length sto}"
  shows "\<exists>c. consumer_callback L V finishCb (sto ! k) p = (Inr (), p\<lparr>consumer := c\<rparr>) \<and> holds sto (insert k R) c
    \<and> owner c = (if insert k R = {..<length sto} then u' else u)"
proof -
  have fin: "finite R" using assms(5) finite_subset by blast
  have "V (sto ! k) = Some Valid" using valid assms(3) by simp
  from segment_received [where finishCb = finishCb and allReceived = "allSegmentsReceived p" and V = V and k = k, OF codec sto this assms(1,3,4) fin]
  obtain c where c: "holds sto (insert k R) c" "owner c = u" and run: "consumer_handleData L V finishCb (allSegmentsReceived p) (sto ! k) (consumer p) =
      (if allSegmentsReceived p then bindM (liftE (of_option (TlvError ''Block'') (readBlock L (outputBuffer c)))) (\<lambda>b. callOwner finishCb b) c
       else (Inr (), c))"
    using assms(2) by auto
  show ?thesis
  proof (cases "insert k R = {..<length sto}")
    case True
    then have "outputBuffer c = concat (map (bvalue \<circ> content) sto)" using holds_all c(1) by metis
    then have "consumer_handleData L V finishCb (allSegmentsReceived p) (sto ! k) (consumer p) = (Inr (), c\<lparr>owner := u'\<rparr>)"
      using run True assms(6) block finish c(2) by (simp add: bindM_def liftE_def callOwner_def)
    moreover have "holds sto (insert k R) (c\<lparr>owner := u'\<rparr>)" using c(1) by (simp add: holds_def)
    ultimately show ?thesis
      using True by (intro exI [of _ "c\<lparr>owner := u'\<rparr>"]) (simp add: consumer_callback_def bindM_def getsM_def onConsumer_def)
  next
    case False
    then show ?thesis
      using run c assms(6) by (intro exI [of _ c]) (simp add: consumer_callback_def bindM_def getsM_def onConsumer_def)
  qed
qed

lemma segment_number:
  assumes "segmentComp L k = segmentComp L k'" and "k < 2 ^ 64" and "k' < 2 ^ 64"
  shows "k = k'"
  using ndn_codec.readSegment_segmentComp [OF codec assms(2)] ndn_codec.readSegment_segmentComp [OF codec assms(3)] assms(1) by (metis option.inject)

lemma after_delivery:
  assumes fl: "\<And>j k. flying q j = Some k \<longleftrightarrow> j \<noteq> j0 \<and> flying p j = Some k \<and> k < length sto"
    and t: "transfers L versioned sto w u u' R p" and j0: "flying p j0 = Some k0" and k0: "k0 < length sto"
    and q: "wired q" "asked L q" "\<not> isStopping q" "\<not> hasFailure q" "posted q = []" "pipePrefix q = versioned" "pipeOptions q = pipeOptions p"
      "nextSegmentNo q = nextSegmentNo p" "nReceived q = card R + 1" "hasFinalBlockId q" "lastSegmentNo q = length sto - 1"
    and err: "\<forall>h < length (fetchers q). \<not> hasError (fst (fetchers q ! h))"
    and c: "holds sto (insert k0 R) (consumer q)" "owner (consumer q) = (if insert k0 R = {..<length sto} then u' else u)"
  shows "\<exists>q'. (if allSegmentsReceived q then ret () else bindM (fetchNextSegment L j0) (\<lambda>_. ret ())) q = (Inr (), q')
    \<and> transfers L versioned sto w u u' (insert k0 R) q'"
proof -
  note tD = transfersD [OF t]
  have "\<exists>j. flying p j = Some k0" using j0 by blast
  then have k0R: "k0 \<notin> R" "k0 < nextSegmentNo p" using tD(14) [of k0] by simp_all
  have card: "card (insert k0 R) = card R + 1" using tD(19) k0R(1) by simp
  have unique: "j = j0" if "flying p j = Some k0" for j
  proof (rule wiredD(3) [OF tD(1)])
    show "handleAt p j \<noteq> None" "handleAt p j0 \<noteq> None" "segAt p j = segAt p j0"
      using that j0 by (auto simp: flying_Some)
  qed
  have fl': "(\<exists>j. flying q j = Some k) \<longleftrightarrow> k < nextSegmentNo p \<and> k \<notin> insert k0 R \<and> k < length sto" for k
  proof
    assume "\<exists>j. flying q j = Some k"
    then obtain j where j: "j \<noteq> j0" "flying p j = Some k" "k < length sto" using fl by blast
    from this(2) have "\<exists>j. flying p j = Some k" ..
    then have "k < nextSegmentNo p" "k \<notin> R" using tD(14) [of k] by simp_all
    moreover have "k \<noteq> k0" using j(1,2) unique [of j] by auto
    ultimately show "k < nextSegmentNo p \<and> k \<notin> insert k0 R \<and> k < length sto" using j(3) by simp
  next
    assume k: "k < nextSegmentNo p \<and> k \<notin> insert k0 R \<and> k < length sto"
    then obtain j where j: "flying p j = Some k" using tD(14) [of k] by auto
    then have "j \<noteq> j0" using j0 k by auto
    then show "\<exists>j. flying q j = Some k" using fl [of j k] j k by blast
  qed
  have subset: "insert k0 R \<subseteq> {..<length sto}" "insert k0 R \<subseteq> {..<nextSegmentNo p}" using tD(8,9) k0 k0R by auto
  have all: "allSegmentsReceived q \<longleftrightarrow> insert k0 R = {..<length sto}"
  proof -
    have "allSegmentsReceived q \<longleftrightarrow> length sto \<le> card (insert k0 R)"
      using q(9-11) k0 unfolding allSegmentsReceived_def card by auto
    also have "\<dots> \<longleftrightarrow> insert k0 R = {..<length sto}" by (rule all_below [OF subset(1)])
    finally show ?thesis .
  qed
  have bound: "nextSegmentNo p \<le> w + card R" by (rule tD(11))
  show ?thesis
  proof (cases "insert k0 R = {..<length sto}")
    case True
    have "nextSegmentNo p \<ge> length sto" using subset(2) True by (simp add: lessThan_subset_iff)
    then have "transfers L versioned sto w u u' (insert k0 R) q"
      using q c err subset card bound fl' tD(7) unfolding transfers_def by auto
    then show ?thesis using all True by (simp add: ret_def)
  next
    case False
    have j: "j0 < length (segmentFetchers q)" "flying q j0 = None"
      using fl [of j0] j0 handleAt_bound [of p j0] wiredD(1) [OF q(1)] wiredD(1) [OF tD(1)] q(7)
      by (auto simp: flying_Some) (metis not_Some_eq fl)
    note next_eq = fetchNextSegment_eq [OF q(1) j, of L]
    show ?thesis
    proof (cases "nextSegmentNo p < length sto")
      case True
      then have run: "fetchNextSegment L j0 q = (Inr True, launched L j0 q)" using q next_eq by simp
      note fly = launched_wired(2) [OF q(1) j, of L]
      have busy: "flying (launched L j0 q) j \<noteq> None" if jw: "j < w" for j
      proof (cases "j = j0")
        case False
        obtain k where "flying p j = Some k" using tD(15) [OF True jw] by blast
        moreover from this have "\<exists>j. flying p j = Some k" ..
        then have "k < nextSegmentNo p" using tD(14) [of k] by simp
        ultimately show ?thesis using False True fl [of j k] fly [of j] by simp
      qed (simp add: fly)
      have "(\<exists>j. flying (launched L j0 q) j = Some k) \<longleftrightarrow> k < Suc (nextSegmentNo p) \<and> k \<notin> insert k0 R \<and> k < length sto" for k
      proof -
        have "(\<exists>j. flying (launched L j0 q) j = Some k) \<longleftrightarrow> k = nextSegmentNo p \<or> (\<exists>j. flying q j = Some k)"
          using j(2) by (auto simp: fly q(8)) (metis option.distinct(1))
        then show ?thesis using fl' [of k] True subset(2) by auto
      qed
      then have "transfers L versioned sto w u u' (insert k0 R) (launched L j0 q)"
        using q c err subset card bound tD(7) busy launched_wired(1) [OF q(1) j, of L] asked_launched [OF q(2,1) j]
        unfolding transfers_def by (auto simp: launched_def Let_def nth_append less_Suc_eq newFetcher_def)
      then show ?thesis using all False run by (simp add: bindM_def ret_def)
    next
      case later: False
      define q' where q': "q' = q\<lparr>nextSegmentNo := nextSegmentNo q + 1\<rparr>"
      have run: "fetchNextSegment L j0 q = (Inr False, q')" using q later next_eq k0 by (simp add: q')
      have same: "handleAt q' = handleAt q" "segAt q' = segAt q" "runs_at q' = runs_at q" "flying q' = flying q"
        by (intro structure_cong; simp add: q')+
      have "pipe_ok L q" using q fl by (auto simp: pipe_ok_def)
      then have "pipe_ok L q'" using fetchNextSegment_ok [of L q j0] j run by (simp add: runs_def)
      then have "wired q'" "asked L q'" using q(3) by (simp_all add: pipe_ok_def q')
      then have "transfers L versioned sto w u u' (insert k0 R) q'"
        using q c err subset card bound tD(7) fl' later unfolding transfers_def same by (auto simp: q')
      then show ?thesis using all False run by (simp add: bindM_def ret_def)
    qed
  qed
qed


lemma delivery:
  assumes t: "transfers L versioned sto w u u' R p" and h: "deliverable p h i (EvData d)" and d: "d \<in> set sto"
  shows "\<exists>q k. k < length sto \<and> k \<notin> R \<and> pipe_event L (consumer_callback L V finishCb) h i (EvData d) p = (Inr (), q)
    \<and> transfers L versioned sto w u u' (insert k R) q"
proof -
  note tD = transfersD [OF t]
  let ?j = "snd (fetchers p ! h)" and ?cb = "consumer_callback L V finishCb"
  have run: "runs_at p h" and name: "dataName d = interestName i" using h by (simp_all add: deliverable_def)
  then have len: "h < length (fetchers p)" and running: "isRunning (fst (fetchers p ! h))" by (simp_all add: runs_at_def)
  define k where k: "k = segAt p ?j"
  have i: "i = segmentInterest L p k" unfolding k by (rule deliverable_interest [OF h tD(2)])
  have at: "handleAt p ?j = Some h" by (rule wiredD(4) [OF tD(1) run])
  then have fly: "flying p ?j = Some k" using run by (simp add: flying_def k)
  then have "\<exists>j. flying p j = Some k" ..
  then have kR: "k < nextSegmentNo p" "k \<notin> R" using tD(14) [of k] by simp_all
  obtain k' where k': "k' < length sto" "d = sto ! k'" using d by (metis in_set_conv_nth)
  have "card R \<le> length sto" using card_mono [OF _ tD(8)] by simp
  then have "k < 2 ^ 64" "k' < 2 ^ 64" using kR(1) tD(11) size k'(1) window by linarith+
  moreover have "segmentComp L k = segmentComp L k'"
    using name k' sto i tD(6) by (simp add: reply_segments_def segmentInterest_def)
  ultimately have "k = k'" using segment_number by blast
  then have kn: "k < length sto" "d = sto ! k" using k' by simp_all
  then have "R \<noteq> {..<length sto}" using kR(2) by auto
  then have "owner (consumer p) = u" using tD(17) by simp
  define f where "f = (fst (fetchers p ! h))\<lparr>isStopped := True\<rparr>"
  have f: "\<not> isRunning f" "\<not> hasError f" using running by (simp_all add: f_def isRunning_def)
  define q where q: "q = p\<lparr>fetchers := (fetchers p)[h := (f, ?j)]\<rparr>"
  have event: "pipe_event L ?cb h i (EvData d) p = pipe_handleData L ?cb i d ?j q"
  proof -
    have "react L i (EvData d) (fst (fetchers p ! h)) = (f, [FOnData i d])"
      using running by (simp add: react_def fetcher_handleData_def f_def)
    then have "pipe_event L ?cb h i (EvData d) p = forM (perform L ?cb h ?j) [FOnData i d] q"
      by (simp add: pipe_event_def bindM_def getsM_def modifyM_def case_prod_beta q)
    then show ?thesis by (simp add: perform_def bindM_def ret_def split: prod.split sum.split)
  qed
  note stored = store_reaction [OF tD(20,3) run _ q] and upd = update_fetcher [OF tD(1) len _ q]
  have wq: "wired q" "asked L q" "\<not> isStopping q"
    using stored(1) f tD(3) by (simp_all add: pipe_ok_def q)
  have flyq: "flying q j = (if j = ?j then None else flying p j)" for j
  proof -
    have "handleAt p j = Some h \<longleftrightarrow> j = ?j" using wiredD(2) [OF tD(1), of j h] at by blast
    moreover have "flying q j = (if handleAt p j = Some h then (if isRunning f then Some (segAt p j) else None) else flying p j)"
      by (rule upd(2)) (use f in simp)
    ultimately show ?thesis using f(1) by simp
  qed
  have errq: "\<forall>h < length (fetchers q). \<not> hasError (fst (fetchers q ! h))"
    using tD(18) f(2) len by (auto simp: q nth_list_update)
  have finalq: "lastSegmentNo q = length sto - 1 \<and> (\<forall>j k. flying q j = Some k \<longrightarrow> k < length sto)" if "hasFinalBlockId q"
  proof -
    have "R \<noteq> {}" using that tD(12) by (simp add: q)
    moreover from this have "flying p j = Some x \<Longrightarrow> x < length sto" for j x using tD(14) [of x] by blast
    moreover have "lastSegmentNo q = lastSegmentNo p" by (simp add: q)
    ultimately show ?thesis using tD(13) by (simp add: flyq)
  qed
  obtain q2 fs where learn: "learnFinal L d q = (Inr False, q2)"
    and q2: "q2 = q\<lparr>lastSegmentNo := length sto - 1, hasFinalBlockId := True, fetchers := fs\<rparr>" "wired q2" "asked L q2"
      "\<And>j k. flying q2 j = Some k \<longleftrightarrow> flying q j = Some k \<and> k < length sto" "\<forall>h < length fs. \<not> hasError (fst (fs ! h))"
    using learnFinal_transfer [OF codec sto d wq errq finalq] by blast
  define q3 where q3: "q3 = q2\<lparr>nReceived := nReceived q2 + 1, receivedSize := receivedSize q2 + length (bvalue (content d))\<rparr>"
  have "allSegmentsReceived q3 \<longleftrightarrow> length sto \<le> card (insert k R)"
    using tD(10,19) kR(2) kn(1) by (auto simp: allSegmentsReceived_def q3 q2(1) q)
  also have "\<dots> \<longleftrightarrow> insert k R = {..<length sto}"
    by (rule all_below) (use tD(8) kn(1) in simp)
  finally have all: "allSegmentsReceived q3 \<longleftrightarrow> insert k R = {..<length sto}" .
  have "consumer q3 = consumer p" by (simp add: q3 q2(1) q)
  then obtain c where c: "?cb d q3 = (Inr (), q3\<lparr>consumer := c\<rparr>)" "holds sto (insert k R) c"
      "owner c = (if insert k R = {..<length sto} then u' else u)"
    using callback_run [of R q3 k] tD(8,16) \<open>owner (consumer p) = u\<close> kn kR(2) all by auto
  define q4 where q4: "q4 = q3\<lparr>consumer := c\<rparr>"
  have "same_pipes q2 q4" by (simp add: same_pipes_def q4 q3)
  note same = same_pipes_structure [OF this]
  have "\<exists>q'. (if allSegmentsReceived q4 then ret () else bindM (fetchNextSegment L ?j) (\<lambda>_. ret ())) q4 = (Inr (), q')
      \<and> transfers L versioned sto w u u' (insert k R) q'"
  proof (rule after_delivery [OF _ t fly kn(1)])
    show "flying q4 j = Some x \<longleftrightarrow> j \<noteq> ?j \<and> flying p j = Some x \<and> x < length sto" for j x
      using q2(4) [of j x] unfolding same by (simp add: flyq)
    show "wired q4" "asked L q4" using q2(2,3) by (simp_all add: same)
    show "\<forall>h < length (fetchers q4). \<not> hasError (fst (fetchers q4 ! h))" using q2(5) by (simp add: q4 q3 q2(1))
  qed (use tD c in \<open>simp_all add: q4 q3 q2(1) q\<close>)
  then obtain q' where rest: "(if allSegmentsReceived q4 then ret () else bindM (fetchNextSegment L ?j) (\<lambda>_. ret ())) q4 = (Inr (), q')"
      "transfers L versioned sto w u u' (insert k R) q'" by blast
  have "pipe_onData ?cb d q2 = (Inr (), q4)"
    unfolding onData_run q3 [symmetric] q4 by (rule c(1))
  then have "pipe_handleData L ?cb i d ?j q = (Inr (), q')"
    using learn rest(1) wq(3) name by (simp add: pipe_handleData_def bindM_def getsM_def)
  then show ?thesis using event rest(2) kn kR by auto
qed


text \<open>The start: every pipe gets a segment.\<close>

definition starting :: "seg_options \<Rightarrow> nat \<Rightarrow> 'u seg_consumer pipeline \<Rightarrow> bool" where
  "starting opts k p \<longleftrightarrow> wired p \<and> asked L p \<and> \<not> isStopping p \<and> \<not> hasFailure p \<and> posted p = [] \<and> pipePrefix p = versioned
     \<and> pipeOptions p = opts \<and> (\<forall>h < length (fetchers p). \<not> hasError (fst (fetchers p ! h))) \<and> nReceived p = 0
     \<and> nextSegmentNo p = k \<and> \<not> hasFinalBlockId p \<and> (\<forall>j. flying p j = (if j < k then Some j else None)) \<and> consumer p = newConsumer u"

lemma starting_loop:
  assumes "starting opts k p" and "k \<le> maxPipelineSize opts"
  shows "runs (doRun L [k..<maxPipelineSize opts]) p (\<lambda>_ q. starting opts (maxPipelineSize opts) q)"
  using assms
proof (induction "maxPipelineSize opts - k" arbitrary: k p)
  case 0
  then show ?case by (simp add: runs_rules)
next
  case (Suc x)
  let ?w = "maxPipelineSize opts"
  have k: "k < ?w" "[k..<?w] = k # [Suc k..<?w]" using Suc.hyps(2) by (simp_all add: upt_conv_Cons)
  note st = Suc.prems(1)[unfolded starting_def]
  have wp: "wired p" using st by simp
  have j: "k < length (segmentFetchers p)" "flying p k = None" using st k(1) wiredD(1) [OF wp] by simp_all
  have run: "fetchNextSegment L k p = (Inr True, launched L k p)" using st fetchNextSegment_eq [OF wp j, of L] by simp
  have "asked L p" using st by simp
  then have "starting opts (Suc k) (launched L k p)"
    using st launched_wired [OF wp j, of L] asked_launched [OF _ wp j]
    unfolding starting_def by (auto simp: launched_def Let_def nth_append newFetcher_def less_Suc_eq)
  then have "runs (doRun L [Suc k..<?w]) (launched L k p) (\<lambda>_ q. starting opts ?w q)"
    using Suc.hyps(2) k(1) by (intro Suc.hyps(1)) simp_all
  then show ?case by (simp add: k(2) runs_def bindM_def run)
qed

lemma start_transfers:
  assumes "maxPipelineSize opts = w" and "versioned \<noteq> []" and "isVersion L (last versioned)"
  shows "\<exists>p. consumer_run L versioned (newPipeline opts (newConsumer u)) = (Inr (), p) \<and> transfers L versioned sto w u u' {} p"
proof -
  define p0 where p0: "p0 = (newPipeline opts (newConsumer u))\<lparr>pipePrefix := versioned\<rparr>"
  have eqs: "handleAt p0 = handleAt (newPipeline opts (newConsumer u))" "runs_at p0 = runs_at (newPipeline opts (newConsumer u))"
    "flying p0 = flying (newPipeline opts (newConsumer u))" "wired p0 = wired (newPipeline opts (newConsumer u))"
    by (intro structure_cong; simp add: p0)+
  have "\<not> runs_at p0 h" for h by (simp add: p0 newPipeline_def runs_at_def)
  moreover have "wired p0" using newPipeline_ok [of L opts "newConsumer u"] eqs(4) by (simp add: pipe_ok_def newPipeline_def)
  ultimately have "starting opts 0 p0"
    using newPipeline_flying [of opts "newConsumer u"] by (simp add: starting_def eqs(3) asked_def) (simp add: p0 newPipeline_def)
  from starting_loop [OF this] obtain p where p: "doRun L [0..<w] p0 = (Inr (), p)" "starting opts w p"
    using assms(1) by (auto simp: runs_def)
  have "consumer_run L versioned (newPipeline opts (newConsumer u)) = pipe_run L versioned (newPipeline opts (newConsumer u))"
    by (simp add: consumer_run_def bindM_def onConsumer_def modifyM_def newPipeline_def newConsumer_def)
  also have "\<dots> = doRun L [0..<w] p0"
    using assms by (simp add: pipe_run_def bindM_def modifyM_def getsM_def p0 newPipeline_def)
  finally have "consumer_run L versioned (newPipeline opts (newConsumer u)) = (Inr (), p)" using p(1) by simp
  moreover have "transfers L versioned sto w u u' {} p"
    using p(2) assms(1) sto holds_new [of sto u] unfolding transfers_def starting_def
    by (auto simp: reply_segments_def newConsumer_def lessThan_empty_iff split: if_splits)
  ultimately show ?thesis by blast
qed

lemma net_run_transfers:
  assumes "net_run L (consumer_callback L V finishCb) versioned sto opts u m p"
    and "maxPipelineSize opts = w" and "versioned \<noteq> []" and "isVersion L (last versioned)"
  shows "\<exists>R. transfers L versioned sto w u u' R p \<and> card R = m"
  using assms(1)
proof induction
  case (Start r p)
  then show ?case using start_transfers [OF assms(2-4)] by fastforce
next
  case (Deliver m p h i d r q)
  then obtain R where R: "transfers L versioned sto w u u' R p" "card R = m" by blast
  with delivery [OF R(1) Deliver(2,3)] Deliver(4) transfersD(19) [OF R(1)] show ?case by fastforce
next
  case (Retry m p h i ev r q)
  then obtain R where R: "transfers L versioned sto w u u' R p" "card R = m" by blast
  with retry_keeps [OF R(1) Retry(2,3), of "consumer_callback L V finishCb"] Retry(4) show ?case by fastforce
qed

text \<open>Something can be delivered, or its fetcher waits for its timer, until all is there.\<close>

lemma transfer_progress:
  assumes t: "transfers L versioned sto w u u' R p" and "card R < length sto"
  shows "\<exists>h k. runs_at p h \<and> k < length sto \<and> k \<notin> R \<and> (let i = segmentInterest L p k in
    dataName (sto ! k) = interestName i \<and> (lastAction p h = FExpress i \<or> (\<exists>t. lastAction p h = FSchedule t i)))"
proof -
  note tD = transfersD [OF t]
  have "\<exists>k j. flying p j = Some k \<and> k < length sto"
  proof (cases "nextSegmentNo p < length sto")
    case True
    then obtain k where k: "flying p 0 = Some k" using tD(15) [OF True window] by blast
    then have "\<exists>j. flying p j = Some k" ..
    then show ?thesis using k True tD(14) [of k] by (metis less_trans)
  next
    case False
    have "\<exists>k < length sto. k \<notin> R"
    proof (rule ccontr)
      assume "\<not> (\<exists>k < length sto. k \<notin> R)"
      then have "{..<length sto} \<subseteq> R" by auto
      from card_mono [OF tD(19) this] assms(2) show False by simp
    qed
    then obtain k where "k < length sto" "k \<notin> R" by blast
    then show ?thesis using False tD(14) [of k] by auto
  qed
  then obtain k j where k: "flying p j = Some k" "k < length sto" by blast
  then obtain h where h: "handleAt p j = Some h" "segAt p j = k" "runs_at p h" by (auto simp: flying_Some)
  then have "snd (fetchers p ! h) = j" using wiredD(2) [OF tD(1)] by blast
  then have "let i = segmentInterest L p k in lastAction p h = FExpress i \<or> (\<exists>t. lastAction p h = FSchedule t i)"
    using tD(2) h by (auto simp: asked_def Let_def)
  moreover have "dataName (sto ! k) = interestName (segmentInterest L p k)"
    using sto k(2) tD(6) by (simp add: reply_segments_def segmentInterest_def)
  moreover have "k \<notin> R" using k(1) tD(14) [of k] by blast
  ultimately show ?thesis using h(3) k(2) by (auto simp: Let_def)
qed

text \<open>When all is there, nothing is under way, and the counter has left the range of the segments.\<close>

lemma transfer_done:
  assumes t: "transfers L versioned sto w u u' {..<length sto} p"
  shows "\<not> runs_at p h" and "hasFinalBlockId p" and "nextSegmentNo p > lastSegmentNo p"
proof -
  note tD = transfersD [OF t]
  have "sto \<noteq> []" using sto by (simp add: reply_segments_def)
  then have ne: "{..<length sto} \<noteq> {}" by (simp add: lessThan_empty_iff)
  then show "hasFinalBlockId p" using tD(12) by simp
  have "length sto \<le> nextSegmentNo p" using tD(9) by (simp add: lessThan_subset_iff)
  then show "nextSegmentNo p > lastSegmentNo p" using tD(13) [OF ne] \<open>sto \<noteq> []\<close> by (cases sto) simp_all
  show "\<not> runs_at p h"
  proof
    assume run: "runs_at p h"
    then have "handleAt p (snd (fetchers p ! h)) = Some h" by (rule wiredD(4) [OF tD(1)])
    then have "\<exists>j. flying p j = Some (segAt p (snd (fetchers p ! h)))" using run by (auto simp: flying_Some)
    then show False using tD(14) [of "segAt p (snd (fetchers p ! h))"] ne by simp
  qed
qed

text \<open>Every run can be completed.\<close>

lemma timer_asks:
  assumes h: "deliverable p h i EvTimer" and "pipe_event L cb h i EvTimer p = (r, q)"
  shows "lastAction q h = FExpress i"
proof -
  have "pipe_event L cb h i EvTimer p = (Inr (), p\<lparr>fetchers := (fetchers p)[h := ((fst (fetchers p ! h))\<lparr>nCongestionRetries := 0\<rparr>, snd (fetchers p ! h))],
      pipeLog := pipeLog p @ [(h, FExpress i)]\<rparr>)"
    by (simp add: pipe_event_def bindM_def getsM_def modifyM_def case_prod_beta react_def fetcher_expressInterest_def perform_def ret_def)
  then have "pipeLog q = pipeLog p @ [(h, FExpress i)]" using assms(2) by auto
  then show ?thesis by (simp add: lastAction_append)
qed

lemma net_run_asked:
  assumes run: "net_run L (consumer_callback L V finishCb) versioned sto opts u m p" and "m < length sto"
    and opts: "maxPipelineSize opts = w" "versioned \<noteq> []" "isVersion L (last versioned)"
  shows "\<exists>p' h i. net_run L (consumer_callback L V finishCb) versioned sto opts u m p' \<and> runs_at p' h \<and> lastAction p' h = FExpress i
    \<and> (\<exists>d \<in> set sto. dataName d = interestName i)"
proof -
  let ?cb = "consumer_callback L V finishCb"
  obtain R where t: "transfers L versioned sto w u u' R p" and m: "card R = m" using net_run_transfers [OF run opts] by blast
  obtain h k where h: "runs_at p h" "k < length sto" "dataName (sto ! k) = interestName (segmentInterest L p k)"
    "lastAction p h = FExpress (segmentInterest L p k) \<or> (\<exists>t. lastAction p h = FSchedule t (segmentInterest L p k))"
    using transfer_progress [OF t] assms(2) unfolding Let_def m by blast
  let ?i = "segmentInterest L p k"
  have named: "\<exists>d \<in> set sto. dataName d = interestName ?i" using nth_mem [OF h(2)] h(3) by blast
  from h(4) show ?thesis
  proof
    assume "lastAction p h = FExpress ?i"
    then show ?thesis using run h(1) named by blast
  next
    assume "\<exists>t. lastAction p h = FSchedule t ?i"
    then have timer: "deliverable p h ?i EvTimer" using h(1) by (simp add: deliverable_def)
    have on: "isRunning (fst (react L ?i EvTimer (fst (fetchers p ! h))))"
      using h(1) by (simp add: react_def fetcher_expressInterest_def runs_at_def isRunning_def)
    obtain q where q: "pipe_event L ?cb h ?i EvTimer p = (Inr (), q)" "transfers L versioned sto w u u' R q"
      using retry_keeps [OF t timer on] by blast
    have "fetchers q = (fetchers p)[h := ((fst (fetchers p ! h))\<lparr>nCongestionRetries := 0\<rparr>, snd (fetchers p ! h))]"
      using q(1) by (auto simp: pipe_event_def bindM_def getsM_def modifyM_def case_prod_beta react_def fetcher_expressInterest_def perform_def ret_def)
    then have "runs_at q h" using h(1) by (simp add: runs_at_def isRunning_def)
    then show ?thesis using net_run.Retry [OF run timer on q(1)] timer_asks [OF timer q(1)] named by blast
  qed
qed

lemma net_run_step:
  assumes run: "net_run L (consumer_callback L V finishCb) versioned sto opts u m p" and "m < length sto"
    and opts: "maxPipelineSize opts = w" "versioned \<noteq> []" "isVersion L (last versioned)"
  shows "\<exists>q. net_run L (consumer_callback L V finishCb) versioned sto opts u (Suc m) q"
proof -
  let ?cb = "consumer_callback L V finishCb"
  obtain p' h i d where p': "net_run L ?cb versioned sto opts u m p'" and h: "runs_at p' h" "lastAction p' h = FExpress i"
    and d: "d \<in> set sto" "dataName d = interestName i"
    using net_run_asked [OF assms] by blast
  have "deliverable p' h i (EvData d)" using h d(2) by (simp add: deliverable_def)
  moreover obtain r q where "pipe_event L ?cb h i (EvData d) p' = (r, q)" by fastforce
  ultimately show ?thesis using net_run.Deliver [OF p' _ d(1)] by blast
qed

lemma net_run_completes:
  assumes opts: "maxPipelineSize opts = w" "versioned \<noteq> []" "isVersion L (last versioned)" and "m \<le> length sto"
  shows "\<exists>q. net_run L (consumer_callback L V finishCb) versioned sto opts u m q"
  using assms(4)
proof (induction m)
  case 0
  obtain p where "consumer_run L versioned (newPipeline opts (newConsumer u)) = (Inr (), p)"
    using start_transfers [OF opts] by blast
  then show ?case by (intro exI) (rule net_run.Start)
next
  case (Suc m)
  then show ?case using net_run_step [OF _ _ opts] by auto
qed

end

text \<open>With a window of one, a fetcher that gives up ends the transfer: the failure is posted, nothing runs any more.\<close>

lemma failed_fetch_aborts:
  assumes t: "transfers L versioned sto 1 u u' R p" and h: "deliverable p h i ev"
    and err: "hasError (fst (react L i ev (fst (fetchers p ! h))))"
  shows "\<exists>reason q. pipe_event L cb h i ev p = (Inr (), aborted reason q) \<and> consumer q = consumer p \<and> posted q = []
    \<and> wired q"
proof -
  note tD = transfersD [OF t]
  have run: "runs_at p h" using h by (simp add: deliverable_def)
  then have len: "h < length (fetchers p)" and running: "isRunning (fst (fetchers p ! h))" by (simp_all add: runs_at_def)
  let ?j = "snd (fetchers p ! h)"
  obtain f acts where react: "react L i ev (fst (fetchers p ! h)) = (f, acts)" by fastforce
  have at: "handleAt p ?j = Some h" by (rule wiredD(4) [OF tD(1) run])
  have one: "length (segmentFetchers p) = 1" using wiredD(1) [OF tD(1)] tD(7) by simp
  have j: "?j = 0" using handleAt_bound [OF at] one by simp
  obtain e where "segmentFetchers p = [e]" using one by (auto simp: length_Suc_conv)
  then have pipes: "segmentFetchers p = [(Some h, segAt p 0)]" using at j by (cases e) (simp add: handleAt_def segAt_def)
  from running react obtain reason where f: "\<not> isRunning f" and acts: "acts = [FOnNack i reason] \<or> acts = [FOnTimeout i reason]"
  proof (cases rule: react_cases)
    case (data d)
    then have "\<not> hasError f" using react running by (auto simp: react_def fetcher_handleData_def isRunning_def split: if_splits)
    then show ?thesis using err react by simp
  qed (use err react in \<open>auto simp: isRunning_def\<close>)
  define q where q: "q = p\<lparr>fetchers := (fetchers p)[h := (f, ?j)]\<rparr>"
  have wq: "wired q" using update_fetcher(1) [OF tD(1) len _ q] f by simp
  have event: "pipe_event L cb h i ev p = pipe_handleFail reason 0 q"
  proof -
    have "pipe_event L cb h i ev p = forM (perform L cb h ?j) acts q"
      using react by (simp add: pipe_event_def bindM_def getsM_def modifyM_def case_prod_beta q)
    also have "\<dots> = pipe_handleFail reason 0 q" using acts unfolding j by (auto simp: perform_def bindM_def ret_def split: prod.split sum.split)
    finally show ?thesis .
  qed
  have fly: "flying p 0 = Some (segAt p 0)" using at run j by (simp add: flying_def)
  then have "\<exists>j. flying p j = Some (segAt p 0)" ..
  then have below: "hasFinalBlockId p \<Longrightarrow> segAt p 0 \<le> lastSegmentNo p"
    using tD(14) [of "segAt p 0"] tD(12,13) by auto
  have qf: "segmentFetchers q = [(Some h, segAt p 0)]" "\<not> isStopping q" "hasFinalBlockId q = hasFinalBlockId p"
    "lastSegmentNo q = lastSegmentNo p" "\<not> isRunning (fst (fetchers q ! h))" "consumer q = consumer p" "posted q = []"
    using pipes tD(3,5) f len by (simp_all add: q)
  have "\<exists>reason. pipe_handleFail reason' 0 q = (Inr (), aborted reason q)" for reason'
  proof (cases "hasFinalBlockId p")
    case True
    then have "pipe_handleFail reason' 0 q = (Inr (), aborted reason' q)"
      using below qf by (simp add: pipe_handleFail_def bindM_def getsM_def modifyM_def Let_def pipe_onFailure_eq)
    then show ?thesis by blast
  next
    case False
    then have "foldl (failStep (segAt p 0)) (True, q) (segmentFetchers q) = (True, q)" using qf by (simp add: failStep_def)
    then have "pipe_handleFail reason' 0 q = (Inr (), aborted noFinalSegment q)"
      using False qf by (simp add: pipe_handleFail_def bindM_def getsM_def modifyM_def Let_def pipe_onFailure_eq)
    then show ?thesis by blast
  qed
  then obtain reason' where "pipe_handleFail reason 0 q = (Inr (), aborted reason' q)" by blast
  then show ?thesis unfolding event using wq qf by (intro exI [of _ reason'] exI [of _ q]) simp
qed

text \<open>A pipeline that has fetched all segments asks for nothing when it is run again.\<close>

lemma finished_run:
  assumes "\<not> isStopping p" and "\<not> hasFailure p" and "hasFinalBlockId p" and "nextSegmentNo p > lastSegmentNo p"
    and "0 < maxPipelineSize (pipeOptions p)" and "nm \<noteq> []" and "isVersion L (last nm)"
  shows "pipe_run L nm p = (Inr (), p\<lparr>pipePrefix := nm, nextSegmentNo := nextSegmentNo p + 1\<rparr>)"
proof -
  have "[0..<maxPipelineSize (pipeOptions p)] = 0 # [1..<maxPipelineSize (pipeOptions p)]"
    using assms(5) by (simp add: upt_conv_Cons)
  then show ?thesis
    using assms by (simp add: pipe_run_def bindM_def modifyM_def getsM_def fetchNextSegment_def getNextSegmentNo_def ret_def)
qed

section \<open>A reply is fetched\<close>

lemma populated_reply:
  assumes "ndn_codec L" and "signs F" and "0 < prodMaxSegment po" and "wf_block b" and "0 < length (wire L b)"
    and "length (wire L b) < 2 ^ 31" and "populateStore L F po versioned b = Inr sto"
  shows "reply_segments L versioned sto" and "readBlock L (concat (map (bvalue \<circ> content) sto)) = Some b"
    and "length sto < 2 ^ 31"
proof -
  have all: "sto \<noteq> []" "concat (map (bvalue \<circ> content) sto) = wire L b" "length sto \<le> length (wire L b)"
    "\<forall>k < length sto. dataName (sto ! k) = versioned @ [segmentComp L k]
        \<and> finalBlock (sto ! k) = Some (segmentComp L (length sto - 1)) \<and> contentType (sto ! k) = tlv_ContentType_Blob"
    using populate_segments [OF assms(2,3,5,6), of versioned] assms(7) by auto
  then show "reply_segments L versioned sto" "length sto < 2 ^ 31"
    using assms(6) by (simp_all add: reply_segments_def tlv_ContentType_Blob_def tlv_ContentType_Nack_def)
  show "readBlock L (concat (map (bvalue \<circ> content) sto)) = Some b"
    using assms(1,4) unfolding all(2) by (simp add: ndn_codec_def tlv_codec.readBlock_wire)
qed

lemma populated_transfer:
  assumes "ndn_codec L" and "signs F" and "0 < prodMaxSegment po" and "wf_block b" and "0 < length (wire L b)"
    and "length (wire L b) < 2 ^ 31" and "populateStore L F po versioned b = Inr sto"
    and "0 < w" and "w < 2 ^ 32" and "\<forall>d \<in> set sto. V d = Some Valid" and "finishCb b u = (Inr (), u')"
  shows "reply_transfer L V finishCb versioned sto w u u' b"
  using populated_reply [OF assms(1-7)] assms(1,8-11) by (simp add: reply_transfer_def)

lemma transfer_run:
  assumes tr: "reply_transfer L V finishCb versioned sto w u u' b"
    and "net_run L (consumer_callback L V finishCb) versioned sto opts u m p" and "maxPipelineSize opts = w"
    and "versioned \<noteq> []" and "isVersion L (last versioned)"
  shows "m \<le> length sto \<and> owner (consumer p) = (if m = length sto then u' else u) \<and> posted p = []
    \<and> (m < length sto \<longrightarrow> (\<exists>h i ev. deliverable p h i ev \<and> (ev = EvTimer \<or> (\<exists>d \<in> set sto. ev = EvData d))))"
proof -
  obtain R where t: "transfers L versioned sto w u u' R p" and m: "card R = m"
    using reply_transfer.net_run_transfers [OF tr assms(2-5)] by blast
  note tD = transfersD [OF t]
  have le: "m \<le> length sto" using card_mono [OF _ tD(8)] m by simp
  have "R = {..<length sto} \<longleftrightarrow> m = length sto" using all_below [OF tD(8)] le m by auto
  then have "owner (consumer p) = (if m = length sto then u' else u)" using tD(17) by simp
  moreover have "\<exists>h i ev. deliverable p h i ev \<and> (ev = EvTimer \<or> (\<exists>d \<in> set sto. ev = EvData d))" if "m < length sto"
  proof -
    obtain h k where h: "runs_at p h" "k < length sto" "dataName (sto ! k) = interestName (segmentInterest L p k)"
      "lastAction p h = FExpress (segmentInterest L p k) \<or> (\<exists>t. lastAction p h = FSchedule t (segmentInterest L p k))"
      using reply_transfer.transfer_progress [OF tr t] \<open>m < length sto\<close> unfolding Let_def m by blast
    from h(4) show ?thesis
    proof
      assume "lastAction p h = FExpress (segmentInterest L p k)"
      then have "deliverable p h (segmentInterest L p k) (EvData (sto ! k))" using h by (simp add: deliverable_def)
      then show ?thesis using nth_mem [OF h(2)] by blast
    next
      assume "\<exists>t. lastAction p h = FSchedule t (segmentInterest L p k)"
      then have "deliverable p h (segmentInterest L p k) EvTimer" using h by (simp add: deliverable_def)
      then show ?thesis by blast
    qed
  qed
  ultimately show ?thesis using le tD(5) by blast
qed

text \<open>C11: a consumer that fetches what a producer was given. Whatever the order in which the segments arrive,
  and whatever losses, Nacks and timeouts the fetchers may retry: as long as a segment is missing, the owner
  has not been called and some segment can be delivered (or a timer is due that asks for it again); when
  each segment has arrived, which is possible, the owner has been called once, with the producer's block.\<close>

theorem reply_fetched:
  assumes "ndn_codec L" and "signs F" and "0 < prodMaxSegment po" and "wf_block b" and "0 < length (wire L b)"
    and "length (wire L b) < 2 ^ 31" and "populateStore L F po versioned b = Inr sto"
    and "versioned \<noteq> []" and "isVersion L (last versioned)" and "0 < maxPipelineSize opts" and "maxPipelineSize opts < 2 ^ 32"
    and "\<forall>d \<in> set sto. V d = Some Valid" and "finishCb b u = (Inr (), u')"
    and "net_run L (consumer_callback L V finishCb) versioned sto opts u m p"
  shows "m \<le> length sto \<and> owner (consumer p) = (if m = length sto then u' else u) \<and> posted p = []
    \<and> (m < length sto \<longrightarrow> (\<exists>h i ev. deliverable p h i ev \<and> (ev = EvTimer \<or> (\<exists>d \<in> set sto. ev = EvData d))))
    \<and> (\<exists>q. net_run L (consumer_callback L V finishCb) versioned sto opts u (length sto) q)"
proof -
  have tr: "reply_transfer L V finishCb versioned sto (maxPipelineSize opts) u u' b"
    by (rule populated_transfer) (fact assms)+
  show ?thesis
    using transfer_run [OF tr assms(14) refl assms(8,9)] reply_transfer.net_run_completes [OF tr refl assms(8,9) order.refl] by blast
qed

end
