(* ===== verification/Checker.thy ===== *)
theory Checker
  imports Segment_Fetch Append_Common
begin

text \<open>
  The checker (\<open>src/checker\<close>, \<open>src/checker-state\<close>, \<open>src/util/validate-multiple\<close>): \<open>Checker\<close> asks a ledger
  for the record of a certificate, follows a segmented reply with a \<open>Consumer\<close> on its one pipeline, and
  validates the Data inside. A \<open>CheckerState\<close> is a check in the list \<open>checks\<close>; its two callbacks are the
  values in \<open>checkResults\<close>. \<open>fetchedFor\<close> is the check that the callback of \<open>m_consumer\<close> captured. The state
  of the whole is the pipeline, with the consumer in it and the checker as the consumer's owner.
\<close>

section \<open>Validation of several packets\<close>

text \<open>The callbacks refer to the local counter. An answer of the validator that comes after the function
  has returned (\<open>None\<close>) writes to a variable that is gone.\<close>

primrec validateEach :: "validator \<Rightarrow> 32 word \<Rightarrow> (data \<Rightarrow> ('st, unit) cm) \<Rightarrow> (data \<Rightarrow> string \<Rightarrow> ('st, unit) cm)
    \<Rightarrow> data list \<Rightarrow> 32 word \<Rightarrow> ('st, unit) cm" where
  "validateEach V countTarget successCb failureCb [] count = ret ()"
| "validateEach V countTarget successCb failureCb (d # ds) count = (case V d of
     None \<Rightarrow> validateEach V countTarget successCb failureCb ds count
   | Some Valid \<Rightarrow>
       (let count = count + 1 in
        bindM (if count < countTarget then ret () else successCb d) (\<lambda>_.
        validateEach V countTarget successCb failureCb ds count))
   | Some (Invalid info) \<Rightarrow>
       bindM (failureCb d info) (\<lambda>_. validateEach V countTarget successCb failureCb ds count))"

definition validateMultipleData :: "validator \<Rightarrow> data list \<Rightarrow> (data \<Rightarrow> ('st, unit) cm)
    \<Rightarrow> (data \<Rightarrow> string \<Rightarrow> ('st, unit) cm) \<Rightarrow> ('st, unit) cm" where
  "validateMultipleData V dataVector successCb failureCb =
     validateEach V (of_nat (length dataVector)) successCb failureCb dataVector 0"

definition onLateValid :: "('st, unit) cm" where
  "onLateValid = raise (UndefinedBehaviour ''dangling reference'')"

section \<open>State\<close>

record checker_state =
  checkData :: data
  retryCount :: int

datatype check_result = CheckSuccess data block | CheckFailure data client_error

record checker =
  checks :: "checker_state list"
  askedLedger :: "(nat \<times> interest) list"
  checkResults :: "check_result list"
  fetchedFor :: "nat option"

type_synonym 'a chm = "(checker, 'a) cm"
type_synonym 'a chp = "(checker seg_consumer, 'a) pm"

definition CHECKER_MAX_RETRIES :: int where "CHECKER_MAX_RETRIES = 3"

definition newCheckerState :: "data \<Rightarrow> checker_state" where
  "newCheckerState d = \<lparr>checkData = d, retryCount = 0\<rparr>"

definition newChecker :: "checker seg_consumer pipeline" where
  "newChecker = newPipeline default_options (newConsumer
     \<lparr>checks = [], askedLedger = [], checkResults = [], fetchedFor = None\<rparr>)"

definition check_exhaustRetries :: "checker_state \<Rightarrow> bool \<times> checker_state" where
  "check_exhaustRetries s = (retryCount s > CHECKER_MAX_RETRIES, s\<lparr>retryCount := retryCount s + 1\<rparr>)"

definition makeCheckInterest :: "name \<Rightarrow> checker_state \<Rightarrow> exn + interest" where
  "makeCheckInterest ledgerPrefix s =
     bindE (name_set (dataName (checkData s)) (- 4) (generic ''RECORD'')) (\<lambda>n.
     Inr \<lparr>interestName = n, canBePrefix = True, mustBeFresh = True, forwardingHint = [ledgerPrefix], appParams = None\<rparr>)"

section \<open>Results\<close>

definition checkSuccess :: "nat \<Rightarrow> block \<Rightarrow> unit chm" where
  "checkSuccess k b = modifyM (\<lambda>s. s\<lparr>checkResults := checkResults s @ [CheckSuccess (checkData (checks s ! k)) b]\<rparr>)"

definition checkFailure :: "nat \<Rightarrow> client_error \<Rightarrow> unit chm" where
  "checkFailure k e = modifyM (\<lambda>s. s\<lparr>checkResults := checkResults s @ [CheckFailure (checkData (checks s ! k)) e]\<rparr>)"

section \<open>Asking the ledger\<close>

definition checkInterest :: "nat \<Rightarrow> name \<Rightarrow> unit chm" where
  "checkInterest k ledgerPrefix = bindM (getsM (\<lambda>s. checks s ! k)) (\<lambda>s.
     let (exhausted, s') = check_exhaustRetries s in
     bindM (modifyM (\<lambda>c. c\<lparr>checks := (checks c)[k := s']\<rparr>)) (\<lambda>_.
     if exhausted then checkFailure k \<lparr>errCode = TIMEOUT, errInfo = ''Running out of retries''\<rparr>
     else bindM (liftE (makeCheckInterest ledgerPrefix s')) (\<lambda>i.
       modifyM (\<lambda>c. c\<lparr>askedLedger := askedLedger c @ [(k, i)]\<rparr>))))"

definition doCheck :: "name \<Rightarrow> data \<Rightarrow> nat chm" where
  "doCheck ledgerPrefix d = bindM (getsM (\<lambda>s. length (checks s))) (\<lambda>k.
     bindM (modifyM (\<lambda>s. s\<lparr>checks := checks s @ [newCheckerState d]\<rparr>)) (\<lambda>_.
     bindM (checkInterest k ledgerPrefix) (\<lambda>_. ret k)))"

definition onCheckNack :: "ndn \<Rightarrow> nat \<Rightarrow> interest \<Rightarrow> unit chm" where
  "onCheckNack L k i = checkFailure k \<lparr>errCode = NACK_ERROR, errInfo = toUri L (interestName i)\<rparr>"

definition onCheckTimeout :: "nat \<Rightarrow> name \<Rightarrow> unit chm" where
  "onCheckTimeout k ledgerPrefix = checkInterest k ledgerPrefix"

section \<open>The reply\<close>

definition decodeItem :: "ndn \<Rightarrow> data list \<Rightarrow> block \<Rightarrow> exn + data list" where
  "decodeItem L dataVector item =
    (if btype item = tlv_Data then bindE (dataOf L item) (\<lambda>d. Inr (dataVector @ [d]))
     else if isCritical L (btype item) then Inl (LedgerError (unat PROTO_SPECIFIC) (''Unrecognized TLV Type'' @ decimal (btype item)))
     else Inr dataVector)"

definition decodeContent :: "ndn \<Rightarrow> block \<Rightarrow> exn + data list" where
  "decodeContent L b = bindE (parseBlock L b) (foldE (decodeItem L) [])"

definition onReply :: "ndn \<Rightarrow> validator \<Rightarrow> nat \<Rightarrow> block \<Rightarrow> unit chm" where
  "onReply L V k b = bindM (liftE (decodeContent L b)) (\<lambda>dataVector.
     validateMultipleData V dataVector (\<lambda>_. checkSuccess k b)
       (\<lambda>_ info. checkFailure k \<lparr>errCode = VALIDATION_ERROR, errInfo = info\<rparr>))"

text \<open>The callback of \<open>m_consumer\<close>; there is none before the first reply.\<close>

definition onFetched :: "ndn \<Rightarrow> validator \<Rightarrow> checker finish_callback" where
  "onFetched L V b = bindM (getsM fetchedFor) (\<lambda>k. case k of None \<Rightarrow> ret () | Some k \<Rightarrow> onReply L V k b)"

definition atChecker :: "'a chm \<Rightarrow> 'a chp" where
  "atChecker m = onConsumer (\<lambda>c. case m (owner c) of (r, s) \<Rightarrow> (r, c\<lparr>owner := s\<rparr>))"

definition newConsumerFor :: "nat \<Rightarrow> unit chp" where
  "newConsumerFor k = modifyM (\<lambda>p. p\<lparr>consumer := newConsumer ((owner (consumer p))\<lparr>fetchedFor := Some k\<rparr>)\<rparr>)"

definition isSegmentedReply :: "ndn \<Rightarrow> name \<Rightarrow> exn + bool" where
  "isSegmentedReply L n = bindE (name_get n (- 2)) (\<lambda>c.
     if isVersion L c then bindE (name_get n (- 3)) (\<lambda>c. Inr (c = generic ''data'')) else Inr False)"

definition checkValidated :: "ndn \<Rightarrow> nat \<Rightarrow> data \<Rightarrow> unit chp" where
  "checkValidated L k d =
     bindM (liftE (isSegmentedReply L (dataName d))) (\<lambda>segmented.
     if segmented then
       bindM (newConsumerFor k) (\<lambda>_. consumer_run L (name_prefix (dataName d) (- 1)))
     else
       bindM (liftE (nack_isValidName L (dataName d))) (\<lambda>isNack.
       atChecker (checkFailure k
         (if isNack then \<lparr>errCode = NACK_ERROR, errInfo = ''Application Layer Nack '' @ toUri L (dataName d)\<rparr>
          else \<lparr>errCode = PROTO_SPECIFIC, errInfo = ''Uncognized data format''\<rparr>))))"

definition checkNotValidated :: "nat \<Rightarrow> string \<Rightarrow> unit chp" where
  "checkNotValidated k info = atChecker (checkFailure k \<lparr>errCode = VALIDATION_ERROR, errInfo = info\<rparr>)"

definition onCheckData :: "ndn \<Rightarrow> validator \<Rightarrow> nat \<Rightarrow> data \<Rightarrow> unit chp" where
  "onCheckData L V k d = (case V d of
     None \<Rightarrow> ret ()
   | Some Valid \<Rightarrow> checkValidated L k d
   | Some (Invalid info) \<Rightarrow> checkNotValidated k info)"

definition checker_callback :: "ndn \<Rightarrow> validator \<Rightarrow> checker seg_consumer data_callback" where
  "checker_callback L V = consumer_callback L V (onFetched L V)"

end
