(* ===== verification/Reply_Session.thy ===== *)
theory Reply_Session
  imports Segment_Fetch Ledger_Answers
begin

text \<open>
  A segmented reply of the ledger and its fetching: the producer of the session that \<open>sendResponse\<close> opens
  makes a store that a consumer can fetch. Checker and status tool share these lemmas.
\<close>

lemma default_size: "maxPipelineSize default_options = 1"
  by (simp add: default_options_def)

lemma sendResponse_session:
  assumes "ndn_codec (lib M)" and "sendable M b" and "sendResponse M n b st = (Inr (), st')"
  shows "\<exists>t v sto. v = n @ [generic ''data'', versionComp (lib M) t]
    \<and> populateStore (lib M) (face M) (producerOptions M) v b = Inr sto \<and> sto \<noteq> []
    \<and> outbox st' = outbox st @ [PutData (sto ! 0)] \<and> (\<exists>p. sessions st' = sessions st @ [(v, p)] \<and> prodVersioned p = v \<and> prodStore p = sto)"
proof -
  let ?t = "nat (clock (lib M) (tick st) div 1000)"
  let ?v = "n @ [generic ''data'', versionComp (lib M) ?t]"
  have "signs (face M)" "0 < length (wire (lib M) b)" "length (wire (lib M) b) < 2 ^ 31" "0 < prodMaxSegment (producerOptions M)"
    using assms(2) by (simp_all add: sendable_def producerOptions_def)
  then obtain sto where sto: "populateStore (lib M) (face M) (producerOptions M) ?v b = Inr sto" "sto \<noteq> []"
    using populate_whole [where F = "face M" and opts = "producerOptions M" and L = "lib M" and b = b and versioned = ?v] by blast
  have ver: "isVersion (lib M) (versionComp (lib M) ?t)" using assms(1) by (simp add: ndn_codec.isVersion_versionComp)
  define v where "v = ?v"
  obtain p where p: "newProducer (lib M) (face M) (producerOptions M) ?t v b = Inr p" "prodVersioned p = v" "prodStore p = sto"
    using sto(1) ver by (auto simp: newProducer_def Let_def v_def)
  then have "sendResponse M n b st = (Inr (), st\<lparr>tick := Suc (tick st), outbox := outbox st @ [PutData (sto ! 0)],
      sessions := sessions st @ [(v, p)]\<rparr>)"
    by (simp add: sendResponse_def bindM_def nowM_def liftE_def put_packet_def modifyM_def v_def)
  then have "outbox st' = outbox st @ [PutData (sto ! 0)]" "sessions st' = sessions st @ [(v, p)]"
    using assms(3) by auto
  then show ?thesis
    using sto(2) p sto(1) [folded v_def]
    by (intro exI [of _ ?t] exI [of _ v] exI [of _ sto] conjI exI [of _ p]) (simp_all add: v_def)
qed

lemma versioned_name:
  assumes "ndn_codec L" and "v = n @ [generic ''data'', versionComp L t]"
  shows "name_prefix (v @ [c]) (- 1) = v" and "isVersion L (last v)" and "v \<noteq> []"
proof -
  have "isVersion L (versionComp L t)" using assms(1) by (simp add: ndn_codec.isVersion_versionComp)
  then show "isVersion L (last v)" "v \<noteq> []" "name_prefix (v @ [c]) (- 1) = v"
    by (simp_all add: assms(2) name_prefix_def)
qed

text \<open>A ledger's segmented answer: the content \<open>b\<close>, its first packet \<open>d\<close>, and the session \<open>(v, p)\<close> that serves
  the segments; the validator accepts its packets.\<close>

definition segmented_reply :: "'s ledger \<Rightarrow> validator \<Rightarrow> block \<Rightarrow> data \<Rightarrow> name \<Rightarrow> seg_producer \<Rightarrow> bool" where
  "segmented_reply M V b d v p \<longleftrightarrow> sendable M b \<and> wf_block b
     \<and> (\<exists>n st st'. sendResponse M n b st = (Inr (), st') \<and> outbox st' = outbox st @ [PutData d] \<and> sessions st' = sessions st @ [(v, p)])
     \<and> (\<forall>x \<in> set (prodStore p). V x = Some Valid)"

lemma segmented_reply_transfer:
  assumes "ndn_codec (lib M)" and "segmented_reply M V b d v p"
  shows "finishCb b u = (Inr (), u') \<Longrightarrow> reply_transfer (lib M) V finishCb v (prodStore p) 1 u u' b"
    and "dataName d = v @ [segmentComp (lib M) 0]" and "V d = Some Valid" and "\<exists>n t. v = n @ [generic ''data'', versionComp (lib M) t]"
    and "prodStore p \<noteq> []"
proof -
  let ?L = "lib M"
  note rep = assms(2) [unfolded segmented_reply_def]
  obtain n st st' where st: "sendResponse M n b st = (Inr (), st')" "outbox st' = outbox st @ [PutData d]" "sessions st' = sessions st @ [(v, p)]"
    using rep by blast
  have sendable: "sendable M b" and wf: "wf_block b" and valid: "\<forall>x \<in> set (prodStore p). V x = Some Valid" using rep by simp_all
  note sb = sendable [unfolded sendable_def]
  have pos: "0 < prodMaxSegment (producerOptions M)" using sb by (simp add: producerOptions_def)
  obtain t v' sto p' where "v' = n @ [generic ''data'', versionComp ?L t]"
    and "populateStore ?L (face M) (producerOptions M) v' b = Inr sto" and "sto \<noteq> []" and "PutData (sto ! 0) = PutData d"
    and "(v', p') = (v, p)" "prodStore p' = sto"
    using sendResponse_session [OF assms(1) sendable st(1)] st(2,3) by auto
  then have v: "v = n @ [generic ''data'', versionComp ?L t]" and pop: "populateStore ?L (face M) (producerOptions M) v b = Inr (prodStore p)"
    and d: "d = prodStore p ! 0" and dp: "prodStore p \<noteq> []" by simp_all
  show "prodStore p \<noteq> []" by (rule dp)
  show "\<exists>n t. v = n @ [generic ''data'', versionComp ?L t]" using v by blast
  have "reply_segments ?L v (prodStore p)"
    by (rule populated_reply [OF assms(1) _ pos wf _ _ pop]) (use sb in simp_all)
  then show "dataName d = v @ [segmentComp ?L 0]" using dp d by (simp add: reply_segments_def)
  show "V d = Some Valid" using valid d dp by simp
  show "reply_transfer ?L V finishCb v (prodStore p) 1 u u' b" if "finishCb b u = (Inr (), u')"
    by (rule populated_transfer [OF assms(1) _ pos wf _ _ pop]) (use sb valid that in simp_all)
qed

lemma segmented_reply_names:
  assumes "ndn_codec (lib M)" and "segmented_reply M V b d v p"
  shows "name_prefix (dataName d) (- 1) = v" and "v \<noteq> []" and "isVersion (lib M) (last v)"
proof -
  obtain n t where v: "v = n @ [generic ''data'', versionComp (lib M) t]" using segmented_reply_transfer(4) [OF assms] by blast
  note ver = versioned_name [OF assms(1) v]
  show "v \<noteq> []" "isVersion (lib M) (last v)" by (rule ver)+
  show "name_prefix (dataName d) (- 1) = v" unfolding segmented_reply_transfer(2) [OF assms] by (rule ver)
qed

text \<open>The ledger of the witnesses makes such answers.\<close>

definition demoAccept :: validator where
  "demoAccept d = Some Valid"

lemma demo_reply:
  assumes "length (wire ndnTlv b) < 2 ^ 31" and "wf_block b"
  shows "\<exists>d v p. segmented_reply demoLedger demoAccept b d v p \<and> prodStore p \<noteq> []"
proof -
  have send: "sendable demoLedger b" by (rule demo_sendable [OF assms(1)])
  obtain d rest p st' where p: "prodStore p = d # rest" "sendResponse demoLedger [] b demoStart = (Inr (), st')"
    and st': "outbox st' = outbox demoStart @ [PutData d]" "\<exists>v. sessions st' = sessions demoStart @ [(v, p)]"
    using sendResponse_run [of demoLedger b "[]" demoStart] send by (fastforce simp: sendable_def)
  then have "\<exists>v. segmented_reply demoLedger demoAccept b d v p"
    using send assms(2) by (auto simp: segmented_reply_def demoAccept_def)
  with p(1) show ?thesis by force
qed

end
