(* ===== verification/Checker_Theorems.thy ===== *)
theory Checker_Theorems
  imports Checker Reply_Session
begin

text \<open>
  Properties of the checker: what the validation of several packets reports, how often a ledger is asked,
  and the whole way from a ledger's segmented reply to the result of a check.
\<close>

section \<open>Several packets\<close>

definition refused :: "validator \<Rightarrow> data \<Rightarrow> string option" where
  "refused V d = (case V d of Some (Invalid info) \<Rightarrow> Some info | _ \<Rightarrow> None)"

lemma bindM_unit [simp]: "bindM m (\<lambda>_. ret ()) = m"
  by (rule ext) (simp add: bindM_def ret_def split: prod.split sum.split)

lemma bindM_ret_right [simp]: "bindM m ret = m"
  by (rule ext) (simp add: bindM_def ret_def split: prod.split sum.split)

lemma bindM_ret_left [simp]: "bindM (ret x) f = f x"
  by (rule ext) (simp add: bindM_def ret_def)

lemma validateEach_eq:
  assumes "\<forall>d \<in> set ds. V d \<noteq> None" and "unat count + length ds < 2 ^ 32" and "unat count + length ds \<le> n" and "n < 2 ^ 32"
  shows "validateEach V (of_nat n) s f ds count =
    (if unat count + length ds = n \<and> ds \<noteq> [] \<and> (\<forall>d \<in> set ds. refused V d = None) then s (last ds)
     else forM (\<lambda>d. f d (the (refused V d))) (filter (\<lambda>d. refused V d \<noteq> None) ds))"
  using assms
proof (induction ds arbitrary: count)
  case (Cons d ds)
  show ?case
  proof (cases "V d")
    case (Some v)
    show ?thesis
    proof (cases v)
      case Valid
      have c: "unat (count + 1) = unat count + 1" using Cons.prems(2) by (simp add: unat_word_ariths)
      have lt: "count + 1 < (of_nat n :: 32 word) \<longleftrightarrow> unat count + 1 < n"
        using Cons.prems(4) by (simp add: word_less_nat_alt c unat_of_nat)
      note IH = Cons.IH [of "count + 1"]
      show ?thesis
      proof (cases ds)
        case Nil
        then show ?thesis using Some Valid Cons.prems(3) lt by (simp add: Let_def refused_def)
      next
        case (Cons d' ds')
        then have "unat count + 1 < n" using Cons.prems(3) by simp
        then show ?thesis
          using IH Some Valid Cons.prems lt c Cons by (simp add: Let_def refused_def)
      qed
    next
      case (Invalid info)
      have "unat count + length ds \<noteq> n" using Cons.prems(3) by simp
      then show ?thesis using Cons.IH [of count] Some Invalid Cons.prems by (simp add: refused_def)
    qed
  qed (use Cons.prems in simp)
qed simp

text \<open>C37: the validation of several packets that are answered at once: with all packets valid the success
  callback is called once, with the last packet; otherwise the failure callback is called for each invalid
  packet, in order, and the success callback never. Of no packets nothing is reported at all.\<close>

theorem multiple_validated:
  assumes "\<forall>d \<in> set ds. V d \<noteq> None" and "length ds < 2 ^ 32"
  shows "validateMultipleData V ds s f = (if ds \<noteq> [] \<and> (\<forall>d \<in> set ds. refused V d = None) then s (last ds)
    else forM (\<lambda>d. f d (the (refused V d))) (filter (\<lambda>d. refused V d \<noteq> None) ds))"
  using validateEach_eq [OF assms(1), where count = 0 and n = "length ds" and s = s and f = f] assms(2)
  by (simp add: validateMultipleData_def del: not_None_eq)

definition demoRefuser :: validator where
  "demoRefuser d = Some (if dataName d = [] then Invalid ''no name'' else Valid)"

theorem multiple_validated_witness:
  "validateMultipleData demoRefuser [emptyData [], emptyData [generic ''a''], emptyData []]
     (\<lambda>_. modifyM (\<lambda>xs. xs @ [''ok''])) (\<lambda>_ info. modifyM (\<lambda>xs. xs @ [info])) [] = (Inr (), [''no name'', ''no name''])
   \<and> validateMultipleData demoRefuser [emptyData [generic ''a'']]
     (\<lambda>_. modifyM (\<lambda>xs. xs @ [''ok''])) (\<lambda>_ info. modifyM (\<lambda>xs. xs @ [info])) [] = (Inr (), [''ok''])"
  using multiple_validated [of "[emptyData [], emptyData [generic ''a''], emptyData []]" demoRefuser
      "\<lambda>_. modifyM (\<lambda>xs. xs @ [''ok''])" "\<lambda>_ info. modifyM (\<lambda>xs. xs @ [info])"]
    multiple_validated [of "[emptyData [generic ''a'']]" demoRefuser
      "\<lambda>_. modifyM (\<lambda>xs. xs @ [''ok''])" "\<lambda>_ info. modifyM (\<lambda>xs. xs @ [info])"]
  by (simp add: demoRefuser_def refused_def emptyData_def bindM_def modifyM_def ret_def)

section \<open>Asking\<close>

lemma checkInterest_run:
  assumes "k < length (checks c)" and "s = checks c ! k" and "makeCheckInterest lp s = Inr i"
  shows "checkInterest k lp c = (Inr (), (if retryCount s > CHECKER_MAX_RETRIES
    then c\<lparr>checkResults := checkResults c @ [CheckFailure (checkData s) \<lparr>errCode = TIMEOUT, errInfo = ''Running out of retries''\<rparr>]\<rparr>
    else c\<lparr>askedLedger := askedLedger c @ [(k, i)]\<rparr>)\<lparr>checks := (checks c)[k := s\<lparr>retryCount := retryCount s + 1\<rparr>]\<rparr>)"
proof -
  have "makeCheckInterest lp (s\<lparr>retryCount := n\<rparr>) = Inr i" for n
    using assms(3) by (simp add: makeCheckInterest_def)
  then show ?thesis
    using assms(1,2)
    by (simp add: checkInterest_def check_exhaustRetries_def bindM_def getsM_def modifyM_def liftE_def checkFailure_def Let_def)
qed

text \<open>A check that hears nothing: \<open>n\<close> timeouts one after the other.\<close>

primrec silentLedger :: "nat \<Rightarrow> nat \<Rightarrow> name \<Rightarrow> unit chm" where
  "silentLedger 0 k lp = ret ()"
| "silentLedger (Suc n) k lp = bindM (silentLedger n k lp) (\<lambda>_. onCheckTimeout k lp)"

lemma silent_step:
  assumes "4 \<le> length (dataName d)" and "bindM (doCheck lp d) (\<lambda>k. silentLedger n k lp) c = (Inr (), c')"
  shows "bindM (doCheck lp d) (\<lambda>k. silentLedger (Suc n) k lp) c = onCheckTimeout (length (checks c)) lp c'"
proof -
  have "doCheck lp d c = (Inr (length (checks c)), snd (doCheck lp d c))"
    using assms(1) by (simp add: doCheck_def bindM_def getsM_def modifyM_def ret_def checkInterest_run
        makeCheckInterest_def name_set_def name_index_def newCheckerState_def)
  then obtain s where "doCheck lp d c = (Inr (length (checks c)), s)" by blast
  with assms(2) show ?thesis by (simp add: bindM_def)
qed

lemma silent_run:
  assumes "4 \<le> length (dataName d)" and "i = the (case makeCheckInterest lp (newCheckerState d) of Inr i \<Rightarrow> Some i | Inl _ \<Rightarrow> None)"
    and "n \<le> 3"
  shows "bindM (doCheck lp d) (\<lambda>k. silentLedger n k lp) c = (Inr (), c\<lparr>checks := checks c @ [(newCheckerState d)\<lparr>retryCount := int n + 1\<rparr>],
    askedLedger := askedLedger c @ replicate (n + 1) (length (checks c), i)\<rparr>)"
  using assms(3)
proof (induction n)
  case 0
  have "makeCheckInterest lp (newCheckerState d) = Inr i"
    using assms(1,2) by (simp add: makeCheckInterest_def name_set_def name_index_def newCheckerState_def)
  then show ?case
    by (simp add: doCheck_def bindM_def getsM_def modifyM_def ret_def checkInterest_run newCheckerState_def CHECKER_MAX_RETRIES_def)
next
  case (Suc n)
  let ?s = "(newCheckerState d)\<lparr>retryCount := int n + 1\<rparr>"
  have m: "makeCheckInterest lp ?s = Inr i"
    using assms(1,2) by (simp add: makeCheckInterest_def name_set_def name_index_def newCheckerState_def)
  have prev: "n \<le> 3" using Suc.prems by simp
  from silent_step [OF assms(1) Suc.IH [OF prev]] m show ?case
    using Suc.prems by (simp add: onCheckTimeout_def checkInterest_run CHECKER_MAX_RETRIES_def replicate_app_Cons_same)
qed

text \<open>C32: a check asks its ledger four times at most, each time with the same interest for the record of the
  certificate, and reports nothing until the fourth interest has timed out; then it reports a timeout.\<close>

theorem check_gives_up:
  assumes "4 \<le> length (dataName d)"
  shows "\<exists>i. makeCheckInterest lp (newCheckerState d) = Inr i
    \<and> (\<forall>n \<le> 3. let (r, s) = bindM (doCheck lp d) (\<lambda>k. silentLedger n k lp) c in r = Inr ()
        \<and> askedLedger s = askedLedger c @ replicate (n + 1) (length (checks c), i) \<and> checkResults s = checkResults c)
    \<and> (let (r, s) = bindM (doCheck lp d) (\<lambda>k. silentLedger 4 k lp) c in r = Inr ()
        \<and> askedLedger s = askedLedger c @ replicate 4 (length (checks c), i)
        \<and> checkResults s = checkResults c @ [CheckFailure d \<lparr>errCode = TIMEOUT, errInfo = ''Running out of retries''\<rparr>])"
proof -
  obtain i where i: "makeCheckInterest lp (newCheckerState d) = Inr i"
    using assms by (simp add: makeCheckInterest_def name_set_def name_index_def newCheckerState_def)
  then have i': "makeCheckInterest lp ((newCheckerState d)\<lparr>retryCount := n\<rparr>) = Inr i" for n
    by (simp add: makeCheckInterest_def)
  note run = silent_run [OF assms, of i lp, simplified i sum.case option.sel, OF refl]
  let ?c = "c\<lparr>checks := checks c @ [(newCheckerState d)\<lparr>retryCount := 4\<rparr>], askedLedger := askedLedger c @ replicate 4 (length (checks c), i)\<rparr>"
  have "bindM (doCheck lp d) (\<lambda>k. silentLedger 4 k lp) c = onCheckTimeout (length (checks c)) lp ?c"
    using run [of 3 c] silent_step [of d lp 3 c] assms by (simp add: eval_nat_numeral)
  also have "\<dots> = (Inr (), ?c\<lparr>checkResults := checkResults c @ [CheckFailure d \<lparr>errCode = TIMEOUT, errInfo = ''Running out of retries''\<rparr>],
      checks := checks c @ [(newCheckerState d)\<lparr>retryCount := 5\<rparr>]\<rparr>)"
    using i' by (simp add: onCheckTimeout_def checkInterest_run CHECKER_MAX_RETRIES_def newCheckerState_def)
  finally show ?thesis using i run by auto
qed


theorem check_gives_up_witness:
  "\<exists>r s. bindM (doCheck [] demoCert) (\<lambda>k. silentLedger 4 k []) (owner (consumer newChecker)) = (r, s) \<and> length (askedLedger s) = 4
    \<and> checkResults s = [CheckFailure demoCert \<lparr>errCode = TIMEOUT, errInfo = ''Running out of retries''\<rparr>]"
proof -
  let ?c = "owner (consumer newChecker)"
  have "4 \<le> length (dataName demoCert)" by (simp add: demoCert_def)
  moreover have "askedLedger ?c = []" "checkResults ?c = []" by (simp_all add: newChecker_def newPipeline_def newConsumer_def)
  moreover obtain r s where run: "bindM (doCheck [] demoCert) (\<lambda>k. silentLedger 4 k []) ?c = (r, s)" by fastforce
  ultimately have "length (askedLedger s) = 4"
    "checkResults s = [CheckFailure demoCert \<lparr>errCode = TIMEOUT, errInfo = ''Running out of retries''\<rparr>]"
    using check_gives_up [of demoCert "[]" ?c] by (auto simp: run)
  then show ?thesis using run by blast
qed

section \<open>From the ledger to the result\<close>

lemma onFetched_run:
  assumes "decodeContent L b = Inr ds" and "ds \<noteq> []" and "length ds < 2 ^ 32" and "\<forall>x \<in> set ds. V x = Some Valid"
  shows "onFetched L V b (c\<lparr>fetchedFor := Some k\<rparr>) =
    (Inr (), c\<lparr>fetchedFor := Some k, checkResults := checkResults c @ [CheckSuccess (checkData (checks c ! k)) b]\<rparr>)"
proof -
  have "\<forall>x \<in> set ds. V x \<noteq> None" "\<forall>x \<in> set ds. refused V x = None" using assms(4) by (auto simp: refused_def)
  then have "validateMultipleData V ds (\<lambda>_. checkSuccess k b) f = checkSuccess k b" for f
    using validateEach_eq [where ds = ds and V = V and count = 0 and n = "length ds" and f = f and s = "\<lambda>_. checkSuccess k b"] assms(2,3)
    by (simp add: validateMultipleData_def del: not_None_eq)
  then show ?thesis
    using assms(1) by (simp add: onFetched_def onReply_def bindM_def getsM_def liftE_def checkSuccess_def modifyM_def)
qed

lemma segmented_name:
  assumes "ndn_codec L" and "v = n @ [generic ''data'', versionComp L t]"
  shows "isSegmentedReply L (v @ [c]) = Inr True"
proof -
  have "isVersion L (versionComp L t)" using assms(1) by (simp add: ndn_codec.isVersion_versionComp)
  then show ?thesis
    by (simp add: assms(2) isSegmentedReply_def name_get_def name_index_def nth_append nat_add_distrib)
qed

lemma segmented_prefix:
  assumes "isSegmentedReply L n = Inr True"
  shows "name_prefix n (- 1) \<noteq> [] \<and> isVersion L (last (name_prefix n (- 1)))"
proof -
  obtain c where c: "name_get n (- 2) = Inr c" "isVersion L c"
    using assms by (cases "name_get n (- 2)") (auto simp: isSegmentedReply_def split: if_splits)
  then have "2 \<le> length n" "c = n ! (length n - 2)"
    by (auto simp: name_get_def name_index_def Let_def nat_diff_distrib' split: if_splits)
  moreover from this have "take (length n - 1) n \<noteq> []" by (cases n) auto
  moreover from last_conv_nth [OF this] have "last (take (length n - 1) n) = n ! (length n - 2)"
    using calculation(1) by (simp add: numeral_2_eq_2)
  ultimately have "name_prefix n (- 1) \<noteq> []" "last (name_prefix n (- 1)) = c"
    by (simp_all add: name_prefix_def)
  then show ?thesis using c by simp
qed

text \<open>A checker that has fetched nothing yet, and its reaction to the first packet of a segmented reply.\<close>

definition freshChecker :: "checker \<Rightarrow> checker seg_consumer pipeline" where
  "freshChecker c = newPipeline default_options (newConsumer c)"

lemma first_segment:
  assumes "V d = Some Valid" and "isSegmentedReply L (dataName d) = Inr True"
  shows "onCheckData L V k d (freshChecker c) =
    consumer_run L (name_prefix (dataName d) (- 1)) (newPipeline default_options (newConsumer (c\<lparr>fetchedFor := Some k\<rparr>)))"
  using assms by (simp add: onCheckData_def checkValidated_def bindM_def liftE_def newConsumerFor_def modifyM_def freshChecker_def
      newPipeline_def newConsumer_def)

text \<open>A ledger's segmented answer to a check: the Data packets inside are accepted too.\<close>

definition ledger_answer :: "'s ledger \<Rightarrow> validator \<Rightarrow> block \<Rightarrow> data \<Rightarrow> name \<Rightarrow> seg_producer \<Rightarrow> bool" where
  "ledger_answer M V b d v p \<longleftrightarrow> segmented_reply M V b d v p
     \<and> (\<exists>ds. decodeContent (lib M) b = Inr ds \<and> ds \<noteq> [] \<and> length ds < 2 ^ 32 \<and> (\<forall>x \<in> set ds. V x = Some Valid))"

definition checked :: "nat \<Rightarrow> block \<Rightarrow> checker \<Rightarrow> checker" where
  "checked k b c = c\<lparr>checkResults := checkResults c @ [CheckSuccess (checkData (checks c ! k)) b]\<rparr>"

lemma ledger_answer_transfer:
  assumes "ndn_codec (lib M)" and "ledger_answer M V b d v p" and "u = c\<lparr>fetchedFor := Some k\<rparr>"
  shows "reply_transfer (lib M) V (onFetched (lib M) V) v (prodStore p) 1 u (checked k b u) b"
    and "onCheckData (lib M) V k d (freshChecker c) = consumer_run (lib M) v (newPipeline default_options (newConsumer u))"
    and "v \<noteq> []" and "isVersion (lib M) (last v)"
proof -
  let ?L = "lib M"
  obtain ds where rep: "segmented_reply M V b d v p"
    and ds: "decodeContent ?L b = Inr ds" "ds \<noteq> []" "length ds < 2 ^ 32" "\<forall>x \<in> set ds. V x = Some Valid"
    using assms(2) by (auto simp: ledger_answer_def)
  note tr = segmented_reply_transfer [OF assms(1) rep] and names = segmented_reply_names [OF assms(1) rep]
  show "v \<noteq> []" "isVersion ?L (last v)" by (rule names)+
  obtain n t where v: "v = n @ [generic ''data'', versionComp ?L t]" using tr(4) by blast
  have "isSegmentedReply ?L (dataName d) = Inr True" unfolding tr(2) by (rule segmented_name [OF assms(1) v])
  from first_segment [where V = V and d = d and L = ?L and k = k and c = c, OF tr(3) this]
  show "onCheckData ?L V k d (freshChecker c) = consumer_run ?L v (newPipeline default_options (newConsumer u))"
    by (simp add: names(1) assms(3))
  have fin: "onFetched ?L V b u = (Inr (), checked k b u)"
    using onFetched_run [where V = V and c = c and k = k, OF ds] by (simp add: assms(3) checked_def)
  show "reply_transfer ?L V (onFetched ?L V) v (prodStore p) 1 u (checked k b u) b"
    using fin by (rule tr(1))
qed

text \<open>C3: the whole way of a check that succeeds. A ledger answers with a segmented reply; the checker that gets
  its first packet starts to fetch the segments from the session that the ledger has opened. Whatever the
  order, losses and delays that the retries allow, it reports nothing as long as a segment is missing, and
  then can go on; with the last segment it reports success, once, with the block that the ledger sent.\<close>

theorem check_completes:
  assumes "ndn_codec (lib M)" and "ledger_answer M V b d v p"
    and "run = net_run (lib M) (checker_callback (lib M) V) v (prodStore p) default_options (c\<lparr>fetchedFor := Some k\<rparr>)"
  shows "(\<exists>p0. onCheckData (lib M) V k d (freshChecker c) = (Inr (), p0) \<and> run 0 p0)
    \<and> (\<forall>m q. run m q \<longrightarrow> m \<le> length (prodStore p)
      \<and> checkResults (owner (consumer q)) = checkResults c
          @ (if m = length (prodStore p) then [CheckSuccess (checkData (checks c ! k)) b] else [])
      \<and> (m < length (prodStore p) \<longrightarrow> (\<exists>h i ev. deliverable q h i ev \<and> (ev = EvTimer \<or> (\<exists>x \<in> set (prodStore p). ev = EvData x)))))
    \<and> (\<exists>q. run (length (prodStore p)) q)"
proof -
  note tr = ledger_answer_transfer [OF assms(1,2) refl [of "c\<lparr>fetchedFor := Some k\<rparr>"]]
  obtain p0 where "onCheckData (lib M) V k d (freshChecker c) = (Inr (), p0)" "run 0 p0"
    using reply_transfer.start_transfers [OF tr(1) default_size tr(3,4)] tr(2) net_run.Start assms(3) by fastforce
  moreover have "m \<le> length (prodStore p)
      \<and> checkResults (owner (consumer q)) = checkResults c
          @ (if m = length (prodStore p) then [CheckSuccess (checkData (checks c ! k)) b] else [])
      \<and> (m < length (prodStore p) \<longrightarrow> (\<exists>h i ev. deliverable q h i ev \<and> (ev = EvTimer \<or> (\<exists>x \<in> set (prodStore p). ev = EvData x))))"
    if "run m q" for m q
    using transfer_run [OF tr(1) _ default_size tr(3,4)] that assms(3) by (simp add: checker_callback_def checked_def)
  moreover have "\<exists>q. run (length (prodStore p)) q"
    using reply_transfer.net_run_completes [OF tr(1) default_size tr(3,4) order.refl] assms(3) by (simp add: checker_callback_def)
  ultimately show ?thesis by blast
qed

text \<open>C13: the checker has one pipeline for all its checks, and a pipeline does not start anew. After a check has
  fetched its reply, another one whose ledger answers with segments asks for none of them: no fetcher runs, so
  no event can follow, and neither success nor failure of the second check is ever reported.\<close>

theorem second_check_unanswered:
  assumes "ndn_codec (lib M)" and "ledger_answer M V b d v p"
    and "net_run (lib M) (checker_callback (lib M) V) v (prodStore p) default_options (c\<lparr>fetchedFor := Some k\<rparr>) (length (prodStore p)) q"
    and "V d' = Some Valid" and "isSegmentedReply (lib M) (dataName d') = Inr True"
  shows "\<exists>q'. onCheckData (lib M) V k' d' q = (Inr (), q') \<and> pipeLog q' = pipeLog q
    \<and> checkResults (owner (consumer q')) = checkResults (owner (consumer q))
    \<and> (\<forall>h i ev. \<not> deliverable q' h i ev)"
proof -
  note tr = ledger_answer_transfer [OF assms(1,2) refl [of "c\<lparr>fetchedFor := Some k\<rparr>"]]
  obtain R where t: "transfers (lib M) v (prodStore p) 1 (c\<lparr>fetchedFor := Some k\<rparr>) (checked k b (c\<lparr>fetchedFor := Some k\<rparr>)) R q"
    and R: "card R = length (prodStore p)"
    using reply_transfer.net_run_transfers [OF tr(1) assms(3) [unfolded checker_callback_def] default_size tr(3,4)] by blast
  note tD = transfersD [OF t]
  have "R = {..<length (prodStore p)}" using all_below [OF tD(8)] R by simp
  note fin = reply_transfer.transfer_done [OF tr(1) t [unfolded this]]
  let ?nm = "name_prefix (dataName d') (- 1)" and ?u = "(owner (consumer q))\<lparr>fetchedFor := Some k'\<rparr>"
  have nm: "?nm \<noteq> []" "isVersion (lib M) (last ?nm)" using segmented_prefix [OF assms(5)] by simp_all
  let ?q = "q\<lparr>consumer := newConsumer ?u\<rparr>"
  have "onCheckData (lib M) V k' d' q = consumer_run (lib M) ?nm ?q"
    using assms(4,5) by (simp add: onCheckData_def checkValidated_def bindM_def liftE_def newConsumerFor_def modifyM_def)
  also have "\<dots> = pipe_run (lib M) ?nm ?q"
    by (simp add: consumer_run_def bindM_def onConsumer_def modifyM_def newConsumer_def)
  also have "\<dots> = (Inr (), ?q\<lparr>pipePrefix := ?nm, nextSegmentNo := nextSegmentNo ?q + 1\<rparr>)"
    by (rule finished_run) (use tD fin nm in simp_all)
  finally have "onCheckData (lib M) V k' d' q = (Inr (), ?q\<lparr>pipePrefix := ?nm, nextSegmentNo := nextSegmentNo ?q + 1\<rparr>)" .
  moreover have "\<not> runs_at (?q\<lparr>pipePrefix := ?nm, nextSegmentNo := nextSegmentNo ?q + 1\<rparr>) h" for h
    using fin(1) [of h] by (simp add: runs_at_def)
  ultimately show ?thesis by (simp add: deliverable_def newConsumer_def)
qed

text \<open>C15: a failure while the segments are fetched (too many timeouts or Nacks for one of them) is not reported by
  the check: neither callback is called, no event can follow, and the failure that the pipeline posts is
  thrown out of the event loop.\<close>

theorem failed_fetch_unreported:
  assumes "ndn_codec (lib M)" and "ledger_answer M V b d v p"
    and "net_run (lib M) (checker_callback (lib M) V) v (prodStore p) default_options (c\<lparr>fetchedFor := Some k\<rparr>) m q"
    and "deliverable q h i ev" and "hasError (fst (react (lib M) i ev (fst (fetchers q ! h))))"
  shows "\<exists>q' reason. pipe_event (lib M) (checker_callback (lib M) V) h i ev q = (Inr (), q') \<and> posted q' = [reason]
    \<and> checkResults (owner (consumer q')) = checkResults (owner (consumer q)) \<and> (\<forall>h i ev. \<not> deliverable q' h i ev)
    \<and> onPostedFailure reason q' = (Inl (RuntimeError reason), q')"
proof -
  note tr = ledger_answer_transfer [OF assms(1,2) refl [of "c\<lparr>fetchedFor := Some k\<rparr>"]]
  obtain R where t: "transfers (lib M) v (prodStore p) 1 (c\<lparr>fetchedFor := Some k\<rparr>) (checked k b (c\<lparr>fetchedFor := Some k\<rparr>)) R q"
    using reply_transfer.net_run_transfers [OF tr(1) assms(3) [unfolded checker_callback_def] default_size tr(3,4)] by blast
  obtain reason q0 where q0: "pipe_event (lib M) (checker_callback (lib M) V) h i ev q = (Inr (), aborted reason q0)"
    "consumer q0 = consumer q" "posted q0 = []" "wired q0"
    using failed_fetch_aborts [OF t assms(4,5), of "checker_callback (lib M) V"] by blast
  have "\<not> runs_at (aborted reason q0) h" for h
    using running_handles [OF q0(4), of h] by (auto simp: aborted_def runs_at_def)
  then show ?thesis using q0
    by (intro exI [of _ "aborted reason q0"] exI [of _ reason]) (simp add: deliverable_def aborted_def onPostedFailure_def raise_def)
qed

section \<open>An answer\<close>

definition demoAnswer :: block where
  "demoAnswer = encodeBlock ndnTlv tlv_Content [dataBlock ndnTlv (emptyData [])]"

lemma demo_decode: "decodeContent ndnTlv demoAnswer = Inr [emptyData []]"
proof -
  have tlv: "tlv_codec ndnTlv" using tlv.ndn_codec_axioms by (simp add: ndn_codec_def)
  have "parseBlock ndnTlv demoAnswer = Inr [dataBlock ndnTlv (emptyData [])]"
    unfolding demoAnswer_def by (rule tlv_codec.parseBlock_encodeBlock [OF tlv]) simp
  moreover have "dataOf ndnTlv (dataBlock ndnTlv (emptyData [])) = Inr (emptyData [])"
    using tlv.readDataBytes_dataBytes [of "emptyData []"] by (simp add: dataOf_def dataBlock_def)
  ultimately show ?thesis by (simp add: decodeContent_def decodeItem_def)
qed

lemma demo_answer_size: "length (wire ndnTlv demoAnswer) < 2 ^ 31"
  by (simp add: demoAnswer_def encodeBlock_def dataBlock_def ndnTlv_def tlv_wire_def data_elems_def emptyData_def
      varNumber_def nni_def name_bytes_def tlv_types tlv_ContentType_Blob_def del: be.simps)

lemma demo_ledger_answer: "\<exists>d v p. ledger_answer demoLedger demoAccept demoAnswer d v p \<and> prodStore p \<noteq> []"
proof -
  have "wf_block demoAnswer" by (simp add: demoAnswer_def tlv_Content_def)
  then show ?thesis
    using demo_reply [OF demo_answer_size] by (simp add: ledger_answer_def demo_decode demoAccept_def)
qed

lemma demo_lib: "lib demoLedger = ndnTlv"
  by (simp add: demoLedger_def)

definition demoCheck :: checker where
  "demoCheck = \<lparr>checks = [newCheckerState demoCert], askedLedger = [], checkResults = [], fetchedFor = None\<rparr>"

theorem check_completes_witness:
  "\<exists>d v (p :: seg_producer) p0 q. onCheckData ndnTlv demoAccept 0 d (freshChecker demoCheck) = (Inr (), p0)
    \<and> net_run ndnTlv (checker_callback ndnTlv demoAccept) v (prodStore p) default_options (demoCheck\<lparr>fetchedFor := Some 0\<rparr>)
        (length (prodStore p)) q
    \<and> checkResults (owner (consumer q)) = [CheckSuccess demoCert demoAnswer]"
proof -
  obtain d v p where ans: "ledger_answer demoLedger demoAccept demoAnswer d v p" using demo_ledger_answer by blast
  have codec: "ndn_codec (lib demoLedger)" by (simp add: demo_lib tlv.ndn_codec_axioms)
  define run where "run = net_run (lib demoLedger) (checker_callback (lib demoLedger) demoAccept) v (prodStore p) default_options
    (demoCheck\<lparr>fetchedFor := Some 0\<rparr>)"
  note all = check_completes [where c = demoCheck and k = 0, OF codec ans run_def]
  from all obtain p0 where p0: "onCheckData (lib demoLedger) demoAccept 0 d (freshChecker demoCheck) = (Inr (), p0)" by blast
  from all obtain q where q: "run (length (prodStore p)) q" by blast
  with all have "checkResults (owner (consumer q)) = checkResults demoCheck
      @ (if length (prodStore p) = length (prodStore p) then [CheckSuccess (checkData (checks demoCheck ! 0)) demoAnswer] else [])"
    by blast
  then have "checkResults (owner (consumer q)) = [CheckSuccess demoCert demoAnswer]" by (simp add: demoCheck_def newCheckerState_def)
  with p0 q show ?thesis unfolding run_def demo_lib by (intro exI conjI) assumption+
qed

theorem second_check_unanswered_witness:
  "\<exists>d v (p :: seg_producer) q q'. net_run ndnTlv (checker_callback ndnTlv demoAccept) v (prodStore p) default_options (demoCheck\<lparr>fetchedFor := Some 0\<rparr>)
      (length (prodStore p)) q
    \<and> onCheckData ndnTlv demoAccept 0 d q = (Inr (), q') \<and> (\<forall>h i ev. \<not> deliverable q' h i ev)"
proof -
  let ?v = "[generic ''data'', versionComp ndnTlv 0]"
  let ?d = "emptyData (?v @ [segmentComp ndnTlv 0])"
  obtain d v p where ans: "ledger_answer demoLedger demoAccept demoAnswer d v p" using demo_ledger_answer by blast
  have codec: "ndn_codec (lib demoLedger)" by (simp add: demo_lib tlv.ndn_codec_axioms)
  obtain q where run: "net_run ndnTlv (checker_callback ndnTlv demoAccept) v (prodStore p) default_options (demoCheck\<lparr>fetchedFor := Some 0\<rparr>)
      (length (prodStore p)) q"
    using reply_transfer.net_run_completes [OF ledger_answer_transfer(1) [OF codec ans refl] default_size ledger_answer_transfer(3,4) [OF codec ans refl] order.refl]
    by (auto simp: demo_lib checker_callback_def)
  have seg: "isSegmentedReply ndnTlv (dataName ?d) = Inr True"
    using segmented_name [OF tlv.ndn_codec_axioms, of ?v "[]" 0] by (simp add: emptyData_def)
  have "\<exists>q'. onCheckData (lib demoLedger) demoAccept 0 ?d q = (Inr (), q') \<and> pipeLog q' = pipeLog q
    \<and> checkResults (owner (consumer q')) = checkResults (owner (consumer q)) \<and> (\<forall>h i ev. \<not> deliverable q' h i ev)"
    by (rule second_check_unanswered [OF codec ans]) (use run seg in \<open>simp_all add: demo_lib demoAccept_def\<close>)
  then obtain q' where "onCheckData ndnTlv demoAccept 0 ?d q = (Inr (), q')" "\<forall>h i ev. \<not> deliverable q' h i ev"
    unfolding demo_lib by blast
  with run show ?thesis by (intro exI conjI) assumption+
qed

theorem failed_fetch_unreported_witness:
  "\<exists>h i (q :: checker seg_consumer pipeline) q'. deliverable q h i (EvNack NackNoRoute)
    \<and> pipe_event ndnTlv (checker_callback ndnTlv demoAccept) h i (EvNack NackNoRoute) q = (Inr (), q') \<and> posted q' \<noteq> []
    \<and> checkResults (owner (consumer q')) = []"
proof -
  let ?u = "demoCheck\<lparr>fetchedFor := Some 0\<rparr>"
  obtain d v p where ans: "ledger_answer demoLedger demoAccept demoAnswer d v p" and ne: "prodStore p \<noteq> []" using demo_ledger_answer by blast
  have codec: "ndn_codec (lib demoLedger)" by (simp add: demo_lib tlv.ndn_codec_axioms)
  note tr = ledger_answer_transfer [OF codec ans refl [of ?u], unfolded demo_lib]
  let ?cb = "checker_callback ndnTlv demoAccept"
  obtain q0 where "net_run ndnTlv ?cb v (prodStore p) default_options ?u 0 q0"
    using reply_transfer.net_run_completes [OF tr(1) default_size tr(3,4), of 0] by (auto simp: checker_callback_def)
  moreover have "0 < length (prodStore p)" using ne by simp
  ultimately obtain q h i where q: "net_run ndnTlv ?cb v (prodStore p) default_options ?u 0 q" and h: "runs_at q h" "lastAction q h = FExpress i"
    using reply_transfer.net_run_asked [OF tr(1) _ _ default_size tr(3,4)] unfolding checker_callback_def by blast
  have none: "checkResults (owner (consumer q)) = []"
    using transfer_run [OF tr(1) q [unfolded checker_callback_def] default_size tr(3,4)] ne by (auto simp: demoCheck_def)
  have del: "deliverable q h i (EvNack NackNoRoute)" using h by (simp add: deliverable_def)
  have err: "hasError (fst (react (lib demoLedger) i (EvNack NackNoRoute) (fst (fetchers q ! h))))"
    using h(1) by (auto simp: react_def fetcher_handleNack_def runs_at_def Let_def)
  obtain q' reason where q': "pipe_event (lib demoLedger) (checker_callback (lib demoLedger) demoAccept) h i (EvNack NackNoRoute) q = (Inr (), q')"
    "posted q' = [reason]" "checkResults (owner (consumer q')) = checkResults (owner (consumer q))"
    using failed_fetch_unreported [OF codec ans q [folded demo_lib] del err] by blast
  then show ?thesis using none del unfolding demo_lib by (intro exI conjI) (assumption+, simp_all)
qed

text \<open>The laws of a transfer hold for the segments that the producer makes of this answer, the checker's
  callback and the code's pipeline.\<close>

definition demoVersion :: name where
  "demoVersion = [generic ''data'', versionComp ndnTlv 0]"

definition demoSegments :: "data list" where
  "demoSegments = (case populateStore ndnTlv demoFace (producerOptions demoLedger) demoVersion demoAnswer of Inr sto \<Rightarrow> sto | Inl _ \<Rightarrow> [])"

lemma demo_populated: "populateStore ndnTlv demoFace (producerOptions demoLedger) demoVersion demoAnswer = Inr demoSegments"
proof -
  have "sendable demoLedger demoAnswer" by (rule demo_sendable [OF demo_answer_size])
  then obtain sto where "populateStore ndnTlv demoFace (producerOptions demoLedger) demoVersion demoAnswer = Inr sto"
    using populate_whole [of demoFace "producerOptions demoLedger" ndnTlv demoAnswer demoVersion]
    by (auto simp: sendable_def producerOptions_def demoLedger_def)
  then show ?thesis by (simp add: demoSegments_def)
qed

interpretation check_transfer: reply_transfer ndnTlv demoAccept "onFetched ndnTlv demoAccept" demoVersion demoSegments 1
  "demoCheck\<lparr>fetchedFor := Some 0\<rparr>" "checked 0 demoAnswer (demoCheck\<lparr>fetchedFor := Some 0\<rparr>)" demoAnswer
proof (rule populated_transfer [OF tlv.ndn_codec_axioms _ _ _ _ _ demo_populated])
  have "sendable demoLedger demoAnswer" by (rule demo_sendable [OF demo_answer_size])
  then show "signs demoFace" "0 < prodMaxSegment (producerOptions demoLedger)" "0 < length (wire ndnTlv demoAnswer)"
    "length (wire ndnTlv demoAnswer) < 2 ^ 31"
    by (auto simp: sendable_def producerOptions_def demoLedger_def)
  show "wf_block demoAnswer" by (simp add: demoAnswer_def tlv_Content_def)
  show "onFetched ndnTlv demoAccept demoAnswer (demoCheck\<lparr>fetchedFor := Some 0\<rparr>) =
      (Inr (), checked 0 demoAnswer (demoCheck\<lparr>fetchedFor := Some 0\<rparr>))"
    using onFetched_run [where V = demoAccept and c = demoCheck and k = 0, OF demo_decode] by (simp add: demoAccept_def checked_def)
qed (simp_all add: demoAccept_def)

text \<open>Witnesses of the transfer and of the pipeline.\<close>

theorem reply_fetched_witness:
  "\<exists>q :: checker seg_consumer pipeline. owner (consumer q) = checked 0 demoAnswer (demoCheck\<lparr>fetchedFor := Some 0\<rparr>) \<and> posted q = []"
proof -
  let ?u = "demoCheck\<lparr>fetchedFor := Some 0\<rparr>" and ?cb = "consumer_callback ndnTlv demoAccept (onFetched ndnTlv demoAccept)"
  have ver: "demoVersion \<noteq> []" "isVersion ndnTlv (last demoVersion)"
    by (simp_all add: demoVersion_def tlv.isVersion_versionComp)
  obtain q where run: "net_run ndnTlv ?cb demoVersion demoSegments default_options ?u (length demoSegments) q"
    using check_transfer.net_run_completes [OF default_size ver order.refl] by blast
  have send: "sendable demoLedger demoAnswer" by (rule demo_sendable [OF demo_answer_size])
  have "length demoSegments \<le> length demoSegments \<and> owner (consumer q) = (if length demoSegments = length demoSegments
      then checked 0 demoAnswer ?u else ?u) \<and> posted q = []
    \<and> (length demoSegments < length demoSegments \<longrightarrow> (\<exists>h i ev. deliverable q h i ev \<and> (ev = EvTimer \<or> (\<exists>d \<in> set demoSegments. ev = EvData d))))
    \<and> (\<exists>q. net_run ndnTlv ?cb demoVersion demoSegments default_options ?u (length demoSegments) q)"
  proof (rule reply_fetched [OF tlv.ndn_codec_axioms _ _ _ _ _ demo_populated ver _ _ _ check_transfer.finish run])
    show "signs demoFace" "0 < prodMaxSegment (producerOptions demoLedger)" "0 < length (wire ndnTlv demoAnswer)"
      "length (wire ndnTlv demoAnswer) < 2 ^ 31"
      using send by (auto simp: sendable_def producerOptions_def demoLedger_def)
    show "wf_block demoAnswer" by (simp add: demoAnswer_def tlv_Content_def)
  qed (simp_all add: default_options_def demoAccept_def)
  then have "owner (consumer q) = checked 0 demoAnswer ?u" "posted q = []" by simp_all
  then show ?thesis by (intro exI conjI) assumption+
qed

theorem pipeline_window_witness:
  "\<exists>p. pipe_reach ndnTlv (checker_callback ndnTlv demoAccept) p \<and> card {h. runs_at p h} \<le> maxPipelineSize (pipeOptions p)"
proof -
  obtain r p where p: "pipe_run ndnTlv demoVersion (newPipeline default_options (newConsumer demoCheck)) = (r, p)" by fastforce
  have reach: "pipe_reach ndnTlv (checker_callback ndnTlv demoAccept) p" by (rule pipe_reach.Run [OF p])
  have "segment_client (checker_callback ndnTlv demoAccept)"
    unfolding checker_callback_def by (rule seg_client.segment_client_axioms)
  from pipeline_window [OF this reach] reach show ?thesis by (intro exI [of _ p]) simp
qed

end
