(* ===== verification/Certificate_Source.thy ===== *)
theory Certificate_Source
  imports Segment_Fetcher
begin

text \<open>
  How the tools get their certificate (\<open>src/util/io\<close>): from a file, or from the user's PIB, where the
  user is asked which key and which certificate to take when there are several. The PIB, the file system
  and the reader of base64 are parameters.
\<close>

section \<open>The console\<close>

text \<open>\<open>std::cin\<close> by its lines, \<open>std::cerr\<close>, \<open>std::cout\<close>, and the step counter that each tool keeps. At the end of
  the input \<open>getline\<close> leaves an empty string.\<close>

record console =
  stdinLines :: "bytes list"
  errText :: bytes
  outText :: bytes
  nStep :: int

type_synonym ('c, 'a) om = "('c console_scheme, 'a) cm"

definition newline :: bytes where
  "newline = [CHR 0x0A]"

definition say :: "bytes \<Rightarrow> ('c, unit) om" where
  "say t = modifyM (\<lambda>c. c\<lparr>errText := errText c @ t\<rparr>)"

definition getLine :: "('c, bytes) om" where
  "getLine = (\<lambda>c. case stdinLines c of [] \<Rightarrow> (Inr [], c) | l # ls \<Rightarrow> (Inr l, c\<lparr>stdinLines := ls\<rparr>))"

text \<open>\<open>std::stoul\<close> for 64 bits: white space, a sign, digits; what follows is ignored, and a negative number
  wraps around.\<close>

definition isSpace :: "char \<Rightarrow> bool" where
  "isSpace c \<longleftrightarrow> c \<in> {CHR '' '', CHR 0x09, CHR 0x0A, CHR 0x0B, CHR 0x0C, CHR 0x0D}"

definition isDigit :: "char \<Rightarrow> bool" where
  "isDigit c \<longleftrightarrow> 48 \<le> (of_char c :: nat) \<and> (of_char c :: nat) \<le> 57"

definition digitsValue :: "bytes \<Rightarrow> nat" where
  "digitsValue ds = foldl (\<lambda>n c. 10 * n + (of_char c - 48)) 0 ds"

definition stoul :: "bytes \<Rightarrow> exn + nat" where
  "stoul str =
     (let t = dropWhile isSpace str;
          negative = (t \<noteq> [] \<and> hd t = CHR ''-'');
          u = (if t \<noteq> [] \<and> hd t \<in> {CHR ''-'', CHR ''+''} then tl t else t);
          ds = takeWhile isDigit u; n = digitsValue ds in
      if ds = [] then Inl (StdException ''stoul'')
      else if n \<ge> 2 ^ 64 then Inl (StdException ''stoul'')
      else Inr (if negative then (2 ^ 64 - n) mod 2 ^ 64 else n))"

section \<open>The PIB\<close>

text \<open>\<open>ndn::security::pib\<close> and the functions that take names of keys and certificates apart; an object of class
  \<open>Identity\<close> is an \<open>'i\<close>, one of class \<open>Key\<close> a \<open>'k\<close>, a certificate is a packet.\<close>

record ('i, 'k) pib =
  getIdentity :: "name \<Rightarrow> exn + 'i"
  getKeys :: "'i \<Rightarrow> 'k list"
  getDefaultKey :: "'i \<Rightarrow> exn + 'k"
  getKey :: "'i \<Rightarrow> name \<Rightarrow> exn + 'k"
  keyName :: "'k \<Rightarrow> name"
  getCertificates :: "'k \<Rightarrow> data list"
  getDefaultCertificate :: "'k \<Rightarrow> exn + data"
  getCertificate :: "'k \<Rightarrow> name \<Rightarrow> exn + data"
  extractIdentityFromKeyName :: "name \<Rightarrow> exn + name"
  extractIdentityFromCertName :: "name \<Rightarrow> exn + name"
  extractKeyNameFromCertName :: "name \<Rightarrow> exn + name"

text \<open>What a PIB promises: objects are found under the names that they have, names of keys and
  certificates begin with the name of what they belong to, and a default is one of the objects.\<close>

definition pib_ok :: "('i, 'k) pib \<Rightarrow> bool" where
  "pib_ok P \<longleftrightarrow> (\<forall>n i. getIdentity P n = Inr i \<longrightarrow>
     (\<forall>k. getDefaultKey P i = Inr k \<longrightarrow> k \<in> set (getKeys P i))
     \<and> (\<forall>k \<in> set (getKeys P i). extractIdentityFromKeyName P (keyName P k) = Inr n \<and> getKey P i (keyName P k) = Inr k
       \<and> (\<forall>d. getDefaultCertificate P k = Inr d \<longrightarrow> d \<in> set (getCertificates P k))
       \<and> (\<forall>d \<in> set (getCertificates P k). extractIdentityFromCertName P (dataName d) = Inr n
           \<and> extractKeyNameFromCertName P (dataName d) = Inr (keyName P k) \<and> getCertificate P k (dataName d) = Inr d)))"

section \<open>Selection by the user\<close>

definition exitWith :: "bytes \<Rightarrow> ('c, 'a) om" where
  "exitWith t = bindM (say (t @ newline)) (\<lambda>_. raise (ExitProcess 1))"

definition chooseIndex :: "nat \<Rightarrow> ('c, nat) om" where
  "chooseIndex count =
     bindM (say (''Please type in the key's index that you want to select:'' @ newline)) (\<lambda>_.
     bindM getLine (\<lambda>indexStr.
     bindM (catchM (liftE (stoul indexStr)) is_std_exception (\<lambda>_. exitWith ''Your input is not valid index. Exit'')) (\<lambda>index.
     if index \<ge> count then exitWith ''Your input is not an existing index. Exit'' else ret index)))"

definition stepTitle :: "bytes \<Rightarrow> ('c, unit) om" where
  "stepTitle t =
     bindM (getsM nStep) (\<lambda>n.
     bindM (say (replicate 39 CHR ''*'' @ newline @ ''Step '' @ decimalInt n @ '': '' @ t @ newline)) (\<lambda>_.
     modifyM (\<lambda>c. c\<lparr>nStep := nStep c + 1\<rparr>)))"

definition showKeyChoice :: "('i, 'k) pib \<Rightarrow> ndn \<Rightarrow> 'i \<Rightarrow> nat \<Rightarrow> 'k \<Rightarrow> ('c, nat) om" where
  "showKeyChoice P L ident count key =
     bindM (say (''> Index: '' @ decimal count @ newline @ ''>> Key Name:'')) (\<lambda>_.
     bindM (liftE (getDefaultKey P ident)) (\<lambda>d.
     bindM (say (if key = d then ''  +->* '' else ''  +->  '')) (\<lambda>_.
     bindM (say (toUri L (keyName P key) @ newline)) (\<lambda>_. ret (count + 1)))))"

definition captureKeyName :: "('i, 'k) pib \<Rightarrow> ndn \<Rightarrow> 'i \<Rightarrow> ('c, name) om" where
  "captureKeyName P L ident =
     bindM (stepTitle ''KEY SELECTION'') (\<lambda>_.
     bindM (foldM (showKeyChoice P L ident) 0 (getKeys P ident)) (\<lambda>count.
     bindM (chooseIndex count) (\<lambda>keyIndex.
     ret (keyName P (getKeys P ident ! keyIndex)))))"

definition showCertChoice :: "('i, 'k) pib \<Rightarrow> ndn \<Rightarrow> 'k \<Rightarrow> nat \<Rightarrow> data \<Rightarrow> ('c, nat) om" where
  "showCertChoice P L key count cert =
     bindM (say (''> Index: '' @ decimal count @ newline @ ''>> Certificate Name:'')) (\<lambda>_.
     bindM (liftE (getDefaultCertificate P key)) (\<lambda>d.
     bindM (say (if cert = d then ''  +->* '' else ''  +->  '')) (\<lambda>_.
     bindM (say (toUri L (dataName cert) @ newline)) (\<lambda>_. ret (count + 1)))))"

definition captureCertName :: "('i, 'k) pib \<Rightarrow> ndn \<Rightarrow> 'k \<Rightarrow> ('c, name) om" where
  "captureCertName P L key =
     bindM (stepTitle ''CERTIFICATE SELECTION'') (\<lambda>_.
     bindM (foldM (showCertChoice P L key) 0 (getCertificates P key)) (\<lambda>count.
     bindM (chooseIndex count) (\<lambda>certIndex.
     ret (dataName (getCertificates P key ! certIndex)))))"

section \<open>The certificate\<close>

definition certificateByName :: "('i, 'k) pib \<Rightarrow> name \<Rightarrow> exn + data" where
  "certificateByName P n =
     bindE (extractIdentityFromCertName P n) (\<lambda>idName. bindE (getIdentity P idName) (\<lambda>ident.
     bindE (extractKeyNameFromCertName P n) (\<lambda>kName. bindE (getKey P ident kName) (\<lambda>key. getCertificate P key n))))"

function getCertificateFromPib :: "('i, 'k) pib \<Rightarrow> ndn \<Rightarrow> name \<Rightarrow> bool \<Rightarrow> bool \<Rightarrow> bool \<Rightarrow> ('c, data) om" where
  "getCertificateFromPib P L n isIdentityName isKeyName isCertName =
     (if isIdentityName then
        bindM (liftE (getIdentity P n)) (\<lambda>ident.
        if length (getKeys P ident) > 1 then
          bindM (captureKeyName P L ident) (\<lambda>kName. getCertificateFromPib P L kName False True False)
        else
          bindM (liftE (getDefaultKey P ident)) (\<lambda>key. getCertificateFromPib P L (keyName P key) False True False))
      else if isKeyName then
        bindM (liftE (bindE (extractIdentityFromKeyName P n) (\<lambda>idName.
          bindE (getIdentity P idName) (\<lambda>ident. getKey P ident n)))) (\<lambda>key.
        if length (getCertificates P key) > 1 then
          bindM (captureCertName P L key) (\<lambda>cName. getCertificateFromPib P L cName False False True)
        else
          bindM (liftE (getDefaultCertificate P key)) (\<lambda>cert.
          getCertificateFromPib P L (dataName cert) False False True))
      else if isCertName then liftE (certificateByName P n)
      else liftE (certificateByName P n))"
  by pat_completeness auto

termination
  by (relation "measure (\<lambda>(P, L, n, isId, isKey, isCert). if isId then 2 else if isKey then 1 else 0)") auto

declare getCertificateFromPib.simps [simp del]

section \<open>Files\<close>

text \<open>\<open>openFile\<close>: the contents of a file that can be opened; \<open>stdinAll\<close>: what \<open>std::cin\<close> has; \<open>loadTlv\<close>: the
  library's reader of base64, which throws \<open>ndn::io::Error\<close> with a text.\<close>

record files =
  openFile :: "bytes \<Rightarrow> bytes option"
  stdinAll :: bytes
  loadTlv :: "bytes \<Rightarrow> bytes + data"

definition quoted :: "bytes \<Rightarrow> bytes" where
  "quoted t = [CHR 0x27] @ t @ [CHR 0x27]"

definition loadFromFile :: "files \<Rightarrow> bytes \<Rightarrow> exn + data" where
  "loadFromFile F filename =
     (let malformed = (\<lambda>what. RuntimeError (''Cannot load '' @ quoted filename @ '': malformed TLV or not in base64 format ('' @ what @ '')'')) in
      if filename = ''-'' then
        (case loadTlv F (stdinAll F) of Inl what \<Rightarrow> Inl (malformed what) | Inr d \<Rightarrow> Inr d)
      else case openFile F filename of
        None \<Rightarrow> Inl (RuntimeError (''Cannot open '' @ quoted filename))
      | Some contents \<Rightarrow>
        (case loadTlv F contents of Inl what \<Rightarrow> Inl (malformed what) | Inr d \<Rightarrow> Inr d))"

end
