(* ===== verification/Status_Tool.thy ===== *)
theory Status_Tool
  imports Reply_Session Certificate_Source
begin

text \<open>
  The status tool (\<open>tools/ndncledger-ledger-status\<close>): asks a ledger instance for its tracker of edge states,
  then for each edge state in it, and prints what it gets. Each answer is fetched by a \<open>Consumer\<close> on a
  pipeline of its own. The global variables are the record \<open>status_tool\<close>: the two vectors of consumers and
  pipelines are the list \<open>fetches\<close>; the callbacks of all consumers act on the one \<open>toolOut\<close>, the interests
  expressed and the text printed, which an event hands to its pipeline as the consumer's owner and takes
  back.
\<close>

section \<open>State\<close>

record status_out =
  queries :: "interest list"
  printed :: bytes

datatype status_goal = TrackerGoal | StateGoal

record status_tool =
  toolOut :: status_out
  fetches :: "(status_goal \<times> status_out seg_consumer pipeline) list"

type_synonym 'a som = "(status_out, 'a) cm"
type_synonym 'a stm = "(status_tool, 'a) cm"

definition printText :: "bytes \<Rightarrow> unit som" where
  "printText t = modifyM (\<lambda>o'. o'\<lparr>printed := printed o' @ t\<rparr>)"

definition printWith :: "(bytes, unit) cm \<Rightarrow> unit som" where
  "printWith m = (\<lambda>o'. case m (printed o') of (r, t) \<Rightarrow> (r, o'\<lparr>printed := t\<rparr>))"

section \<open>Queries\<close>

definition internalQuery :: "name \<Rightarrow> name \<Rightarrow> interest" where
  "internalQuery instancePre objName = \<lparr>interestName = instancePre @ keyword ''internal'' # objName, canBePrefix = True,
     mustBeFresh = True, forwardingHint = [], appParams = None\<rparr>"

definition fetchEdgeState :: "name \<Rightarrow> name \<Rightarrow> unit som" where
  "fetchEdgeState instancePre n = modifyM (\<lambda>o'. o'\<lparr>queries := queries o' @ [internalQuery instancePre n]\<rparr>)"

definition fetchEdgeStateList :: "ndn \<Rightarrow> name \<Rightarrow> unit som" where
  "fetchEdgeStateList L instancePre = modifyM (\<lambda>o'. o'\<lparr>queries := queries o' @
     [internalQuery instancePre (toStateListName L globalTracker)]\<rparr>)"

section \<open>What is fetched\<close>

definition stars :: bytes where
  "stars = replicate 39 CHR ''*'' @ newline"

definition doubleLine :: bytes where
  "doubleLine = replicate 39 CHR ''='' @ newline"

definition unixMillis :: "int \<Rightarrow> int" where
  "unixMillis t = (if t < 0 then - (- t div 1000000) else t div 1000000)"

definition onEdgeState :: "ndn \<Rightarrow> bool \<Rightarrow> status_out finish_callback" where
  "onEdgeState L isBenchmark b =
     bindM (liftE (decodeEdgeState L b)) (\<lambda>s.
     bindM (if \<not> isBenchmark then
         bindM (printText stars) (\<lambda>_. bindM (printWith (showEdgeState L s)) (\<lambda>_. printText stars))
       else ret ()) (\<lambda>_.
     if interlocked s > created s then
       printText (doubleLine @ toUri L (stateName s) @ '' Interlock Latency: '' @
         decimalInt (unixMillis (interlocked s) - unixMillis (created s)) @ '' ms'' @ newline @ doubleLine)
     else ret ()))"

definition onEdgeStateList :: "ndn \<Rightarrow> name \<Rightarrow> status_out finish_callback" where
  "onEdgeStateList L instancePre b =
     bindM (liftE (decodeEdgeStateList L b)) (\<lambda>l.
     bindM (printText (''There are '' @ decimal (length (listValue l)) @ '' EdgeStates: '' @ newline)) (\<lambda>_.
     forM (fetchEdgeState instancePre) (listValue l)))"

definition statusCallback :: "ndn \<Rightarrow> name \<Rightarrow> bool \<Rightarrow> status_goal \<Rightarrow> status_out finish_callback" where
  "statusCallback L instancePre isBenchmark goal = (case goal of
     TrackerGoal \<Rightarrow> onEdgeStateList L instancePre | StateGoal \<Rightarrow> onEdgeState L isBenchmark)"

section \<open>Answers and events\<close>

text \<open>The answer to a query starts the fetch; the vectors get consumer and pipeline after that.\<close>

definition onStatusData :: "ndn \<Rightarrow> status_goal \<Rightarrow> data \<Rightarrow> unit stm" where
  "onStatusData L goal d = (\<lambda>s.
     case consumer_run L (name_prefix (dataName d) (- 1)) (newPipeline default_options (newConsumer (toolOut s))) of
       (Inl e, p) \<Rightarrow> (Inl e, s)
     | (Inr _, p) \<Rightarrow> (Inr (), s\<lparr>fetches := fetches s @ [(goal, p)]\<rparr>))"

definition withOwner :: "'u \<Rightarrow> 'u seg_consumer pipeline \<Rightarrow> 'u seg_consumer pipeline" where
  "withOwner u p = p\<lparr>consumer := (consumer p)\<lparr>owner := u\<rparr>\<rparr>"

definition statusEvent :: "ndn \<Rightarrow> validator \<Rightarrow> name \<Rightarrow> bool \<Rightarrow> nat \<Rightarrow> nat \<Rightarrow> interest \<Rightarrow> net_event \<Rightarrow> unit stm" where
  "statusEvent L V instancePre isBenchmark j h i ev = (\<lambda>s. case fetches s ! j of (goal, p) \<Rightarrow>
     (case pipe_event L (consumer_callback L V (statusCallback L instancePre isBenchmark goal)) h i ev
         (withOwner (toolOut s) p) of
       (r, p') \<Rightarrow> (r, s\<lparr>fetches := (fetches s)[j := (goal, p')], toolOut := owner (consumer p')\<rparr>)))"

definition atOut :: "'a som \<Rightarrow> 'a stm" where
  "atOut m = (\<lambda>s. case m (toolOut s) of (r, o') \<Rightarrow> (r, s\<lparr>toolOut := o'\<rparr>))"

section \<open>The main function\<close>

record status_args =
  statusHelp :: bool
  instanceArg :: "bytes option"
  schemaArg :: "bytes option"
  isBenchmark :: bool

text \<open>Up to the event loop: the return code, or \<open>None\<close> when the loop is entered. Parsing the command line,
  reading a name and loading the validator's configuration are parameters.\<close>

definition statusMain :: "ndn \<Rightarrow> (bytes \<Rightarrow> exn + name) \<Rightarrow> (bytes \<Rightarrow> exn + unit) \<Rightarrow> bytes \<Rightarrow> bytes + status_args
    \<Rightarrow> nat option stm" where
  "statusMain L nameOfArg loadSchemaFile description parsed = (case parsed of
     Inl what \<Rightarrow> bindM (atOut (printText (''ERROR: '' @ what @ newline))) (\<lambda>_. ret (Some 1))
   | Inr a \<Rightarrow>
     if statusHelp a then bindM (atOut (printText (description @ newline))) (\<lambda>_. ret (Some 0))
     else (case instanceArg a of
       None \<Rightarrow> bindM (atOut (printText (''ERROR: you must specify an instance prefix.'' @ newline))) (\<lambda>_. ret (Some 2))
     | Some instancePrefixStr \<Rightarrow>
       bindM (liftE (loadSchemaFile (case schemaArg a of None \<Rightarrow> [] | Some f \<Rightarrow> f))) (\<lambda>_.
       bindM (liftE (nameOfArg instancePrefixStr)) (\<lambda>n.
       bindM (atOut (fetchEdgeStateList L n)) (\<lambda>_. ret None)))))"

definition newStatusTool :: status_tool where
  "newStatusTool = \<lparr>toolOut = \<lparr>queries = [], printed = []\<rparr>, fetches = []\<rparr>"

end
