(* ===== verification/Status_Theorems.thy ===== *)
theory Status_Theorems
  imports Status_Tool
begin

text \<open>
  Properties of the status tool, together with the ledger it asks: it asks for every tracked edge state, and
  the ledger answers each of these queries.
\<close>

section \<open>What is asked for\<close>

definition asksFor :: "name \<Rightarrow> name list \<Rightarrow> status_out \<Rightarrow> status_out" where
  "asksFor inst ns o' = o'\<lparr>queries := queries o' @ map (internalQuery inst) ns,
     printed := printed o' @ ''There are '' @ decimal (length ns) @ '' EdgeStates: '' @ newline\<rparr>"

lemma fetch_all: "forM (fetchEdgeState inst) ns o' = (Inr (), o'\<lparr>queries := queries o' @ map (internalQuery inst) ns\<rparr>)"
  by (induction ns arbitrary: o') (simp_all add: bindM_def ret_def fetchEdgeState_def modifyM_def)

lemma onEdgeStateList_run:
  assumes "decodeEdgeStateList L b = Inr l"
  shows "onEdgeStateList L inst b o' = (Inr (), asksFor inst (listValue l) o')"
  using assms
  by (simp add: onEdgeStateList_def bindM_def liftE_def printText_def modifyM_def fetch_all asksFor_def)

lemma internalQuery_answer:
  assumes "block_store (intf M) C ok" and "ok (store st)" and "C (store st) n = Some b" and "sendable M b"
  shows "ends (onInternalQuery M (internalQuery (instancePrefix M) n)) st (responded M b st)"
  using internal_answer [where i = "internalQuery (instancePrefix M) n" and objName = n, OF assms(1,2)] assms(3,4)
  by (simp add: internalQuery_def)

lemma tool_fetch:
  assumes "ndn_codec (lib M)" and "segmented_reply M V b d v p" and "statusCallback (lib M) inst bench goal b (toolOut s) = (Inr (), u')"
    and "run = net_run (lib M) (consumer_callback (lib M) V (statusCallback (lib M) inst bench goal)) v (prodStore p) default_options (toolOut s)"
  shows "\<exists>p0. onStatusData (lib M) goal d s = (Inr (), s\<lparr>fetches := fetches s @ [(goal, p0)]\<rparr>) \<and> run 0 p0"
    and "run (length (prodStore p)) q \<Longrightarrow> owner (consumer q) = u' \<and> posted q = []"
    and "\<exists>q. run (length (prodStore p)) q"
proof -
  note names = segmented_reply_names [OF assms(1,2)]
  note tr = segmented_reply_transfer(1) [OF assms(1,2), of "statusCallback (lib M) inst bench goal", OF assms(3)]
  obtain p0 where p0: "consumer_run (lib M) v (newPipeline default_options (newConsumer (toolOut s))) = (Inr (), p0)"
    using reply_transfer.start_transfers [OF tr default_size names(2,3)] by blast
  then show "\<exists>p0. onStatusData (lib M) goal d s = (Inr (), s\<lparr>fetches := fetches s @ [(goal, p0)]\<rparr>) \<and> run 0 p0"
    unfolding assms(4) by (intro exI [of _ p0]) (auto simp: onStatusData_def names(1) intro: net_run.Start)
  show "run (length (prodStore p)) q \<Longrightarrow> owner (consumer q) = u' \<and> posted q = []"
    using transfer_run [OF tr _ default_size names(2,3)] unfolding assms(4) by simp
  show "\<exists>q. run (length (prodStore p)) q"
    unfolding assms(4) by (rule reply_transfer.net_run_completes [OF tr default_size names(2,3) order.refl])
qed

section \<open>The tool and its ledger\<close>

text \<open>C14: the status tool shows everything that a ledger has accepted as interlocked. In every state with the ledger's
  invariant it answers the tool's first query with its tracker; the tool fetches it, whatever the order and
  the losses the retries allow, and then has asked for each tracked edge state, the interlocked ones among
  them; and to each of these queries the ledger has the edge state as an answer, if it has a size that a
  segmented reply can have.\<close>

theorem status_complete:
  assumes "ledger_setup M C ok" and "ledger_inv M C ok st"
    and "C (store st) (trackerName M) = Some tb" and "segmented_reply M V tb d v p"
    and "run = net_run (lib M) (consumer_callback (lib M) V (statusCallback (lib M) (instancePrefix M) bench TrackerGoal))
      v (prodStore p) default_options (toolOut s)"
    and "asking = (\<lambda>n b. ends (onInternalQuery M (internalQuery (instancePrefix M) n)) st (responded M b st))"
  shows "\<exists>l. decodeEdgeStateList (lib M) tb = Inr l
    \<and> (\<forall>n. nstatus (nodeAt (stateGraph (lib M) C st) n) = INTERLOCKED \<longrightarrow> n \<in> set (listValue l))
    \<and> asking (trackerName M) tb
    \<and> (\<exists>p0. onStatusData (lib M) TrackerGoal d s = (Inr (), s\<lparr>fetches := fetches s @ [(TrackerGoal, p0)]\<rparr>) \<and> run 0 p0)
    \<and> (\<exists>q. run (length (prodStore p)) q)
    \<and> (\<forall>q. run (length (prodStore p)) q \<longrightarrow> queries (owner (consumer q)) = queries (toolOut s) @ map (internalQuery (instancePrefix M)) (listValue l))
    \<and> (\<forall>n \<in> set (listValue l). \<exists>b e. C (store st) n = Some b \<and> decodeEdgeState (lib M) b = Inr e \<and> (sendable M b \<longrightarrow> asking n b))"
proof -
  let ?G = "stateGraph (lib M) C st"
  have codec: "ndn_codec (lib M)" and bs: "block_store (intf M) C ok" using assms(1) by (simp_all add: ledger_setup_def)
  obtain T where lv: "led_view M C ok ?G T (outer M (C (store st))) st" and tr: "tracked ?G T" using inv_led [OF assms(2)] .
  have ok: "ok (store st)" by (rule led_view_ok [OF lv])
  obtain l where l: "decodeEdgeStateList (lib M) tb = Inr l" "set (listValue l) = T"
    using lv assms(3) by (auto simp: led_view_def tracks_def)
  have ask: "asking n b" if "C (store st) n = Some b" and "sendable M b" for n b
    unfolding assms(6) by (rule internalQuery_answer [OF bs ok that])
  have send: "sendable M tb" using assms(4) by (simp add: segmented_reply_def)
  have stored: "\<exists>b e. C (store st) n = Some b \<and> decodeEdgeState (lib M) b = Inr e \<and> (sendable M b \<longrightarrow> asking n b)" if "n \<in> set (listValue l)" for n
  proof -
    have "\<not> pending_at ?G n" using that l(2) tr by (simp add: tracked_def)
    then obtain x where "graphOf (lib M) (C (store st)) n = Some x"
      by (auto simp: pending_at_def nodeAt_def emptyNode_def stateGraph_def split: option.splits)
    then obtain b e where "C (store st) n = Some b" "decodeEdgeState (lib M) b = Inr e" using graphOf_Some by blast
    then show ?thesis using ask by blast
  qed
  have fin: "statusCallback (lib M) (instancePrefix M) bench TrackerGoal tb (toolOut s) =
      (Inr (), asksFor (instancePrefix M) (listValue l) (toolOut s))"
    by (simp add: statusCallback_def onEdgeStateList_run [OF l(1)])
  note fetch = tool_fetch [OF codec assms(4) fin assms(5)]
  show ?thesis
  proof (intro exI [of _ l] conjI ballI allI impI)
    show "nstatus (nodeAt ?G n) = INTERLOCKED \<Longrightarrow> n \<in> set (listValue l)" for n
      using tr l(2) by (simp add: tracked_def)
    show "run (length (prodStore p)) q \<Longrightarrow> queries (owner (consumer q)) =
        queries (toolOut s) @ map (internalQuery (instancePrefix M)) (listValue l)" for q
      using fetch(2) [of q] by (simp add: asksFor_def)
  qed (use l(1) fetch(1,3) stored ask send assms(3) in blast)+
qed

text \<open>A ledger that has received one record, which its tracker lists.\<close>

definition demoTracker :: edge_state_list where
  "demoTracker = \<lparr>listName = trackerName demoLedger, listKey = globalTracker,
     listValue = [toStateName (recName demoRecord)], nextList = getStateListNull\<rparr>"

definition demoTracking :: "memory ledger_state" where
  "demoTracking = demoReceived\<lparr>store := (store demoReceived)(trackerName demoLedger \<mapsto> encodeEdgeStateList ndnTlv demoTracker)\<rparr>"

lemma demo_tracker_wf: "wf_list demoTracker"
  using demo_record(4) by (simp add: wf_list_def demoTracker_def wf_record_def trackerName_def set_wf_def getStateListNull_def
      toStateListName_def stateListNameHeader_def keyword_def generic_def wf_component_def ndnTlv_def)

lemma demo_tracking: "ledger_inv demoLedger (\<lambda>m. m) (\<lambda>_. True) demoTracking"
proof -
  let ?G = "graphAdd Map.empty demoRecord" and ?sn = "toStateName (recName demoRecord)"
  obtain T X where "led_view demoLedger (\<lambda>m. m) (\<lambda>_. True) (harvested demoLedger ?G) T X demoReceived"
    using demo_received_graph by blast
  note put = led_view_tracker [OF this]
  have lv: "led_view demoLedger (\<lambda>m. m) (\<lambda>_. True) (harvested demoLedger ?G) {?sn} X demoTracking"
    unfolding demoTracking_def
    using put [where t = "(store demoReceived)(trackerName demoLedger \<mapsto> encodeEdgeStateList ndnTlv demoTracker)", OF _ demo_tracker_wf]
    by (simp add: demoTracker_def tlv.tlv_codec_axioms)
  have "ripeIn demoLedger ?G \<subseteq> {?sn}"
    using nodeAt_def [of Map.empty] by (auto simp: ripeIn_def ripe_def graphAdd_status emptyNode_def split: if_splits)
  then have "{?sn} \<union> ripeIn demoLedger ?G = {?sn}" by blast
  then have "tracked (harvested demoLedger ?G) {?sn}"
    using tracked_harvest [OF tracked_add(2) [OF tracked_empty]] by metis
  with lv show ?thesis by (rule ledger_invI)
qed

lemma concat_bound: "(\<And>x. x \<in> set xs \<Longrightarrow> length (f x) \<le> k) \<Longrightarrow> length (concat (map f xs)) \<le> length xs * k"
  by (induction xs) (simp_all add: add_mono)

lemma wire_bound:
  assumes "btype b < 65536" and "length (bvalue b) \<le> k" and "k < 60000"
  shows "length (wire ndnTlv b) \<le> 6 + k"
proof -
  have "length (varNumber n) \<le> 3" if "n < 65536" for n using that by (simp add: varNumber_def)
  from this [of "btype b"] this [of "length (bvalue b)"] assms show ?thesis
    by (simp add: ndnTlv_def tlv_wire_def)
qed

lemma name_bound:
  assumes "\<forall>c \<in> set n. ctype c < 65536 \<and> length (cvalue c) \<le> 100" and "length n \<le> 10"
  shows "length (wire ndnTlv (nameBlock ndnTlv n)) \<le> 1066"
proof -
  have c: "length (tlv_wire (comp_block c)) \<le> 106" if "c \<in> set n" for c
    using wire_bound [of "comp_block c" 100] assms(1) that by (simp add: ndnTlv_def comp_block_def)
  have "length (name_bytes n) \<le> length n * 106"
    using concat_bound [of n "\<lambda>c. tlv_wire (comp_block c)", OF c] by (simp add: name_bytes_def comp_def)
  then have "length (name_bytes n) \<le> 1060" using assms(2) by linarith
  then show ?thesis using wire_bound [of "nameBlock ndnTlv n" 1060] by (simp add: nameBlock_def tlv_types ndnTlv_def)
qed

lemma demo_tracker_size: "length (wire ndnTlv (encodeEdgeStateList ndnTlv demoTracker)) < 2 ^ 31"
proof -
  have "recName demoRecord = [generic ''ledger'', generic ''carol'', sequenceComp ndnTlv 1]" by (simp add: demoRecord_def)
  moreover have seq: "sequenceComp ndnTlv n = Comp 58 (nni n)" "numberComp ndnTlv n = Comp 8 (nni n)" for n by (simp_all add: ndnTlv_def)
  moreover have "length (nni n) \<le> 8" for n by (simp add: nni_def)
  moreover from this have "length (nni n) \<le> 100" for n by (rule order_trans) simp
  ultimately have names: "length (wire ndnTlv (nameBlock ndnTlv n)) \<le> 1066"
    if "n \<in> {listName demoTracker, hd (listValue demoTracker), nextList demoTracker}" for n
    using that by (intro name_bound) (auto simp: demoTracker_def trackerName_def toStateListName_def stateListNameHeader_def
        toStateName_def stateNameHeader_def keyword_def generic_def getStateListNull_def)
  let ?bs = "[nestedName ndnTlv TLV_EDGE_STATE_LIST_NAME (listName demoTracker),
    nniBlock ndnTlv TLV_EDGE_STATE_LIST_KEY (unat (listKey demoTracker)),
    Block TLV_EDGE_STATE_LIST_VALUE (nameBuffer ndnTlv (listValue demoTracker)),
    nestedName ndnTlv TLV_EDGE_STATE_LIST_NEXT (nextList demoTracker)]"
  have "length (wire ndnTlv b) \<le> 6 + 1066" if "b \<in> set ?bs" for b
  proof (rule wire_bound)
    have "length (bvalue (nniBlock ndnTlv t k)) \<le> 1066" for t k by (simp add: nniBlock_def ndnTlv_def nni_def)
    moreover have "length (bvalue (Block t (nameBuffer ndnTlv (listValue demoTracker)))) \<le> 1066" for t
      using names [of "hd (listValue demoTracker)"] by (simp add: nameBuffer_def demoTracker_def)
    moreover have "length (bvalue (nestedName ndnTlv t (listName demoTracker))) \<le> 1066"
      "length (bvalue (nestedName ndnTlv t (nextList demoTracker))) \<le> 1066" for t
      using names by (simp_all add: nestedName_def)
    ultimately show "length (bvalue b) \<le> 1066" using that by (auto simp only: set_simps)
  qed (use that in \<open>auto simp: list_tlv\<close>)
  then have "length (concat (map (wire ndnTlv) ?bs)) \<le> length ?bs * (6 + 1066)" by (rule concat_bound)
  also have "length ?bs * (6 + 1066) = 4288" by simp
  finally have "length (wire ndnTlv (Block TLV_EDGE_STATE_LIST_TYPE (concat (map (wire ndnTlv) ?bs)))) \<le> 6 + 4288"
    by (intro wire_bound) (simp_all only: list_tlv block.sel)
  moreover have "encodeEdgeStateList ndnTlv demoTracker = Block TLV_EDGE_STATE_LIST_TYPE (concat (map (wire ndnTlv) ?bs))"
    by (simp add: encodeEdgeStateList_def encodeBlock_def demoTracker_def)
  ultimately have "length (wire ndnTlv (encodeEdgeStateList ndnTlv demoTracker)) \<le> 6 + 4288" by (simp only:)
  then show ?thesis by simp
qed

theorem status_complete_witness:
  "\<exists>d v (p :: seg_producer) p0 q. onStatusData ndnTlv TrackerGoal d newStatusTool = (Inr (), newStatusTool\<lparr>fetches := [(TrackerGoal, p0)]\<rparr>)
    \<and> net_run ndnTlv (consumer_callback ndnTlv demoAccept (statusCallback ndnTlv (instancePrefix demoLedger) False TrackerGoal))
        v (prodStore p) default_options (toolOut newStatusTool) (length (prodStore p)) q
    \<and> queries (owner (consumer q)) = [internalQuery (instancePrefix demoLedger) (toStateName (recName demoRecord))]"
proof -
  let ?tb = "encodeEdgeStateList ndnTlv demoTracker"
  have tb: "store demoTracking (trackerName demoLedger) = Some ?tb" by (simp add: demoTracking_def)
  obtain d v p where ans: "segmented_reply demoLedger demoAccept ?tb d v p" using demo_reply [OF demo_tracker_size] by auto
  define run where "run = net_run (lib demoLedger) (consumer_callback (lib demoLedger) demoAccept (statusCallback (lib demoLedger)
    (instancePrefix demoLedger) False TrackerGoal)) v (prodStore p) default_options (toolOut newStatusTool)"
  from status_complete [where V = demoAccept and s = newStatusTool, OF demo_ledger demo_tracking tb ans run_def refl]
  obtain l p0 q where n: "decodeEdgeStateList (lib demoLedger) ?tb = Inr l" "onStatusData (lib demoLedger) TrackerGoal d newStatusTool =
      (Inr (), newStatusTool\<lparr>fetches := fetches newStatusTool @ [(TrackerGoal, p0)]\<rparr>)" "run (length (prodStore p)) q"
    "queries (owner (consumer q)) = queries (toolOut newStatusTool) @ map (internalQuery (instancePrefix demoLedger)) (listValue l)"
    by blast
  have "l = demoTracker" using n(1) demo_tracker_wf by (simp add: tlv_codec.decode_encodeEdgeStateList [OF tlv.tlv_codec_axioms])
  then have "queries (owner (consumer q)) = [internalQuery (instancePrefix demoLedger) (toStateName (recName demoRecord))]"
    using n(4) by (simp add: demoTracker_def newStatusTool_def)
  with n show ?thesis unfolding run_def by (intro exI conjI) (assumption | simp add: newStatusTool_def)+
qed

text \<open>A reply record carries no packet, and the text form of its edge state decodes one: the tool ends with an
  exception while it prints it.\<close>

lemma reply_state_unprintable:
  assumes "decodeEdgeState L b = Inr s" and "payload (erecord s) = []" and "readBlock L [] = None"
  shows "\<exists>o''. onEdgeState L False b o' = (Inl (TlvError ''Block''), o'')"
  using assms
  by (simp add: onEdgeState_def bindM_def liftE_def printText_def printWith_def modifyM_def showEdgeState_def line_def put_def)

end
