(* ===== verification/Tool_Arguments.thy ===== *)
theory Tool_Arguments
  imports Certificate_Source
begin

text \<open>
  The command lines of the client and checker tools, as \<open>boost::program_options\<close> hands them over, and the
  certificate that they name. The parser, the PIB and the validator's configuration are parameters.
\<close>

section \<open>Arguments\<close>

record tool_args =
  helpGiven :: bool
  nameArg :: "bytes option"
  ledgerArg :: "bytes option"
  clientArg :: "bytes option"
  validatorArg :: "bytes option"
  isIdentityName :: bool
  isKeyName :: bool
  isFileName :: bool

text \<open>What the tools use of the libraries: \<open>parseName\<close> is \<open>Name(const std::string&)\<close>, \<open>keyLocatorName\<close> is
  \<open>getKeyLocator().value().getName()\<close>, \<open>loadValidator\<close> reads a configuration file, \<open>usage\<close> prints the
  description of the options.\<close>

record ('i, 'k) tool_env =
  toolLib :: ndn
  toolPib :: "('i, 'k) pib"
  toolFiles :: files
  parseName :: "bytes \<Rightarrow> exn + name"
  keyLocatorName :: "data \<Rightarrow> exn + name"
  loadValidator :: "bytes \<Rightarrow> exn + unit"
  usage :: bytes

definition sayOut :: "bytes \<Rightarrow> ('c, unit) om" where
  "sayOut t = modifyM (\<lambda>c. c\<lparr>outText := outText c @ t\<rparr>)"

text \<open>A step of \<open>main\<close> that may return: \<open>Inl\<close> the return code.\<close>

definition refuse :: "bytes \<Rightarrow> ('c, nat + 'a) om" where
  "refuse t = bindM (say (''ERROR: '' @ t @ newline)) (\<lambda>_. ret (Inl 2))"

definition badOptions :: "bytes \<Rightarrow> bytes \<Rightarrow> ('c, nat + 'a) om" where
  "badOptions description what =
     bindM (say (''ERROR: '' @ what @ newline @ newline @ description @ newline)) (\<lambda>_. ret (Inl 2))"

definition nIsNameOptions :: "tool_args \<Rightarrow> nat" where
  "nIsNameOptions a = of_bool (isIdentityName a) + of_bool (isKeyName a) + of_bool (isFileName a)"

definition argCertificate :: "('i, 'k) tool_env \<Rightarrow> tool_args \<Rightarrow> ('c, data) om" where
  "argCertificate E a =
     (if isFileName a then liftE (loadFromFile (toolFiles E) (the (nameArg a)))
      else bindM (liftE (parseName E (the (nameArg a)))) (\<lambda>n.
        getCertificateFromPib (toolPib E) (toolLib E) n (isIdentityName a) (isKeyName a) (nIsNameOptions a = 0)))"

end
