(* ===== verification/Client_Tool.thy ===== *)
theory Client_Tool
  imports Append_Client Tool_Arguments
begin

text \<open>
  The client tool (\<open>tools/ndncledger-client\<close>): submits a certificate to a ledger and tells the user what
  became of it. The state \<open>client_tool\<close> is the console and the tool's global variables: the
  \<open>append::Client\<close>, whether the event loop was told to stop, and what the face holds for the tool. The
  callbacks that the tool gives to the client and to the face are operations; \<open>withClient\<close> runs a
  callback of the client and then the tool's callbacks that it called (calling one is the last thing such a
  callback does).
\<close>

section \<open>Arguments\<close>

definition clientArgs :: "('i, 'k) tool_env \<Rightarrow> bytes + tool_args \<Rightarrow> ('c, nat + tool_args) om" where
  "clientArgs E parsed = (case parsed of
     Inl what \<Rightarrow> badOptions (usage E) what
   | Inr a \<Rightarrow>
     if helpGiven a then bindM (sayOut (usage E @ newline)) (\<lambda>_. ret (Inl 0))
     else if nameArg a = None then refuse ''you must specify a name''
     else if ledgerArg a = None then refuse ''you must specify a ledger prefix''
     else if clientArg a = None then refuse ''you must specify a client prefix''
     else if validatorArg a = None then refuse ''you must specify a validator''
     else if nIsNameOptions a > 1 then
       refuse (''at most one of '' @ quoted ''--identity'' @ '', '' @ quoted ''--key'' @ '', or '' @ quoted ''--file'' @ '' may be specified'')
     else ret (Inr a))"

section \<open>State\<close>

text \<open>\<open>registering\<close>: the calls of \<open>registerPrefix\<close> that the face has not answered, with what their callbacks
  captured: client name, the two prefixes as typed, the record.\<close>

record client_tool = console +
  toolClient :: "client option"
  registering :: "(name \<times> bytes \<times> bytes \<times> data) list"
  certFilters :: "data list"
  certsSent :: "data list"
  ioStopped :: bool

type_synonym 'a tm = "(client_tool, 'a) cm"

definition newClientTool :: "bytes list \<Rightarrow> client_tool" where
  "newClientTool input = \<lparr>stdinLines = input, errText = [], outText = [], nStep = 0, toolClient = None, registering = [],
     certFilters = [], certsSent = [], ioStopped = False\<rparr>"

definition stopTool :: "unit tm" where
  "stopTool = modifyM (\<lambda>t. t\<lparr>ioStopped := True\<rparr>)"

text \<open>\<open>strsignal\<close> may know no name for a signal.\<close>

definition handleSignal :: "bool \<Rightarrow> nat \<Rightarrow> bytes option \<Rightarrow> unit tm" where
  "handleSignal error signalNum signalName =
     (if error then ret ()
      else
        bindM (say (''Exiting on signal '' @ (case signalName of None \<Rightarrow> decimal signalNum | Some s \<Rightarrow> s) @ newline)) (\<lambda>_.
        bindM stopTool (\<lambda>_. raise (ExitProcess 1))))"

section \<open>What is told of a submission\<close>

definition errorMsg :: bytes where
  "errorMsg = ''ERROR: Ledger cannot log the submitted record because of ''"

definition statusLine :: "append_status \<Rightarrow> bytes" where
  "statusLine st = (case st of
     SUCCESS \<Rightarrow> ''Submission Success!''
   | FAILURE_NACK \<Rightarrow> errorMsg @ ''Ledger Interest NACK''
   | FAILURE_STORAGE \<Rightarrow> errorMsg @ ''Internal storage error (ledger may have logged the same record)''
   | FAILURE_TIMEOUT \<Rightarrow> errorMsg @ ''Ledger Interest timeout''
   | FAILURE_VALIDATION_APP \<Rightarrow> errorMsg @ ''Submitted Record does not conform to trust schema''
   | FAILURE_VALIDATION_PROTO \<Rightarrow> errorMsg @ ''Submission Protocol Data does not conform to trust schema''
   | OtherStatus _ \<Rightarrow> errorMsg @ ''Unknown errors'') @ newline"

definition reportAck :: "append_env \<Rightarrow> data \<Rightarrow> unit tm" where
  "reportAck EC ack =
     bindM (liftE (parseBlock (envLib EC) (content ack))) (\<lambda>elems.
     bindM (forM (\<lambda>elem. bindM (liftE (nniOf (envLib EC) elem)) (\<lambda>status.
       say (statusLine (append_statusOf status)))) elems) (\<lambda>_.
     bindM (say (''Quit.'' @ newline)) (\<lambda>_. stopTool)))"

definition reportError :: "client_error \<Rightarrow> unit tm" where
  "reportError e = bindM (say (errorMsg @ errInfo e @ newline @ ''Quit.'' @ newline)) (\<lambda>_. stopTool)"

definition toolOutcome :: "append_env \<Rightarrow> outcome \<Rightarrow> unit tm" where
  "toolOutcome EC r = (case r of OnSuccess _ ack \<Rightarrow> reportAck EC ack | OnFailure _ e \<Rightarrow> reportError e)"

definition withClient :: "append_env \<Rightarrow> (client, 'a) cm \<Rightarrow> 'a tm" where
  "withClient EC m = (\<lambda>t. case toolClient t of
     None \<Rightarrow> raise (UndefinedBehaviour ''null client'') t
   | Some c \<Rightarrow> (case m c of (r, c') \<Rightarrow>
       bindM (forM (toolOutcome EC) (drop (length (outcomes c)) (outcomes c'))) (\<lambda>_. liftE r) (t\<lparr>toolClient := Some c'\<rparr>)))"

section \<open>Submission\<close>

definition submitRecord :: "append_env \<Rightarrow> name \<Rightarrow> name \<Rightarrow> data \<Rightarrow> unit tm" where
  "submitRecord EC caPrefix ledgerName d =
     bindM (say (''Submitting record to '' @ toUri (envLib EC) ledgerName @ ''...'' @ newline)) (\<lambda>_.
     bindM (modifyM (\<lambda>t. t\<lparr>toolClient := Some (newClient caPrefix)\<rparr>)) (\<lambda>_.
     bindM (withClient EC (appendData EC (ledgerName @ [generic ''append'']) [d])) (\<lambda>_. ret ())))"

definition registerPrefix :: "name \<Rightarrow> bytes \<Rightarrow> bytes \<Rightarrow> data \<Rightarrow> unit tm" where
  "registerPrefix clientName clientPre ledgerPre d =
     modifyM (\<lambda>t. t\<lparr>registering := registering t @ [(clientName, clientPre, ledgerPre, d)]\<rparr>)"

definition onRegistered :: "('i, 'k) tool_env \<Rightarrow> append_env \<Rightarrow> name \<times> bytes \<times> bytes \<times> data \<Rightarrow> unit tm" where
  "onRegistered E EC reg = (case reg of (clientName, clientPre, ledgerPre, d) \<Rightarrow>
     bindM (liftE (bindE (getIdentity (toolPib E) clientName) (\<lambda>ident.
       bindE (getDefaultKey (toolPib E) ident) (getDefaultCertificate (toolPib E))))) (\<lambda>clientCert.
     bindM (modifyM (\<lambda>t. t\<lparr>certFilters := certFilters t @ [clientCert]\<rparr>)) (\<lambda>_.
     bindM (liftE (parseName E clientPre)) (\<lambda>caPrefix. bindM (liftE (parseName E ledgerPre)) (\<lambda>ledgerName.
     submitRecord EC caPrefix ledgerName d)))))"

definition onRegisterFailure :: "append_env \<Rightarrow> name \<Rightarrow> bytes \<Rightarrow> unit tm" where
  "onRegisterFailure EC n reason = say (''Prefix registeration of '' @ toUri (envLib EC) n @ ''failed.'' @ newline
     @ ''Reason: '' @ reason @ newline @ ''Quit'' @ newline)"

definition onCertInterest :: "nat \<Rightarrow> unit tm" where
  "onCertInterest j = modifyM (\<lambda>t. t\<lparr>certsSent := certsSent t @ [certFilters t ! j]\<rparr>)"

section \<open>The main function\<close>

text \<open>Up to the event loop: the return code, or \<open>None\<close> when the loop is entered.\<close>

definition clientMain :: "('i, 'k) tool_env \<Rightarrow> bytes + tool_args \<Rightarrow> nat option tm" where
  "clientMain E parsed =
     bindM (clientArgs E parsed) (\<lambda>r. case r of Inl code \<Rightarrow> ret (Some code) | Inr a \<Rightarrow>
     bindM (argCertificate E a) (\<lambda>recordData.
     if the (ledgerArg a) \<noteq> [] then
       bindM (liftE (keyLocatorName E recordData)) (\<lambda>keyLocator.
       bindM (liftE (extractIdentityFromCertName (toolPib E) keyLocator)) (\<lambda>caPrefix.
       bindM (liftE (loadValidator E (the (validatorArg a)))) (\<lambda>_.
       bindM (liftE (parseName E (the (clientArg a)))) (\<lambda>clientName.
       bindM (registerPrefix clientName (the (clientArg a)) (the (ledgerArg a)) recordData) (\<lambda>_. ret None)))))
     else ret None))"

end
