(* ===== verification/Certificate_Theorems.thy ===== *)
theory Certificate_Theorems
  imports Certificate_Source Ndn_Tlv
begin

text \<open>
  Which certificate the tools take: the defaults where there is no choice, otherwise what the user types,
  and an exit of the process for anything that is no index.
\<close>

section \<open>Runs\<close>

definition typedChoice :: "'a list \<Rightarrow> bytes list \<Rightarrow> 'a option" where
  "typedChoice xs ls = (case stoul (case ls of [] \<Rightarrow> [] | l # _ \<Rightarrow> l) of
     Inl _ \<Rightarrow> None | Inr k \<Rightarrow> if k < length xs then Some (xs ! k) else None)"

definition answerTo :: "'a list \<Rightarrow> 'a \<Rightarrow> bytes list \<Rightarrow> 'a option \<times> bytes list" where
  "answerTo xs d ls = (if length xs > 1 then (typedChoice xs ls, tl ls) else (Some d, ls))"

lemma stoul_error: "stoul s = Inl e \<Longrightarrow> is_std_exception e"
  by (auto simp: stoul_def Let_def split: if_splits)

lemma say_run: "say t c = (Inr (), c\<lparr>errText := errText c @ t\<rparr>)"
  by (simp add: say_def modifyM_def)

lemma getLine_run: "getLine c = (Inr (case stdinLines c of [] \<Rightarrow> [] | l # _ \<Rightarrow> l), c\<lparr>stdinLines := tl (stdinLines c)\<rparr>)"
  by (cases c) (simp add: getLine_def split: list.splits)

lemma exitWith_run: "exitWith t c = (Inl (ExitProcess 1), c\<lparr>errText := errText c @ t @ newline\<rparr>)"
  by (simp add: exitWith_def bindM_def say_run raise_def)

lemma chooseIndex_run:
  "\<exists>t. chooseIndex (length xs) c = (case typedChoice [0..<length xs] (stdinLines c) of None \<Rightarrow> Inl (ExitProcess 1) | Some k \<Rightarrow> Inr k,
     c\<lparr>stdinLines := tl (stdinLines c), errText := t\<rparr>)"
proof -
  let ?l = "case stdinLines c of [] \<Rightarrow> [] | l # _ \<Rightarrow> l"
  show ?thesis
    by (rule exI [of _ "errText (snd (chooseIndex (length xs) c))"], cases "stoul ?l")
       (simp_all add: chooseIndex_def bindM_def say_run getLine_run liftE_def catchM_def exitWith_run stoul_error typedChoice_def ret_def
         del: upt_Suc)
qed

lemma stepTitle_run: "\<exists>t. stepTitle s c = (Inr (), c\<lparr>errText := t, nStep := nStep c + 1\<rparr>)"
  by (simp add: stepTitle_def bindM_def say_run getsM_def modifyM_def) (rule exI, rule refl)

text \<open>The list of choices.\<close>

lemma listing:
  assumes "\<And>n x c. x \<in> set xs \<Longrightarrow> \<exists>t. m n x c = (Inr (n + 1), c\<lparr>errText := t\<rparr>)"
  shows "\<exists>t. foldM m n xs c = (Inr (n + length xs), (c :: 'c console_scheme)\<lparr>errText := t\<rparr>)"
  using assms
proof (induction xs arbitrary: n c)
  case Nil
  show ?case by (rule exI [of _ "errText c"]) (simp add: ret_def)
next
  case (Cons x xs)
  obtain t where t: "m n x c = (Inr (n + 1), c\<lparr>errText := t\<rparr>)" using Cons.prems by fastforce
  obtain t' where "foldM m (n + 1) xs (c\<lparr>errText := t\<rparr>) = (Inr (n + 1 + length xs), c\<lparr>errText := t\<rparr>\<lparr>errText := t'\<rparr>)"
    using Cons.IH [of "n + 1" "c\<lparr>errText := t\<rparr>"] Cons.prems by (metis list.set_intros(2))
  then show ?case using t by (intro exI [of _ t']) (simp add: bindM_def)
qed

lemma capture_run:
  assumes "\<And>n x c. x \<in> set xs \<Longrightarrow> \<exists>t. m n x c = (Inr (n + 1), c\<lparr>errText := t\<rparr>)"
  shows "\<exists>c'. bindM (stepTitle s) (\<lambda>_. bindM (foldM m 0 xs) (\<lambda>count. bindM (chooseIndex count) (\<lambda>k. ret (f (xs ! k))))) c =
      (case typedChoice xs (stdinLines c) of None \<Rightarrow> Inl (ExitProcess 1) | Some x \<Rightarrow> Inr (f x), c')
    \<and> stdinLines c' = tl (stdinLines c)"
proof -
  obtain t where t: "stepTitle s c = (Inr (), c\<lparr>errText := t, nStep := nStep c + 1\<rparr>)" using stepTitle_run by blast
  define c1 where "c1 = c\<lparr>errText := t, nStep := nStep c + 1\<rparr>"
  obtain t' where t': "foldM m 0 xs c1 = (Inr (length xs), c1\<lparr>errText := t'\<rparr>)" using listing [of xs m 0 c1] assms by auto
  obtain t'' where "chooseIndex (length xs) (c1\<lparr>errText := t'\<rparr>) =
      (case typedChoice [0..<length xs] (stdinLines c1) of None \<Rightarrow> Inl (ExitProcess 1) | Some k \<Rightarrow> Inr k,
       c1\<lparr>stdinLines := tl (stdinLines c1), errText := t''\<rparr>)"
    using chooseIndex_run [of xs "c1\<lparr>errText := t'\<rparr>"] by auto
  then show ?thesis
    using t t' by (auto simp: bindM_def c1_def [symmetric] typedChoice_def ret_def split: sum.splits list.splits)
       (simp_all add: c1_def)
qed

lemma captureKeyName_run:
  assumes "getDefaultKey P i = Inr d"
  shows "\<exists>c'. captureKeyName P L i c = (case typedChoice (getKeys P i) (stdinLines c) of
      None \<Rightarrow> Inl (ExitProcess 1) | Some k \<Rightarrow> Inr (keyName P k), c') \<and> stdinLines c' = tl (stdinLines c)"
  unfolding captureKeyName_def
  by (rule capture_run) (auto simp: showKeyChoice_def bindM_def say_run liftE_def assms ret_def)

lemma captureCertName_run:
  assumes "getDefaultCertificate P k = Inr d"
  shows "\<exists>c'. captureCertName P L k c = (case typedChoice (getCertificates P k) (stdinLines c) of
      None \<Rightarrow> Inl (ExitProcess 1) | Some d \<Rightarrow> Inr (dataName d), c') \<and> stdinLines c' = tl (stdinLines c)"
  unfolding captureCertName_def
  by (rule capture_run) (auto simp: showCertChoice_def bindM_def say_run liftE_def assms ret_def)

section \<open>The certificate that is taken\<close>

lemma by_name:
  assumes "pib_ok P" and "getIdentity P n = Inr i" and "k \<in> set (getKeys P i)" and "d \<in> set (getCertificates P k)"
  shows "getCertificateFromPib P L (dataName d) False False True c = (Inr d, c)"
proof -
  have "certificateByName P (dataName d) = Inr d"
    using assms unfolding pib_ok_def certificateByName_def by fastforce
  then show ?thesis by (simp add: getCertificateFromPib.simps liftE_def)
qed

lemma by_key:
  assumes "pib_ok P" and "getIdentity P n = Inr i" and "k \<in> set (getKeys P i)" and "getDefaultCertificate P k = Inr d"
    and "(cert, ls) = answerTo (getCertificates P k) d (stdinLines c)"
  shows "\<exists>c'. getCertificateFromPib P L (keyName P k) False True b c = (case cert of None \<Rightarrow> Inl (ExitProcess 1) | Some x \<Rightarrow> Inr x, c')
    \<and> stdinLines c' = ls \<and> (\<forall>x. cert = Some x \<longrightarrow> x \<in> set (getCertificates P k))"
proof -
  have key: "bindE (extractIdentityFromKeyName P (keyName P k)) (\<lambda>idName.
      bindE (getIdentity P idName) (\<lambda>ident. getKey P ident (keyName P k))) = Inr k"
    and d: "d \<in> set (getCertificates P k)"
    using assms(1-4) unfolding pib_ok_def by fastforce+
  note named = by_name [OF assms(1-3)]
  show ?thesis
  proof (cases "length (getCertificates P k) > 1")
    case True
    obtain c1 where "captureCertName P L k c = (case typedChoice (getCertificates P k) (stdinLines c) of
      None \<Rightarrow> Inl (ExitProcess 1) | Some d \<Rightarrow> Inr (dataName d), c1)" "stdinLines c1 = tl (stdinLines c)"
      using captureCertName_run [OF assms(4)] by blast
    moreover have "x \<in> set (getCertificates P k)" if "typedChoice (getCertificates P k) (stdinLines c) = Some x" for x
      using that by (auto simp: typedChoice_def split: sum.splits if_splits)
    ultimately show ?thesis
      using True assms(5) named [where c = c1 and L = L]
      by (subst getCertificateFromPib.simps) (auto simp: key bindM_def liftE_def answerTo_def split: option.split)
  next
    case False
    then show ?thesis
      using assms(4,5) named [where c = c and L = L, OF d] d
      by (subst getCertificateFromPib.simps) (simp add: key bindM_def liftE_def answerTo_def)
  qed
qed

text \<open>C38: the certificate of an identity. With one key, or one certificate of a key, it is the default;
  otherwise the user's next line says which, by its index. A line that is no number, or not one of the
  indices, ends the process. What is returned is always a certificate of a key of the identity.\<close>

theorem certificate_chosen:
  assumes "pib_ok P" and "getIdentity P n = Inr i" and "getDefaultKey P i = Inr dk"
    and "\<forall>k \<in> set (getKeys P i). getDefaultCertificate P k = Inr (dflt k)"
    and "(key, ls) = answerTo (getKeys P i) dk (stdinLines c)"
    and "(cert, ls') = (case key of None \<Rightarrow> (None, ls) | Some k \<Rightarrow> answerTo (getCertificates P k) (dflt k) ls)"
  shows "\<exists>c'. getCertificateFromPib P L n True b b' c = (case cert of None \<Rightarrow> Inl (ExitProcess 1) | Some d \<Rightarrow> Inr d, c')
    \<and> stdinLines c' = ls' \<and> (\<forall>d. cert = Some d \<longrightarrow> (\<exists>k \<in> set (getKeys P i). d \<in> set (getCertificates P k)))"
proof (cases key)
  case None
  then have c: "length (getKeys P i) > 1" "typedChoice (getKeys P i) (stdinLines c) = None" "ls = tl (stdinLines c)"
    using assms(5) by (auto simp: answerTo_def split: if_splits)
  then obtain c1 where "captureKeyName P L i c = (Inl (ExitProcess 1), c1)" "stdinLines c1 = ls"
    using captureKeyName_run [OF assms(3), of L c] by auto
  then show ?thesis
    using None c assms(2,6) by (subst getCertificateFromPib.simps) (simp add: bindM_def liftE_def)
next
  case (Some k)
  have k: "k \<in> set (getKeys P i)"
    using Some assms(1,2,3,5) by (auto simp: answerTo_def typedChoice_def pib_ok_def split: if_splits sum.splits)
  obtain c1 where c1: "stdinLines c1 = ls" "getCertificateFromPib P L n True b b' c = getCertificateFromPib P L (keyName P k) False True False c1"
  proof (cases "length (getKeys P i) > 1")
    case True
    then have c: "typedChoice (getKeys P i) (stdinLines c) = Some k" "ls = tl (stdinLines c)"
      using assms(5) Some by (auto simp: answerTo_def)
    then obtain c1 where "captureKeyName P L i c = (Inr (keyName P k), c1)" "stdinLines c1 = ls"
      using captureKeyName_run [OF assms(3), of L c] by auto
    then show ?thesis
      using True assms(2) by (intro that [of c1]) (simp, subst getCertificateFromPib.simps, simp add: bindM_def liftE_def)
  next
    case False
    then show ?thesis
      using assms(2,3,5) Some
      by (intro that [of c]) (simp add: answerTo_def, subst getCertificateFromPib.simps, simp add: bindM_def liftE_def answerTo_def)
  qed
  have "(cert, ls') = answerTo (getCertificates P k) (dflt k) (stdinLines c1)" using assms(6) Some c1(1) by simp
  with by_key [OF assms(1,2) k] assms(4) k c1(2) show ?thesis by metis
qed

text \<open>A PIB with one identity that has two keys: the second one has two certificates.\<close>

definition demoPibCert :: "string \<Rightarrow> string \<Rightarrow> data" where
  "demoPibCert k v = \<lparr>dataName = map generic [''bob'', ''KEY'', k, ''i'', v], contentType = 2,
     content = Block tlv_Content ''c'', freshness = 1000, finalBlock = None, signature = ''s''\<rparr>"

definition demoPib :: "(unit, name \<times> data list) pib" where
  "demoPib = \<lparr>getIdentity = (\<lambda>n. if n = [generic ''bob''] then Inr () else Inl (StdException ''Pib::Error'')),
     getKeys = (\<lambda>_. map (\<lambda>(k, vs). (map generic [''bob'', ''KEY'', k], map (demoPibCert k) vs)) [(''a'', [''1'']), (''b'', [''1'', ''2''])]),
     getDefaultKey = (\<lambda>_. Inr (map generic [''bob'', ''KEY'', ''a''], [demoPibCert ''a'' ''1''])),
     getKey = (\<lambda>_ n. of_option (StdException ''Pib::Error'') (map_option (Pair n) (map_of
       [(map generic [''bob'', ''KEY'', ''a''], [demoPibCert ''a'' ''1'']),
        (map generic [''bob'', ''KEY'', ''b''], [demoPibCert ''b'' ''1'', demoPibCert ''b'' ''2''])] n))),
     keyName = fst, getCertificates = snd, getDefaultCertificate = (\<lambda>k. Inr (hd (snd k))),
     getCertificate = (\<lambda>k n. of_option (StdException ''Pib::Error'') (find (\<lambda>d. dataName d = n) (snd k))),
     extractIdentityFromKeyName = (\<lambda>n. Inr (take (length n - 2) n)),
     extractIdentityFromCertName = (\<lambda>n. Inr (take (length n - 4) n)),
     extractKeyNameFromCertName = (\<lambda>n. Inr (take (length n - 2) n))\<rparr>"

lemma demo_pib: "pib_ok demoPib"
  by (simp add: pib_ok_def demoPib_def demoPibCert_def generic_def)

definition demoConsole :: "bytes list \<Rightarrow> console" where
  "demoConsole ls = \<lparr>stdinLines = ls, errText = [], outText = [], nStep = 0\<rparr>"

theorem certificate_chosen_witness:
  "(\<exists>c'. getCertificateFromPib demoPib ndnTlv [generic ''bob''] True False False (demoConsole [''1'', '' 0x'']) =
      (Inr (demoPibCert ''b'' ''1''), c') \<and> stdinLines c' = [])
   \<and> (\<exists>c'. getCertificateFromPib demoPib ndnTlv [generic ''bob''] True False False (demoConsole [''1'', ''-1'']) = (Inl (ExitProcess 1), c'))
   \<and> (\<exists>c'. getCertificateFromPib demoPib ndnTlv [generic ''bob''] True False False (demoConsole [''0'']) = (Inr (demoPibCert ''a'' ''1''), c'))"
proof -
  have lib: "getIdentity demoPib [generic ''bob''] = Inr ()"
    "getDefaultKey demoPib () = Inr (getKeys demoPib () ! 0)" "length (getKeys demoPib ()) = 2"
    "\<forall>k \<in> set (getKeys demoPib ()). getDefaultCertificate demoPib k = Inr (hd (snd k))"
    by (simp_all add: demoPib_def)
  note all = certificate_chosen [where L = ndnTlv and b = False and b' = False, OF demo_pib lib(1,2,4)]
  let ?ks = "getKeys demoPib ()"
  have no: "stoul ''1'' = Inr 1" "stoul '' 0x'' = Inr 0" "stoul ''-1'' = Inr (2 ^ 64 - 1)" "stoul ''0'' = Inr 0"
    by (simp_all add: stoul_def Let_def isSpace_def isDigit_def digitsValue_def)
  have certs: "getCertificates demoPib (?ks ! Suc 0) = [demoPibCert ''b'' ''1'', demoPibCert ''b'' ''2'']"
    "getCertificates demoPib (?ks ! 0) = [demoPibCert ''a'' ''1'']" "hd (snd (?ks ! 0)) = demoPibCert ''a'' ''1''"
    by (simp_all add: demoPib_def)
  have keys: "(Some (?ks ! 1), ls) = answerTo ?ks (?ks ! 0) (stdinLines (demoConsole (''1'' # ls)))"
    "(Some (?ks ! 0), ls) = answerTo ?ks (?ks ! 0) (stdinLines (demoConsole (''0'' # ls)))" for ls
    using lib(3) by (simp_all add: answerTo_def typedChoice_def demoConsole_def no)
  show ?thesis
    using all [OF keys(1), of "Some (demoPibCert ''b'' ''1'')" "[]" "['' 0x'']"] all [OF keys(1), of None "[]" "[''-1'']"]
      all [OF keys(2), of "Some (demoPibCert ''a'' ''1'')" "[]" "[]"]
    by (simp add: answerTo_def certs typedChoice_def no) blast
qed

end
