(* ===== verification/Client_Theorems.thy ===== *)
theory Client_Theorems
  imports Client_Tool Append_Theorems Certificate_Theorems
begin

text \<open>
  The client tool and the ledger: a certificate named on the command line ends up in the ledger, and the
  tool tells the user what the ledger said of it, in its words for each status.
\<close>

section \<open>What the user is told\<close>

definition toldOf :: "append_status list \<Rightarrow> bytes" where
  "toldOf ss = concat (map statusLine ss) @ ''Quit.'' @ newline"

lemma say_statuses:
  assumes "tlv_codec (envLib EC)" and "list_all wf_append_status ss"
  shows "forM (\<lambda>elem. bindM (liftE (nniOf (envLib EC) elem)) (\<lambda>status. say (statusLine (append_statusOf status))))
      (map (\<lambda>st. nniBlock (envLib EC) TLV_AppendStatusCode (append_code st)) ss) t
    = (Inr (), (t :: client_tool)\<lparr>errText := errText t @ concat (map statusLine ss)\<rparr>)"
  using assms(2)
proof (induction ss arbitrary: t)
  case (Cons st ss)
  then have "nniOf (envLib EC) (nniBlock (envLib EC) TLV_AppendStatusCode (append_code st)) = Inr (append_code st)"
    "append_statusOf (append_code st) = st"
    using tlv_codec.nniOf_nniBlock [OF assms(1)] by (simp_all add: wf_append_status_def)
  then show ?case using Cons by (simp add: bindM_def liftE_def say_run)
qed (simp add: ret_def)

lemma reportAck_run:
  assumes "tlv_codec (envLib EC)" and "content ack = content (makeNotificationAck (envLib EC) opts ss)" and "list_all wf_append_status ss"
  shows "reportAck EC ack t = (Inr (), t\<lparr>errText := errText t @ toldOf ss, ioStopped := True\<rparr>)"
proof -
  have "parseBlock (envLib EC) (content ack) = Inr (map (\<lambda>st. nniBlock (envLib EC) TLV_AppendStatusCode (append_code st)) ss)"
    using tlv_codec.parseBlock_encodeBlock [OF assms(1)] assms(2) by (simp add: makeNotificationAck_def append_tlv list_all_iff)
  then have "liftE (parseBlock (envLib EC) (content ack)) t =
      (Inr (map (\<lambda>st. nniBlock (envLib EC) TLV_AppendStatusCode (append_code st)) ss), t)" by (simp add: liftE_def)
  then show ?thesis
    unfolding reportAck_def
    by (simp add: bindM_Inr say_statuses [OF assms(1,3), THEN bindM_Inr] say_run stopTool_def modifyM_def toldOf_def)
qed

lemma toolOutcome_success: "toolOutcome EC (OnSuccess ds ack) = reportAck EC ack"
  by (simp add: toolOutcome_def)

lemma withClient_run:
  assumes "toolClient t = Some c" and "m c = (Inr x, c')"
  shows "outcomes c' = outcomes c \<Longrightarrow> withClient EC m t = (Inr x, t\<lparr>toolClient := Some c'\<rparr>)"
    and "outcomes c' = outcomes c @ [r] \<Longrightarrow> toolOutcome EC r (t\<lparr>toolClient := Some c'\<rparr>) = (Inr (), t') \<Longrightarrow> withClient EC m t = (Inr x, t')"
  using assms by (simp_all add: withClient_def bindM_def ret_def liftE_def)

section \<open>From the command line to the answer\<close>

definition toolSent :: "client_tool \<Rightarrow> sent list" where
  "toolSent t = (case toolClient t of None \<Rightarrow> [] | Some c \<Rightarrow> sentPackets c)"

text \<open>The tool starts, the face registers its prefix, and its client appends.\<close>

definition toolStart :: "('i, 'k) tool_env \<Rightarrow> append_env \<Rightarrow> bytes + tool_args \<Rightarrow> unit tm" where
  "toolStart E EC parsed = bindM (clientMain E parsed) (\<lambda>r. if r = None then
     bindM (getsM (last \<circ> registering)) (onRegistered E EC) else ret ())"

definition toolExchange :: "('i, 'k) tool_env \<Rightarrow> append_env \<Rightarrow> append_env \<Rightarrow> 'u update \<Rightarrow> bytes + tool_args
    \<Rightarrow> (client_tool, 'u append_ledger, unit) both" where
  "toolExchange E EC EL onUpdate parsed =
     conversation (toolStart E EC parsed) (\<lambda>i. withClient EC (onFetch EC i)) (\<lambda>a. withClient EC (onAck EC 0 a)) toolSent EL onUpdate"

definition submits :: "tool_args \<Rightarrow> bytes \<Rightarrow> bytes \<Rightarrow> bool" where
  "submits a clientPre ledgerPre \<longleftrightarrow> \<not> helpGiven a \<and> nameArg a \<noteq> None \<and> ledgerArg a = Some ledgerPre \<and> ledgerPre \<noteq> []
     \<and> clientArg a = Some clientPre \<and> validatorArg a \<noteq> None \<and> nIsNameOptions a \<le> 1"

text \<open>What the tool needs of its surroundings: names that can be read, a key locator, a validator's
  configuration, and a certificate of the client.\<close>

definition tool_ready :: "('i, 'k) tool_env \<Rightarrow> tool_args \<Rightarrow> data \<Rightarrow> bytes \<Rightarrow> bytes \<Rightarrow> name \<Rightarrow> name \<Rightarrow> data \<Rightarrow> bool" where
  "tool_ready E a d clientPre ledgerPre pfx lname clientCert \<longleftrightarrow> parseName E clientPre = Inr pfx \<and> parseName E ledgerPre = Inr lname
     \<and> (\<exists>kl n. keyLocatorName E d = Inr kl \<and> extractIdentityFromCertName (toolPib E) kl = Inr n)
     \<and> loadValidator E (the (validatorArg a)) = Inr ()
     \<and> (\<exists>ident key. getIdentity (toolPib E) pfx = Inr ident \<and> getDefaultKey (toolPib E) ident = Inr key
        \<and> getDefaultCertificate (toolPib E) key = Inr clientCert)"

lemma toolStart_run:
  assumes "submits a clientPre ledgerPre" and "tool_ready E a d clientPre ledgerPre pfx lname clientCert"
    and "argCertificate E a t = (Inr d, t1)" and "appendData EC (lname @ [generic ''append'']) [d] (newClient pfx) = (Inr n, c1)"
    and "outcomes c1 = []"
  shows "toolStart E EC (Inr a) t = (Inr (), t1\<lparr>registering := registering t1 @ [(pfx, clientPre, ledgerPre, d)],
    certFilters := certFilters t1 @ [clientCert],
    errText := errText t1 @ ''Submitting record to '' @ toUri (envLib EC) lname @ ''...'' @ newline, toolClient := Some c1\<rparr>)"
proof -
  have "clientArgs E (Inr a) t = (Inr (Inr a), t)"
    using assms(1) by (auto simp: clientArgs_def submits_def ret_def)
  then have main: "clientMain E (Inr a) t = (Inr None, t1\<lparr>registering := registering t1 @ [(pfx, clientPre, ledgerPre, d)]\<rparr>)"
    using assms(1-3) by (auto simp: clientMain_def bindM_def liftE_def registerPrefix_def modifyM_def ret_def submits_def tool_ready_def)
  have new: "outcomes (newClient pfx) = []" by (simp add: newClient_def)
  have "withClient EC (appendData EC (lname @ [generic ''append'']) [d]) u = (Inr n, u\<lparr>toolClient := Some c1\<rparr>)"
    if "toolClient u = Some (newClient pfx)" for u
    using withClient_run(1) [where m = "appendData EC (lname @ [generic ''append'']) [d]" and EC = EC, OF that assms(4)] assms(5) new by simp
  then show ?thesis
    using assms(2) by (auto simp: toolStart_def main bindM_def getsM_def onRegistered_def liftE_def modifyM_def ret_def
        submitRecord_def say_run tool_ready_def)
qed

text \<open>C2: the client tool from the command line to its last word. Given a certificate that the ledger's
  validator accepts and that is new there, the tool registers its prefix, appends, and when the exchange is
  over the ledger has recorded the certificate; the user is told success, and the tool stops.\<close>

theorem client_tool_submits:
  assumes "submits a clientPre ledgerPre" and "tool_ready E a d clientPre ledgerPre pfx lname clientCert"
    and "argCertificate E a (newClientTool input) = (Inr d, t1)"
    and "append_setting EC" and "append_setting EL" and "envLib EL = envLib EC"
    and "\<And>x. envValidate EC x = Valid" and "\<And>x. envValidate EL x = Valid"
    and "wf_data d" and "dataName d \<noteq> []" and "wf_name lname" and "wf_name pfx" and "alTopic s = lname @ [generic ''append'']"
    and "ledger_setup M C ok" and "prefix_ok M" and "ledger_inv M C ok (user s)" and "validate M d = Some True"
    and "new_submission M (C (store (user s))) d (nextSync M (user s))"
    and "has_room (stateGraph (lib M) C (user s)) (Submit d)"
  shows "\<exists>t' s'. toolExchange E EC EL (onDataSubmission M) (Inr a) (newClientTool input, s) = (Inr (), (t', s'))
    \<and> submitted M C d (user s) (user s') \<and> ledger_inv M C ok (user s')
    \<and> errText t' = errText t1 @ ''Submitting record to '' @ toUri (envLib EC) lname @ ''...'' @ newline
        @ ''Submission Success!'' @ newline @ ''Quit.'' @ newline
    \<and> ioStopped t' \<and> certFilters t' = certFilters t1 @ [clientCert]"
proof -
  obtain u where u: "onDataSubmission M d (user s) = (Inr SUCCESS, u)" "submitted M C d (user s) u" "ledger_inv M C ok u"
    using submission_run [OF assms(14-19)] by (auto simp: runs_def)
  have upd: "updateAll (onDataSubmission M) [d] (user s) = (Inr [SUCCESS], u)"
    by (simp add: updateAll_def bindM_def u(1) ret_def)
  have ds: "[d] \<noteq> []" "dataName (hd [d]) \<noteq> []" "list_all wf_data [d]" "lname @ [generic ''append''] \<noteq> []"
    "wf_name (lname @ [generic ''append''])" using assms(9-11) by simp_all
  obtain n c1 i k s1 f c2 sub s2 ack c3 opts where st: "appendData EC (lname @ [generic ''append'']) [d] (newClient pfx) = (Inr n, c1)"
    "last (sentPackets c1) = Express i" "onNotification EL i s = (Inr k, s1)" "last (alSent s1) = Express f" "onFetch EC f c1 = (Inr (), c2)"
    "last (sentPackets c2) = Send sub" "onSubmission EL (onDataSubmission M) k sub s1 = (Inr (), s2)" "last (alSent s2) = Send ack"
    "onAck EC 0 ack c2 = (Inr (), c3)" "user s2 = u"
    and out: "outcomes c1 = []" "outcomes c2 = []" "outcomes c3 = [OnSuccess [d] ack]"
      "content ack = content (makeNotificationAck (envLib EC) opts [SUCCESS])"
    using exchange_steps [OF assms(4-8) ds(1-5) assms(12,13) upd] by auto
  have tlv: "tlv_codec (envLib EC)" using assms(4) by (simp add: append_setting_def ndn_codec_def)
  obtain t2 where t2: "toolStart E EC (Inr a) (newClientTool input) = (Inr (), t2)" "toolClient t2 = Some c1"
    "certFilters t2 = certFilters t1 @ [clientCert]"
    "errText t2 = errText t1 @ ''Submitting record to '' @ toUri (envLib EC) lname @ ''...'' @ newline"
    using toolStart_run [OF assms(1-3) st(1) out(1)] by auto
  define t3 where "t3 = t2\<lparr>toolClient := Some c2\<rparr>"
  have t3: "withClient EC (onFetch EC f) t2 = (Inr (), t3)" "toolClient t3 = Some c2"
    using withClient_run(1) [where m = "onFetch EC f" and EC = EC, OF t2(2) st(5)] out by (simp_all add: t3_def)
  define t4 where "t4 = t3\<lparr>toolClient := Some c3, errText := errText t3 @ toldOf [SUCCESS], ioStopped := True\<rparr>"
  have "withClient EC (onAck EC 0 ack) t3 = (Inr (), t4)"
    by (rule withClient_run(2) [where m = "onAck EC 0 ack" and r = "OnSuccess [d] ack", OF t3(2) st(9)]) (simp_all add: out toolOutcome_success reportAck_run [OF tlv out(4)] t4_def)
  then have "toolExchange E EC EL (onDataSubmission M) (Inr a) (newClientTool input, s) = (Inr (), (t4, s2))"
    unfolding toolExchange_def using st t2 t3 by (intro conversation_run) (simp_all add: toolSent_def)
  then show ?thesis
    using u st(10) t2 by (intro exI [of _ t4] exI [of _ s2]) (simp add: t4_def t3_def toldOf_def statusLine_def)
qed

definition demoToolEnv :: "(unit, name \<times> data list) tool_env" where
  "demoToolEnv = \<lparr>toolLib = ndnTlv, toolPib = demoPib,
     toolFiles = \<lparr>openFile = (\<lambda>f. if f = ''bob.cert'' then Some ''base64'' else None), stdinAll = [], loadTlv = (\<lambda>_. Inr demoCert)\<rparr>,
     parseName = (\<lambda>s. Inr [generic s]), keyLocatorName = (\<lambda>d. Inr (dataName d)), loadValidator = (\<lambda>_. Inr ()), usage = []\<rparr>"

definition demoArgs :: tool_args where
  "demoArgs = \<lparr>helpGiven = False, nameArg = Some ''bob.cert'', ledgerArg = Some ''ledger'', clientArg = Some ''bob'',
     validatorArg = Some ''schema'', isIdentityName = False, isKeyName = False, isFileName = True\<rparr>"

theorem client_tool_submits_witness:
  "\<exists>t' s'. toolExchange demoToolEnv demoEnv demoEnv (onDataSubmission demoLedger) (Inr demoArgs)
      (newClientTool [], newAppendLedger [generic ''ledger''] [generic ''ledger'', generic ''append''] demoStart) = (Inr (), (t', s'))
    \<and> submitted demoLedger (\<lambda>m. m) demoCert demoStart (user s') \<and> ioStopped t'"
proof -
  let ?s = "newAppendLedger [generic ''ledger''] [generic ''ledger'', generic ''append''] demoStart"
  have ready: "submits demoArgs ''bob'' ''ledger''"
    "tool_ready demoToolEnv demoArgs demoCert ''bob'' ''ledger'' [generic ''bob''] [generic ''ledger''] (demoPibCert ''a'' ''1'')"
    "argCertificate demoToolEnv demoArgs (newClientTool []) = (Inr demoCert, newClientTool [])"
    by (simp_all add: submits_def tool_ready_def demoArgs_def demoToolEnv_def nIsNameOptions_def demoPib_def argCertificate_def
        liftE_def loadFromFile_def)
  have s: "user ?s = demoStart" "alTopic ?s = [generic ''ledger''] @ [generic ''append'']" by (simp_all add: newAppendLedger_def)
  have d: "wf_data demoCert" "dataName demoCert \<noteq> []" "validate demoLedger demoCert = Some True"
    by (simp_all add: wf_data_def demoCert_def tlv_Content_def)
  note submits = client_tool_submits [where s = ?s and M = demoLedger and C = "\<lambda>m. m" and ok = "\<lambda>_. True" and EL = demoEnv,
    OF ready demo_env(1) demo_env(1) refl demo_env(2) demo_env(2) d(1,2) _ _ s(2) demo_ledger demo_prefix]
  have "wf_name [generic ''ledger'']" "wf_name [generic ''bob'']" by simp_all
  then show ?thesis using submits s d demo_inv demo_new demo_room by (simp del: demoLedger_simps add: demoLedger_simps(1)) blast
qed

end
