(* ===== verification/Checker_Tool.thy ===== *)
theory Checker_Tool
  imports Checker Tool_Arguments
begin

text \<open>
  The checker tool (\<open>tools/ndncledger-checker\<close>): asks a ledger whether it has a record for a certificate and
  tells the user the result. The state is the console and the tool's global variables: the \<open>Checker\<close> and
  whether the event loop was told to stop. \<open>withChecker\<close> runs an operation of the checker and then the tool's
  callbacks that it called, which write one line and stop the loop.
\<close>

record checker_tool = console +
  toolChecker :: "checker seg_consumer pipeline option"
  checkStopped :: bool

type_synonym 'a ktm = "(checker_tool, 'a) cm"

definition newCheckerTool :: "bytes list \<Rightarrow> checker_tool" where
  "newCheckerTool input = \<lparr>stdinLines = input, errText = [], outText = [], nStep = 0, toolChecker = None, checkStopped = False\<rparr>"

definition stopChecking :: "unit ktm" where
  "stopChecking = modifyM (\<lambda>t. t\<lparr>checkStopped := True\<rparr>)"

definition onSuccess :: "data \<Rightarrow> block \<Rightarrow> unit ktm" where
  "onSuccess d b = bindM (say (''SUCCESS! '' @ newline)) (\<lambda>_. stopChecking)"

definition onFailure :: "data \<Rightarrow> client_error \<Rightarrow> unit ktm" where
  "onFailure d e = bindM (say (''ERROR: Failed because of: '' @ errorText e @ newline)) (\<lambda>_. stopChecking)"

definition toolResult :: "check_result \<Rightarrow> unit ktm" where
  "toolResult r = (case r of CheckSuccess d b \<Rightarrow> onSuccess d b | CheckFailure d e \<Rightarrow> onFailure d e)"

definition resultsOf :: "checker seg_consumer pipeline \<Rightarrow> check_result list" where
  "resultsOf p = checkResults (owner (consumer p))"

definition withChecker :: "'a chp \<Rightarrow> 'a ktm" where
  "withChecker m = (\<lambda>t. case toolChecker t of
     None \<Rightarrow> raise (UndefinedBehaviour ''null checker'') t
   | Some p \<Rightarrow> (case m p of (r, p') \<Rightarrow>
       bindM (forM toolResult (drop (length (resultsOf p)) (resultsOf p'))) (\<lambda>_. liftE r) (t\<lparr>toolChecker := Some p'\<rparr>)))"

definition checkRecords :: "data \<Rightarrow> name \<Rightarrow> unit ktm" where
  "checkRecords cert ledgerName =
     bindM (modifyM (\<lambda>t. t\<lparr>toolChecker := Some newChecker\<rparr>)) (\<lambda>_.
     bindM (withChecker (atChecker (doCheck ledgerName cert))) (\<lambda>_. ret ()))"

definition checkerArgs :: "('i, 'k) tool_env \<Rightarrow> bytes + tool_args \<Rightarrow> ('c, nat + tool_args) om" where
  "checkerArgs E parsed = (case parsed of
     Inl what \<Rightarrow> badOptions (usage E) what
   | Inr a \<Rightarrow>
     if helpGiven a then bindM (sayOut (usage E @ newline)) (\<lambda>_. ret (Inl 0))
     else if nameArg a = None then refuse ''you must specify a name''
     else if ledgerArg a = None then refuse ''you must specify a ledger prefix''
     else if nIsNameOptions a > 1 then
       refuse (''at most one of '' @ quoted ''--identity'' @ '', '' @ quoted ''--key'' @ '', or '' @ quoted ''--file'' @ '' may be specified'')
     else ret (Inr a))"

text \<open>Up to the event loop: the return code, or \<open>None\<close> when the loop is entered. Without a validator's file
  the string is empty.\<close>

definition checkerMain :: "('i, 'k) tool_env \<Rightarrow> bytes + tool_args \<Rightarrow> nat option ktm" where
  "checkerMain E parsed =
     bindM (checkerArgs E parsed) (\<lambda>r. case r of Inl code \<Rightarrow> ret (Some code) | Inr a \<Rightarrow>
     bindM (argCertificate E a) (\<lambda>certificate.
     bindM (say (''Checking '' @ toUri (toolLib E) (dataName certificate) @ ''...'' @ newline)) (\<lambda>_.
     bindM (liftE (loadValidator E (case validatorArg a of None \<Rightarrow> [] | Some f \<Rightarrow> f))) (\<lambda>_.
     bindM (liftE (parseName E (the (ledgerArg a)))) (\<lambda>ledgerName.
     bindM (checkRecords certificate ledgerName) (\<lambda>_. ret None))))))"

end
