(* ===== verification/Ledger_Tool.thy ===== *)
theory Ledger_Tool
  imports Ledger_Module Tool_Arguments
begin

text \<open>
  The ledger tool (\<open>tools/ndncledger-ledger\<close>): reads its two options and constructs a \<open>LedgerModule\<close>, which
  loads its configuration and chooses storage and policy; the module's handlers are in \<open>Ledger_Module\<close>.
\<close>

record ledger_args =
  ledgerHelp :: bool
  configFilePath :: bytes
  backoffPeriodStr :: bytes

text \<open>The default values of the options, given the directory of configurations.\<close>

definition defaultArgs :: "bytes \<Rightarrow> ledger_args" where
  "defaultArgs sysconf = \<lparr>ledgerHelp = False, configFilePath = sysconf @ ''/cledger/cledger.config'', backoffPeriodStr = decimal 3600\<rparr>"

text \<open>What the constructor makes: the configuration, the storage backend, the policy and the reply period, a
  64-bit number of milliseconds.\<close>

record ledger_setting =
  setConfig :: ledger_config
  setStorage :: storage_class
  setPolicy :: policy_class
  setPeriod :: "64 word"

definition constructModule :: "json_lib \<Rightarrow> (bytes \<Rightarrow> exn + unit) \<Rightarrow> bytes \<Rightarrow> 64 word \<Rightarrow> exn + ledger_setting" where
  "constructModule J loadSchemaFile configPath period = (case load J configPath default_config of
     (Inl e, _) \<Rightarrow> Inl e
   | (Inr _, c) \<Rightarrow>
     bindE (loadSchemaFile (schemaFile c)) (\<lambda>_.
     bindE (createModules c) (\<lambda>(s, p).
     Inr \<lparr>setConfig = c, setStorage = s, setPolicy = p, setPeriod = period\<rparr>)))"

definition ledgerMain :: "json_lib \<Rightarrow> (bytes \<Rightarrow> exn + unit) \<Rightarrow> bytes \<Rightarrow> bytes \<Rightarrow> bytes + ledger_args
    \<Rightarrow> ('c, nat + ledger_setting) om" where
  "ledgerMain J loadSchemaFile program description parsed = (case parsed of
     Inl what \<Rightarrow> bindM (say (''ERROR: '' @ what @ newline)) (\<lambda>_. ret (Inl 2))
   | Inr a \<Rightarrow>
     if ledgerHelp a then
       bindM (sayOut (''Usage: '' @ program @ '' [options]'' @ newline @ newline @ description)) (\<lambda>_. ret (Inl 0))
     else
       bindM (liftE (stoul (backoffPeriodStr a))) (\<lambda>period.
       bindM (liftE (constructModule J loadSchemaFile (configFilePath a) (of_nat period))) (\<lambda>s. ret (Inr s))))"

end
