(* ===== verification/Legacy_Record.thy ===== *)
theory Legacy_Record
  imports Nack Segment_Fetcher
begin

text \<open>
  Records of the former ledger (\<open>legacy/record\<close>). A name contains a marker, \<open>RECORD\<close> or \<open>GENESIS_RECORD\<close>:
  before it is the producer, after it the content name. A record that was built or received has its packet,
  and cannot be modified any more.
\<close>

section \<open>State\<close>

datatype legacy_type = BaseRecord | GenericRecord | CertificateRecord | RevocationRecord | GenesisType

text \<open>\<open>legacyType\<close> is \<open>None\<close> where no constructor sets the member; \<open>contentItem\<close> is \<open>None\<close> for an invalid block.\<close>

record legacy_record =
  recData :: "data option"
  legacyType :: "legacy_type option"
  legacyName :: name
  legacyPointers :: "name list"
  contentItem :: "block option"

definition T_RecordHeader :: nat where "T_RecordHeader = 129"
definition T_RecordContent :: nat where "T_RecordContent = 130"

lemmas legacy_tlv = T_RecordHeader_def T_RecordContent_def

section \<open>Names\<close>

text \<open>\<open>readString\<close> of a component is its value. \<open>getFullName\<close> appends the implicit digest,
  a component of TLV-TYPE 1.\<close>

definition isMarker :: "component \<Rightarrow> bool" where
  "isMarker c \<longleftrightarrow> cvalue c = ''RECORD'' \<or> cvalue c = ''GENESIS_RECORD''"

definition fullName :: "ndn \<Rightarrow> data \<Rightarrow> name" where
  "fullName L d = dataName d @ [Comp 1 (sha256 L (wire L (dataBlock L d)))]"

fun getContentName :: "name \<Rightarrow> name" where
  "getContentName [] = []"
| "getContentName (c # n) = (if isMarker c then n else getContentName n)"

fun producerBefore :: "name \<Rightarrow> name option" where
  "producerBefore [] = None"
| "producerBefore (c # n) = (if isMarker c then Some [] else map_option (\<lambda>p. c # p) (producerBefore n))"

definition getProducerPrefix :: "legacy_record \<Rightarrow> name" where
  "getProducerPrefix r = (case producerBefore (legacyName r) of None \<Rightarrow> [] | Some p \<Rightarrow> p)"

fun genesisName :: "name \<Rightarrow> bool" where
  "genesisName [] = False"
| "genesisName (c # n) = (if cvalue c = ''RECORD'' then False else if cvalue c = ''GENESIS_RECORD'' then True else genesisName n)"

definition isGenesisRecord :: "legacy_record \<Rightarrow> bool" where
  "isGenesisRecord r = genesisName (legacyName r)"

definition getRecordFullName :: "ndn \<Rightarrow> legacy_record \<Rightarrow> name" where
  "getRecordFullName L r = (case recData r of None \<Rightarrow> [] | Some d \<Rightarrow> fullName L d)"

definition legacy_isEmpty :: "legacy_record \<Rightarrow> bool" where
  "legacy_isEmpty r \<longleftrightarrow> recData r = None \<and> legacyPointers r = [] \<and> contentItem r = None"

section \<open>New records\<close>

definition emptyRecord :: "name \<Rightarrow> legacy_record" where
  "emptyRecord n = \<lparr>recData = None, legacyType = None, legacyName = n, legacyPointers = [], contentItem = None\<rparr>"

definition recordOfType :: "legacy_type \<Rightarrow> name \<Rightarrow> legacy_record" where
  "recordOfType t identifier = (emptyRecord identifier)\<lparr>legacyType := Some t\<rparr>"

definition recordNamed :: "name \<Rightarrow> exn + legacy_record" where
  "recordNamed n = (if \<exists>c \<in> set n. isMarker c then Inr (emptyRecord n) else Inl (RuntimeError ''Bad record name''))"

definition setContentItem :: "block \<Rightarrow> legacy_record \<Rightarrow> exn + legacy_record" where
  "setContentItem item r = (if recData r \<noteq> None then Inl (RuntimeError ''Cannot modify built record'')
     else Inr (r\<lparr>contentItem := Some item\<rparr>))"

definition legacy_addPointer :: "name \<Rightarrow> legacy_record \<Rightarrow> exn + legacy_record" where
  "legacy_addPointer pointer r = (if recData r \<noteq> None then Inl (RuntimeError ''Cannot modify built record'')
     else Inr (r\<lparr>legacyPointers := legacyPointers r @ [pointer]\<rparr>))"

definition recordOfEvent :: "ndn \<Rightarrow> name \<Rightarrow> data \<Rightarrow> exn + legacy_record" where
  "recordOfEvent L producer event = setContentItem (dataBlock L event) (emptyRecord (producer @ [generic ''RECORD''] @ dataName event))"

definition genesisRecord :: "nat \<Rightarrow> exn + legacy_record" where
  "genesisRecord i = bindE (recordNamed [generic ''cert-ledger'', generic ''GENESIS_RECORD'', generic (decimal i)])
     (setContentItem (Block tlv_Name []))"

section \<open>Encoding\<close>

definition headerWireEncode :: "ndn \<Rightarrow> legacy_record \<Rightarrow> block" where
  "headerWireEncode L r = encodeBlock L T_RecordHeader (map (nameBlock L) (legacyPointers r))"

text \<open>An invalid block has no encoding.\<close>

definition bodyWireEncode :: "ndn \<Rightarrow> legacy_record \<Rightarrow> exn + block" where
  "bodyWireEncode L r = (case contentItem r of
     None \<Rightarrow> Inl (UndefinedBehaviour ''invalid block'')
   | Some item \<Rightarrow> Inr (encodeBlock L T_RecordContent [item]))"

definition legacy_wireEncode :: "ndn \<Rightarrow> legacy_record \<Rightarrow> exn + block" where
  "legacy_wireEncode L r = bindE (bodyWireEncode L r) (\<lambda>body. Inr (encodeBlock L tlv_Content [headerWireEncode L r, body]))"

section \<open>Decoding\<close>

definition subBlock :: "block list \<Rightarrow> nat \<Rightarrow> exn + block" where
  "subBlock bs t = of_option (TlvError ''no such element'') (find (\<lambda>b. btype b = t) bs)"

text \<open>A name that cannot be decoded is reported on standard output, and the variable is used as the failed
  decoding leaves it: \<open>leftover\<close>.\<close>

definition headerItem :: "ndn \<Rightarrow> (name \<Rightarrow> block \<Rightarrow> name) \<Rightarrow> name \<times> name list \<Rightarrow> block \<Rightarrow> exn + name \<times> name list" where
  "headerItem L leftover acc item = (case acc of (pointer, ps) \<Rightarrow>
     if btype item = tlv_Name then
       (let pointer' = (case nameOf L item of Inr n \<Rightarrow> n | Inl _ \<Rightarrow> leftover pointer item) in Inr (pointer', ps @ [pointer']))
     else Inl (RuntimeError ''Bad header item type''))"

definition headerWireDecode :: "ndn \<Rightarrow> (name \<Rightarrow> block \<Rightarrow> name) \<Rightarrow> block \<Rightarrow> exn + name list" where
  "headerWireDecode L leftover dataContent =
     bindE (parseBlock L dataContent) (\<lambda>bs. bindE (subBlock bs T_RecordHeader) (\<lambda>header.
     bindE (parseBlock L header) (\<lambda>items. bindE (foldE (headerItem L leftover) ([], []) items) (\<lambda>acc. Inr (snd acc)))))"

definition bodyWireDecode :: "ndn \<Rightarrow> block \<Rightarrow> exn + block" where
  "bodyWireDecode L dataContent =
     bindE (parseBlock L dataContent) (\<lambda>bs. bindE (subBlock bs T_RecordContent) (\<lambda>body.
     of_option (TlvError ''Block'') (readBlock L (bvalue body))))"

definition recordOfData :: "ndn \<Rightarrow> (name \<Rightarrow> block \<Rightarrow> name) \<Rightarrow> data \<Rightarrow> exn + legacy_record" where
  "recordOfData L leftover d =
     (let r = (emptyRecord (dataName d))\<lparr>recData := Some d\<rparr> in
      bindE (headerWireDecode L leftover (content d)) (\<lambda>ps.
      if \<not> isGenesisRecord r then bindE (bodyWireDecode L (content d)) (\<lambda>item. Inr (r\<lparr>legacyPointers := ps, contentItem := Some item\<rparr>))
      else Inr (r\<lparr>legacyPointers := ps\<rparr>)))"

definition checkPointerCount :: "nat \<Rightarrow> legacy_record \<Rightarrow> exn + unit" where
  "checkPointerCount numPointers r =
     (if length (legacyPointers r) \<noteq> numPointers then Inl (RuntimeError ''Less preceding record than expected'')
      else if card (set (legacyPointers r)) \<noteq> numPointers then Inl (RuntimeError ''Repeated preceding Records'')
      else Inr ())"

section \<open>Lemmas\<close>

lemma content_and_producer:
  assumes "\<forall>c \<in> set p. \<not> isMarker c" and "isMarker c"
  shows "getContentName (p @ c # n) = n" and "producerBefore (p @ c # n) = Some p"
  using assms by (induction p) simp_all

lemma genesis_below:
  "\<forall>c \<in> set p. \<not> isMarker c \<Longrightarrow> genesisName (p @ c # n) \<longleftrightarrow> cvalue c \<noteq> ''RECORD'' \<and> (cvalue c = ''GENESIS_RECORD'' \<or> genesisName n)"
  by (induction p) (auto simp: isMarker_def)

context tlv_codec
begin

lemma headerItems:
  "list_all wf_name ns \<Longrightarrow> foldE (headerItem L lo) (p, ps) (map (nameBlock L) ns) = Inr (last (p # ns), ps @ ns)"
  by (induction ns arbitrary: p ps) (simp_all add: headerItem_def nameOf_nameBlock)

lemma decode_record:
  assumes "legacy_wireEncode L r = Inr b" and "list_all wf_name (legacyPointers r)" and "contentItem r = Some item" and "wf_block item"
    and "content d = b"
  shows "headerWireDecode L lo (content d) = Inr (legacyPointers r)" and "bodyWireDecode L (content d) = Inr item"
proof -
  have body: "bodyWireEncode L r = Inr (encodeBlock L T_RecordContent [item])" using assms(3) by (simp add: bodyWireEncode_def)
  then have "parseBlock L b = Inr [headerWireEncode L r, encodeBlock L T_RecordContent [item]]"
    using assms(1) parseBlock_encodeBlock [of "[headerWireEncode L r, encodeBlock L T_RecordContent [item]]" tlv_Content]
    by (auto simp: legacy_wireEncode_def headerWireEncode_def legacy_tlv)
  moreover have "parseBlock L (headerWireEncode L r) = Inr (map (nameBlock L) (legacyPointers r))"
    unfolding headerWireEncode_def by (rule parseBlock_encodeBlock) (simp add: list_all_iff)
  moreover have "readBlock L (bvalue (encodeBlock L T_RecordContent [item])) = Some item"
    using readBlock_wire [OF assms(4)] by (simp add: encodeBlock_def)
  ultimately show "headerWireDecode L lo (content d) = Inr (legacyPointers r)" "bodyWireDecode L (content d) = Inr item"
    using headerItems [OF assms(2), of lo "[]" "[]"]
    by (simp_all add: headerWireDecode_def bodyWireDecode_def subBlock_def headerWireEncode_def legacy_tlv assms(5))
qed

end

end
