(* ===== verification/Legacy_Backend.thy ===== *)
theory Legacy_Backend
  imports Legacy_Record Storage
begin

text \<open>
  The database of the former ledger (\<open>legacy/backend\<close>): a packet is kept under the URI of its content name.
  LevelDB is a parameter: \<open>dbSeek\<close> gives the keys that an iterator visits from a position on.
\<close>

record 'db legacy_db = "'db leveldb" +
  dbSeek :: "bytes \<Rightarrow> 'db \<Rightarrow> bytes list"

text \<open>\<open>open\<close> is \<open>None\<close> where the status is not \<open>ok()\<close>.\<close>

definition newBackend :: "(bytes \<Rightarrow> 'db option) \<Rightarrow> bytes \<Rightarrow> exn + 'db" where
  "newBackend openDb dbDir = of_option (RuntimeError ''Unable to open/create database'') (openDb dbDir)"

definition backend_getRecord :: "ndn \<Rightarrow> 'db legacy_db \<Rightarrow> name \<Rightarrow> 'db \<Rightarrow> exn + data option" where
  "backend_getRecord L D contentName db = (case dbGet D (toUri L contentName) db of
     None \<Rightarrow> Inr None
   | Some value \<Rightarrow> bindE (of_option (TlvError ''Block'') (readBlock L value)) (\<lambda>b.
       bindE (dataOf L b) (\<lambda>d. Inr (Some d))))"

definition backend_putRecord :: "ndn \<Rightarrow> 'db legacy_db \<Rightarrow> data \<Rightarrow> 'db \<Rightarrow> bool \<times> 'db" where
  "backend_putRecord L D d db = dbPut D (toUri L (getContentName (dataName d))) (wire L (dataBlock L d)) db"

text \<open>A failure is only reported on standard error.\<close>

definition backend_deleteRecord :: "ndn \<Rightarrow> 'db legacy_db \<Rightarrow> name \<Rightarrow> 'db \<Rightarrow> 'db" where
  "backend_deleteRecord L D contentName db = snd (dbDelete D (toUri L contentName) db)"

text \<open>\<open>nameOfKey\<close> is \<open>Name(const std::string&)\<close>.\<close>

fun listKeys :: "(bytes \<Rightarrow> exn + name) \<Rightarrow> name \<Rightarrow> bytes list \<Rightarrow> exn + name list" where
  "listKeys nameOfKey pfx [] = Inr []"
| "listKeys nameOfKey pfx (k # ks) = bindE (nameOfKey k) (\<lambda>n.
     if take (length pfx) n = pfx then bindE (listKeys nameOfKey pfx ks) (\<lambda>ns. Inr (n # ns)) else Inr [])"

definition backend_listRecord :: "ndn \<Rightarrow> 'db legacy_db \<Rightarrow> (bytes \<Rightarrow> exn + name) \<Rightarrow> name \<Rightarrow> 'db \<Rightarrow> exn + name list" where
  "backend_listRecord L D nameOfKey pfx db = listKeys nameOfKey pfx (dbSeek D (toUri L pfx) db)"

section \<open>What is stored\<close>

text \<open>A database that keeps what is put, as \<open>level_database\<close> says; what it holds of packets.\<close>

definition keepsPacket :: "ndn \<Rightarrow> ('db \<Rightarrow> bytes \<Rightarrow> bytes option) \<Rightarrow> 'db \<Rightarrow> name \<Rightarrow> data \<Rightarrow> bool" where
  "keepsPacket L K db n d \<longleftrightarrow> K db (toUri L n) = Some (wire L (dataBlock L d))"

definition legacy_database :: "ndn \<Rightarrow> 'db legacy_db \<Rightarrow> ('db \<Rightarrow> bytes \<Rightarrow> bytes option) \<Rightarrow> bool" where
  "legacy_database L D K \<longleftrightarrow> level_database L (leveldb.truncate D) K"

lemma legacy_databaseD:
  assumes "legacy_database L D K"
  shows "ndn_codec L" and "dbGet D k db = K db k" and "\<exists>db'. dbPut D k x db = (True, db') \<and> K db' = (K db)(k \<mapsto> x)"
proof -
  have *: "level_database L (leveldb.truncate D) K" using assms by (simp add: legacy_database_def)
  show "ndn_codec L" using * by (simp add: level_database_def)
  show "dbGet D k db = K db k" using level_database.dbGet_M [OF *, of k db] by (simp add: leveldb.truncate_def)
  show "\<exists>db'. dbPut D k x db = (True, db') \<and> K db' = (K db)(k \<mapsto> x)"
    using level_database.dbPut_M [OF *, of k x db] by (simp add: leveldb.truncate_def)
qed

lemma stored_record:
  assumes "legacy_database L D K" and "keepsPacket L K db n d" and "wf_data d"
  shows "backend_getRecord L D n db = Inr (Some d)"
proof -
  have codec: "ndn_codec L" by (rule legacy_databaseD [OF assms(1)])
  then have "dataOf L (dataBlock L d) = Inr d"
    using ndn_codec.readDataBytes_dataBytes [OF codec assms(3)] by (simp add: dataOf_def dataBlock_def)
  moreover have "readBlock L (wire L (dataBlock L d)) = Some (dataBlock L d)"
    by (rule tlv_codec.readBlock_wire) (use codec in \<open>simp_all add: ndn_codec_def\<close>)
  ultimately show ?thesis
    using legacy_databaseD(2) [OF assms(1)] assms(2) by (simp add: backend_getRecord_def keepsPacket_def)
qed

end
