(* ===== verification/Legacy_Ledger.thy ===== *)
theory Legacy_Ledger
  imports Legacy_Backend
begin

text \<open>
  The former ledger (\<open>legacy/cert-ledger\<close>, \<open>config\<close>, \<open>return-code\<close>, \<open>util\<close>). It keeps the full names of the last
  records, of the records that none cites, of those that wait for a record they cite, and who waits for
  what. The random engine, signing, the validator and the sync library are parameters.
\<close>

section \<open>Configuration, return codes, security options\<close>

record legacy_config =
  precedingRecordNum :: nat
  numGenesisBlock :: nat
  syncPrefix :: name
  peerPrefix :: name
  databasePath :: bytes

definition newLegacyConfig :: "name \<Rightarrow> name \<Rightarrow> legacy_config" where
  "newLegacyConfig sync peer = \<lparr>precedingRecordNum = 2, numGenesisBlock = 10, syncPrefix = sync, peerPrefix = peer, databasePath = []\<rparr>"

definition CustomizedConfig :: "name \<Rightarrow> name \<Rightarrow> bytes \<Rightarrow> legacy_config" where
  "CustomizedConfig multicastPrefix producerPrefix path = (newLegacyConfig multicastPrefix producerPrefix)\<lparr>databasePath := path\<rparr>"

record return_code =
  rcCode :: nat
  rcStatus :: bytes

definition EC_OK :: nat where "EC_OK = 0"
definition EC_NoTailingRecord :: nat where "EC_NoTailingRecord = 1"
definition EC_NotEnoughTailingRecord :: nat where "EC_NotEnoughTailingRecord = 2"
definition EC_SigningError :: nat where "EC_SigningError = 3"
definition EC_TimingError :: nat where "EC_TimingError = 4"

definition rc_noError :: "bytes \<Rightarrow> return_code" where
  "rc_noError message = \<lparr>rcCode = EC_OK, rcStatus = message\<rparr>"

definition rc_noTailingRecord :: return_code where
  "rc_noTailingRecord = \<lparr>rcCode = EC_NoTailingRecord, rcStatus = ''No Tailing Record''\<rparr>"

definition rc_notEnoughTailingRecord :: return_code where
  "rc_notEnoughTailingRecord = \<lparr>rcCode = EC_NotEnoughTailingRecord, rcStatus = ''Not Enough Tailing Records''\<rparr>"

definition rc_signingError :: "bytes \<Rightarrow> return_code" where
  "rc_signingError reason = \<lparr>rcCode = EC_SigningError, rcStatus = reason\<rparr>"

definition rc_timingError :: "bytes \<Rightarrow> return_code" where
  "rc_timingError reason = \<lparr>rcCode = EC_TimingError, rcStatus = reason\<rparr>"

definition rc_success :: "return_code \<Rightarrow> bool" where
  "rc_success rc \<longleftrightarrow> rcCode rc = EC_OK"

text \<open>\<open>signIdentity\<close> and \<open>signSha256\<close>: \<open>KeyChain::sign\<close> with the two kinds of signing information; an exception
  has a text. \<open>shuffle i\<close> is the i-th shuffle of the engine. \<open>recordValidator\<close> may answer later or never
  (\<open>None\<close>).\<close>

record 'db legacy_env =
  legacyLib :: ndn
  legacyDb :: "'db legacy_db"
  leftoverName :: "name \<Rightarrow> block \<Rightarrow> name"
  signIdentity :: "name \<Rightarrow> data \<Rightarrow> bytes + data"
  signSha256 :: "data \<Rightarrow> bytes + data"
  shuffleWith :: "nat \<Rightarrow> name list \<Rightarrow> name list"
  recordValidator :: "data \<Rightarrow> validation option"
  legacyConfig :: legacy_config

text \<open>The adaptors of \<open>util\<close>: what a validator answers, and a signer, each for data and for interests.\<close>

definition cxxValidator :: "('p \<Rightarrow> validation option) \<Rightarrow> 'p \<Rightarrow> validation option" where
  "cxxValidator v p = v p"

definition alwaysFailValidator :: "'p \<Rightarrow> validation option" where
  "alwaysFailValidator p = Some (Invalid ''No verification allowed'')"

definition KeyChainOptionSigner :: "(name \<Rightarrow> 'p \<Rightarrow> bytes + 'p) \<Rightarrow> name \<Rightarrow> 'p \<Rightarrow> bytes + 'p" where
  "KeyChainOptionSigner keyChain params p = keyChain params p"

text \<open>The options of the sync library that the ledger sets; \<open>baseSigner\<close> is the library's own signer.\<close>

record security_options =
  syncValidator :: "data \<Rightarrow> validation option"
  encapsulatedDataValidator :: "data \<Rightarrow> validation option"
  syncDataSigner :: "data \<Rightarrow> bytes + data"
  interestSigner :: "interest \<Rightarrow> bytes + interest"
  pubSigner :: "data \<Rightarrow> bytes + data"

definition getSecurityOption :: "(name \<Rightarrow> data \<Rightarrow> bytes + data) \<Rightarrow> (name \<Rightarrow> interest \<Rightarrow> bytes + interest) \<Rightarrow>
    (data \<Rightarrow> validation option) \<Rightarrow> (data \<Rightarrow> bytes + data) \<Rightarrow> name \<Rightarrow> security_options" where
  "getSecurityOption signData signInterest v baseSigner peer = \<lparr>syncValidator = cxxValidator v, encapsulatedDataValidator = alwaysFailValidator,
     syncDataSigner = KeyChainOptionSigner signData peer, interestSigner = KeyChainOptionSigner signInterest peer, pubSigner = baseSigner\<rparr>"

section \<open>State\<close>

text \<open>Sets are ascending lists, the multimap is a list that is ascending in its keys. \<open>published\<close>: what was
  handed to the sync library with freshness, prefix and type; \<open>requested\<close>: what was asked of it; \<open>announced\<close>:
  the records that the user's callback got.\<close>

record 'db legacy_ledger =
  backend :: 'db
  lastNames :: "name list"
  lastNameTops :: "32 word"
  tailingRecords :: "name list"
  noPrevRecords :: "name list"
  waitingReferenced :: "(name \<times> name) list"
  shuffleCount :: nat
  published :: "(block \<times> int \<times> name \<times> nat) list"
  requested :: "(name \<times> 64 word) list"
  callbackSet :: bool
  announced :: "legacy_record list"

type_synonym ('db, 'a) gm = "('db legacy_ledger, 'a) cm"

section \<open>Adding records\<close>

definition addRecordToDAG :: "'db legacy_env \<Rightarrow> legacy_record \<Rightarrow> ('db, unit) gm" where
  "addRecordToDAG E r = (\<lambda>st. case recData r of
     None \<Rightarrow> (Inl (UndefinedBehaviour ''null data''), st)
   | Some d \<Rightarrow>
     let full = fullName (legacyLib E) d;
         st1 = st\<lparr>backend := snd (backend_putRecord (legacyLib E) (legacyDb E) d (backend st))\<rparr> in
     if unat (lastNameTops st) < length (lastNames st) then
       (Inr (), st1\<lparr>lastNames := (lastNames st)[unat (lastNameTops st) := full],
          lastNameTops := of_nat (unat (lastNameTops st + 1) mod length (lastNames st)),
          tailingRecords := filter (\<lambda>n. n \<notin> set (legacyPointers r)) (insort_insert full (tailingRecords st))\<rparr>)
     else (Inl (UndefinedBehaviour ''vector index''), st1))"

primrec addPrev :: "nat \<Rightarrow> legacy_record \<Rightarrow> name list \<Rightarrow> exn + legacy_record" where
  "addPrev num r [] = Inr r"
| "addPrev num r (t # ts) = bindE (legacy_addPointer t r) (\<lambda>r.
     if length (legacyPointers r) \<ge> num then Inr r else addPrev num r ts)"

definition shuffleAndAddPrev :: "'db legacy_env \<Rightarrow> legacy_record \<Rightarrow> name list \<Rightarrow> ('db, legacy_record) gm" where
  "shuffleAndAddPrev E r recordList =
     bindM (getsM (\<lambda>st. shuffleWith E (shuffleCount st) recordList)) (\<lambda>ts.
     bindM (modifyM (\<lambda>st. st\<lparr>shuffleCount := Suc (shuffleCount st)\<rparr>)) (\<lambda>_.
     liftE (addPrev (precedingRecordNum (legacyConfig E)) r ts)))"

definition choosePointers :: "'db legacy_env \<Rightarrow> legacy_record \<Rightarrow> ('db, legacy_record) gm" where
  "choosePointers E r =
     bindM (getsM (\<lambda>st. filter (\<lambda>n. n \<notin> set (noPrevRecords st)) (tailingRecords st))) (\<lambda>tails.
     bindM (shuffleAndAddPrev E r tails) (\<lambda>r.
     if length (legacyPointers r) < precedingRecordNum (legacyConfig E) then
       bindM (getsM (\<lambda>st. filter (\<lambda>n. n \<notin> set (noPrevRecords st)) (lastNames st))) (\<lambda>lasts.
       shuffleAndAddPrev E r lasts)
     else ret r))"

text \<open>The result is the record as the caller's reference has it afterwards, and the return code. Five minutes
  are 300000 milliseconds.\<close>

definition createRecord :: "'db legacy_env \<Rightarrow> legacy_record \<Rightarrow> ('db, legacy_record \<times> return_code) gm" where
  "createRecord E r =
     bindM (choosePointers E r) (\<lambda>r.
     bindM (liftE (legacy_wireEncode (legacyLib E) r)) (\<lambda>contentBlock.
     case signIdentity E (peerPrefix (legacyConfig E)) ((emptyData (legacyName r))\<lparr>content := contentBlock, freshness := 300000\<rparr>) of
       Inl what \<Rightarrow> ret (r, rc_signingError what)
     | Inr d \<Rightarrow>
       let r = r\<lparr>recData := Some d\<rparr> in
       bindM (addRecordToDAG E r) (\<lambda>_.
       bindM (modifyM (\<lambda>st. st\<lparr>published := published st @
         [(dataBlock (legacyLib E) d, freshness d, peerPrefix (legacyConfig E), tlv_Data)]\<rparr>)) (\<lambda>_.
       ret (r, rc_noError (toUri (legacyLib E) (fullName (legacyLib E) d)))))))"

section \<open>Records that wait\<close>

text \<open>\<open>std::multimap::emplace\<close> puts an entry behind those with its key.\<close>

definition multiInsert :: "name \<Rightarrow> name \<Rightarrow> (name \<times> name) list \<Rightarrow> (name \<times> name) list" where
  "multiInsert k v w = takeWhile (\<lambda>e. fst e \<le> k) w @ (k, v) # dropWhile (\<lambda>e. fst e \<le> k) w"

primrec firstMissing :: "'db legacy_env \<Rightarrow> 'db legacy_ledger \<Rightarrow> name list \<Rightarrow> exn + name option" where
  "firstMissing E st [] = Inr None"
| "firstMissing E st (p # ps) =
     (if p \<in> set (noPrevRecords st) then Inr (Some p)
      else bindE (backend_getRecord (legacyLib E) (legacyDb E) p (backend st)) (\<lambda>d.
        case d of None \<Rightarrow> Inr (Some p) | Some _ \<Rightarrow> firstMissing E st ps))"

text \<open>The loop that erases the entries of a key compares the key behind the last of them, too, and
  behind the last entry of the multimap there is none.\<close>

definition takeWaiting :: "name \<Rightarrow> ('db, name list) gm" where
  "takeWaiting full = (\<lambda>st. let w = waitingReferenced st; group = map snd (filter (\<lambda>e. fst e = full) w);
       st' = st\<lparr>waitingReferenced := filter (\<lambda>e. fst e \<noteq> full) w, noPrevRecords := filter (\<lambda>n. n \<notin> set group) (noPrevRecords st)\<rparr> in
     if group = [] then (Inr [], st)
     else if \<exists>e \<in> set w. full < fst e then (Inr group, st')
     else (Inl (UndefinedBehaviour ''end iterator''), st'))"

definition verifyOne :: "'db legacy_env \<Rightarrow> legacy_record \<Rightarrow> ('db, name list) gm" where
  "verifyOne E r = (\<lambda>st. let full = getRecordFullName (legacyLib E) r in
     case firstMissing E st (legacyPointers r) of
       Inl e \<Rightarrow> (Inl e, st)
     | Inr (Some p) \<Rightarrow> (Inr [], st\<lparr>waitingReferenced := multiInsert p full (waitingReferenced st),
         noPrevRecords := insort_insert full (noPrevRecords st)\<rparr>)
     | Inr None \<Rightarrow> takeWaiting full st)"

definition loadWaiting :: "'db legacy_env \<Rightarrow> name \<Rightarrow> ('db, legacy_record) gm" where
  "loadWaiting E full =
     bindM (getsM (\<lambda>st. backend_getRecord (legacyLib E) (legacyDb E) (getContentName full) (backend st))) (\<lambda>res.
     bindM (liftE res) (\<lambda>d. case d of
       None \<Rightarrow> raise (UndefinedBehaviour ''null data'')
     | Some d \<Rightarrow> liftE (recordOfData (legacyLib E) (leftoverName E) d)))"

lemma loadWaiting_state [simp]: "snd (loadWaiting E n st) = st"
  by (simp add: loadWaiting_def bindM_def getsM_def liftE_def raise_def split: sum.split option.split)

lemma length_multiInsert [simp]: "length (multiInsert k v w) = Suc (length w)"
proof -
  have "length w = length (takeWhile (\<lambda>e. fst e \<le> k) w) + length (dropWhile (\<lambda>e. fst e \<le> k) w)"
    by (metis length_append takeWhile_dropWhile_id)
  then show ?thesis by (simp add: multiInsert_def)
qed

lemma takeWaiting_measure:
  assumes "takeWaiting full st = (Inr ns, st')"
  shows "length (waitingReferenced st') + length ns = length (waitingReferenced st)"
  using assms sum_length_filter_compl [of "\<lambda>e. fst e = full" "waitingReferenced st"]
  by (simp add: takeWaiting_def Let_def split: if_splits) auto

lemma verifyOne_measure:
  assumes "verifyOne E r st = (Inr ns, st')"
  shows "ns = [] \<and> length (waitingReferenced st') \<le> Suc (length (waitingReferenced st))
    \<or> length (waitingReferenced st') + length ns = length (waitingReferenced st)"
  using assms by (auto simp: verifyOne_def Let_def dest: takeWaiting_measure split: sum.splits option.splits)

text \<open>The recursion of \<open>verifyPreviousRecord\<close>, with the records it has still to verify as a list: each
  call puts the records that waited for its record before those that are left.\<close>

function verifyWaiting :: "'db legacy_env \<Rightarrow> name list \<Rightarrow> ('db, unit) gm" where
  "verifyWaiting E [] st = (Inr (), st)"
| "verifyWaiting E (n # ns) st = (case loadWaiting E n st of
     (Inl e, _) \<Rightarrow> (Inl e, st)
   | (Inr r, _) \<Rightarrow> (case verifyOne E r st of
       (Inl e, st') \<Rightarrow> (Inl e, st')
     | (Inr ms, st') \<Rightarrow> verifyWaiting E (ms @ ns) st'))"
  by pat_completeness auto

termination
proof (relation "measures [\<lambda>(E, ns, st). length ns + length (waitingReferenced st), \<lambda>(E, ns, st). length ns]")
qed (auto dest!: verifyOne_measure [OF sym])

definition verifyPreviousRecord :: "'db legacy_env \<Rightarrow> legacy_record \<Rightarrow> ('db, unit) gm" where
  "verifyPreviousRecord E r = bindM (verifyOne E r) (verifyWaiting E)"

section \<open>Construction and queries\<close>

definition newLegacyState :: "'db \<Rightarrow> 'db legacy_ledger" where
  "newLegacyState db = \<lparr>backend = db, lastNames = [], lastNameTops = 0, tailingRecords = [], noPrevRecords = [], waitingReferenced = [],
     shuffleCount = 0, published = [], requested = [], callbackSet = False, announced = []\<rparr>"

definition addGenesis :: "'db legacy_env \<Rightarrow> nat \<Rightarrow> ('db, unit) gm" where
  "addGenesis E i =
     bindM (liftE (genesisRecord i)) (\<lambda>r.
     bindM (liftE (legacy_wireEncode (legacyLib E) r)) (\<lambda>contentBlock.
     case signSha256 E ((emptyData (legacyName r))\<lparr>content := contentBlock\<rparr>) of
       Inl what \<Rightarrow> raise (StdException what)
     | Inr d \<Rightarrow> modifyM (\<lambda>st. let full = fullName (legacyLib E) d in
         st\<lparr>backend := snd (backend_putRecord (legacyLib E) (legacyDb E) d (backend st)),
            lastNames := lastNames st @ [full], tailingRecords := insort_insert full (tailingRecords st)\<rparr>)))"

definition newLegacyLedger :: "'db legacy_env \<Rightarrow> (bytes \<Rightarrow> 'db option) \<Rightarrow> exn + 'db legacy_ledger" where
  "newLegacyLedger E openDb = (let config = legacyConfig E in
     bindE (newBackend openDb (databasePath config)) (\<lambda>db.
     if numGenesisBlock config < precedingRecordNum config \<or> precedingRecordNum config \<le> 1 then Inl (RuntimeError ''Bad config'')
     else case forM (addGenesis E) [0..<numGenesisBlock config] (newLegacyState db) of
       (Inl e, _) \<Rightarrow> Inl e
     | (Inr _, st) \<Rightarrow> Inr st))"

definition legacy_getRecord :: "'db legacy_env \<Rightarrow> name \<Rightarrow> ('db, legacy_record option) gm" where
  "legacy_getRecord E contentName =
     bindM (getsM (\<lambda>st. backend_getRecord (legacyLib E) (legacyDb E) contentName (backend st))) (\<lambda>res.
     bindM (liftE res) (\<lambda>re. case re of
       Some d \<Rightarrow> liftE (bindE (recordOfData (legacyLib E) (leftoverName E) d) (\<lambda>r. Inr (Some r)))
     | None \<Rightarrow> ret None))"

definition legacy_hasRecord :: "'db legacy_env \<Rightarrow> name \<Rightarrow> ('db, bool) gm" where
  "legacy_hasRecord E contentName =
     bindM (getsM (\<lambda>st. backend_getRecord (legacyLib E) (legacyDb E) contentName (backend st))) (\<lambda>res.
     bindM (liftE res) (\<lambda>dataPtr. ret (dataPtr \<noteq> None)))"

definition legacy_listRecord :: "'db legacy_env \<Rightarrow> (bytes \<Rightarrow> exn + name) \<Rightarrow> name \<Rightarrow> ('db, name list) gm" where
  "legacy_listRecord E nameOfKey pfx =
     bindM (getsM (\<lambda>st. backend_listRecord (legacyLib E) (legacyDb E) nameOfKey pfx (backend st))) liftE"

definition getPeerPrefix :: "'db legacy_env \<Rightarrow> name" where
  "getPeerPrefix E = peerPrefix (legacyConfig E)"

definition setOnRecordCallback :: "('db, unit) gm" where
  "setOnRecordCallback = modifyM (\<lambda>st. st\<lparr>callbackSet := True\<rparr>)"

section \<open>Synchronisation\<close>

text \<open>The loop over sequence numbers, which are 64 bits wide: \<open>None\<close> where it does not end.\<close>

record missing_data =
  nodeId :: name
  low :: "64 word"
  high :: "64 word"

partial_function (option) requestFrom :: "name \<Rightarrow> 64 word \<Rightarrow> 64 word \<Rightarrow> (name \<times> 64 word) list \<Rightarrow> (name \<times> 64 word) list option" where
  "requestFrom node hi i asked = (if i \<le> hi then requestFrom node hi (i + 1) (asked @ [(node, i)]) else Some asked)"

primrec onUpdate :: "missing_data list \<Rightarrow> 'db legacy_ledger \<Rightarrow> 'db legacy_ledger option" where
  "onUpdate [] st = Some st"
| "onUpdate (stream # info) st = (case requestFrom (nodeId stream) (high stream) (low stream) (requested st) of
     None \<Rightarrow> None | Some asked \<Rightarrow> onUpdate info (st\<lparr>requested := asked\<rparr>))"

definition onRecordValid :: "'db legacy_env \<Rightarrow> data \<Rightarrow> ('db, unit) gm" where
  "onRecordValid E receivedData = catchM
     (bindM (liftE (recordOfData (legacyLib E) (leftoverName E) receivedData)) (\<lambda>receivedRecord.
      bindM (liftE (checkPointerCount (precedingRecordNum (legacyConfig E)) receivedRecord)) (\<lambda>_.
      bindM (addRecordToDAG E receivedRecord) (\<lambda>_.
      bindM (verifyPreviousRecord E receivedRecord) (\<lambda>_.
      modifyM (\<lambda>st. if callbackSet st then st\<lparr>announced := announced st @ [receivedRecord]\<rparr> else st))))))
     is_std_exception (\<lambda>_. ret ())"

text \<open>Publications arrive wrapped in a packet whose content type is \<open>tlv::Data\<close>.\<close>

definition onSyncData :: "'db legacy_env \<Rightarrow> data \<Rightarrow> ('db, unit) gm" where
  "onSyncData E syncData =
     (if contentType syncData = tlv_Data then
        bindM (liftE (bindE (of_option (TlvError ''Block'') (readBlock (legacyLib E) (bvalue (content syncData)))) (dataOf (legacyLib E)))) (\<lambda>d.
        case recordValidator E d of
          Some Valid \<Rightarrow> onRecordValid E d
        | Some (Invalid _) \<Rightarrow> ret ()
        | None \<Rightarrow> ret ())
      else ret ())"

end
