(* ===== verification/Legacy_Theorems.thy ===== *)
theory Legacy_Theorems
  imports Legacy_Ledger "HOL-Library.Multiset"
begin

text \<open>
  Properties of the former ledger: what creating a record does, which records a ledger cites, and which
  sequence numbers it asks for.
\<close>

section \<open>What is relied on\<close>

text \<open>The database keeps what is put, a shuffle permutes, and signing succeeds and changes no other part of
  a packet.\<close>

definition signs_packets :: "(data \<Rightarrow> bytes + data) \<Rightarrow> bool" where
  "signs_packets sign \<longleftrightarrow> (\<forall>d. \<exists>d'. sign d = Inr d' \<and> dataName d' = dataName d \<and> content d' = content d \<and>
     freshness d' = freshness d \<and> (wf_data d \<longrightarrow> wf_data d'))"

definition legacy_env_ok :: "'db legacy_env \<Rightarrow> ('db \<Rightarrow> bytes \<Rightarrow> bytes option) \<Rightarrow> bool" where
  "legacy_env_ok E K \<longleftrightarrow> legacy_database (legacyLib E) (legacyDb E) K \<and>
     (\<forall>i ns. mset (shuffleWith E i ns) = mset ns) \<and> signs_packets (signSha256 E) \<and> (\<forall>p. signs_packets (signIdentity E p))"

lemma legacy_env_okD:
  assumes "legacy_env_ok E K"
  shows "legacy_database (legacyLib E) (legacyDb E) K" and "mset (shuffleWith E i ns) = mset ns"
    and "signs_packets (signSha256 E)" and "signs_packets (signIdentity E p)"
  using assms by (simp_all add: legacy_env_ok_def)

lemma shuffle_set: "legacy_env_ok E K \<Longrightarrow> set (shuffleWith E i ns) = set ns"
  by (metis legacy_env_okD(2) set_mset_mset)

lemma shuffle_length: "legacy_env_ok E K \<Longrightarrow> length (shuffleWith E i ns) = length ns"
  by (metis legacy_env_okD(2) size_mset)

lemma signs_packetsE:
  assumes "signs_packets sign"
  obtains d' where "sign d = Inr d'" and "dataName d' = dataName d" and "content d' = content d"
    and "freshness d' = freshness d" and "wf_data d \<Longrightarrow> wf_data d'"
  using assms unfolding signs_packets_def by metis

section \<open>Choosing what to cite\<close>

text \<open>The candidates: tails, or last records, that are not without predecessor.\<close>

definition cited_tails :: "'db legacy_ledger \<Rightarrow> name list" where
  "cited_tails st = filter (\<lambda>n. n \<notin> set (noPrevRecords st)) (tailingRecords st)"

definition cited_lasts :: "'db legacy_ledger \<Rightarrow> name list" where
  "cited_lasts st = filter (\<lambda>n. n \<notin> set (noPrevRecords st)) (lastNames st)"

text \<open>What is cited, as one expression.\<close>

definition citations :: "'db legacy_env \<Rightarrow> 'db legacy_ledger \<Rightarrow> name list" where
  "citations E st = (let num = precedingRecordNum (legacyConfig E); k = length (cited_tails st) in
     take num (shuffleWith E (shuffleCount st) (cited_tails st)) @
     (if k < num then take (num - k) (shuffleWith E (Suc (shuffleCount st)) (cited_lasts st)) else []))"

lemma addPrev_take:
  "recData r = None \<Longrightarrow> length (legacyPointers r) < num \<Longrightarrow>
    addPrev num r ts = Inr (r\<lparr>legacyPointers := legacyPointers r @ take (num - length (legacyPointers r)) ts\<rparr>)"
proof (induction ts arbitrary: r)
  case (Cons t ts)
  define r' where "r' = r\<lparr>legacyPointers := legacyPointers r @ [t]\<rparr>"
  have "legacy_addPointer t r = Inr r'" using Cons.prems by (simp add: legacy_addPointer_def r'_def)
  moreover have "num - length (legacyPointers r) = Suc (num - length (legacyPointers r'))"
    using Cons.prems by (simp add: r'_def)
  ultimately show ?case using Cons.IH [of r'] Cons.prems by (auto simp: r'_def)
qed simp

lemma addPrev_name: "addPrev num r ts = Inr r' \<Longrightarrow> legacyName r' = legacyName r \<and> contentItem r' = contentItem r"
proof (induction ts arbitrary: r)
  case (Cons t ts)
  then show ?case by (fastforce simp: legacy_addPointer_def split: if_splits)
qed simp

lemma choosePointers_citations:
  assumes "legacy_env_ok E K" and "0 < precedingRecordNum (legacyConfig E)" and "recData r = None" and "legacyPointers r = []"
  shows "\<exists>k. choosePointers E r st = (Inr (r\<lparr>legacyPointers := citations E st\<rparr>), st\<lparr>shuffleCount := k\<rparr>)"
proof (cases "length (cited_tails st) < precedingRecordNum (legacyConfig E)")
  case True
  then have "length (take (precedingRecordNum (legacyConfig E)) (shuffleWith E (shuffleCount st) (cited_tails st))) = length (cited_tails st)"
    by (simp add: shuffle_length [OF assms(1)])
  with True show ?thesis using assms
    by (simp add: choosePointers_def shuffleAndAddPrev_def bindM_def getsM_def modifyM_def liftE_def addPrev_take citations_def
        cited_tails_def cited_lasts_def shuffle_length) (rule exI, rule refl)
next
  case False
  then show ?thesis using assms
    by (simp add: choosePointers_def shuffleAndAddPrev_def bindM_def getsM_def modifyM_def liftE_def addPrev_take citations_def
        cited_tails_def cited_lasts_def shuffle_length ret_def) (rule exI, rule refl)
qed

lemma citations_set:
  assumes "legacy_env_ok E K"
  shows "set (citations E st) \<subseteq> set (cited_tails st) \<union> set (cited_lasts st)"
  using shuffle_set [OF assms] by (auto simp: citations_def Let_def dest!: in_set_takeD)

lemma citations_length:
  assumes "legacy_env_ok E K"
  shows "length (citations E st) = min (precedingRecordNum (legacyConfig E)) (length (cited_tails st) + length (cited_lasts st))"
  by (auto simp: citations_def Let_def shuffle_length [OF assms])


section \<open>An instance\<close>

definition demoLegacy :: "(bytes \<rightharpoonup> bytes) legacy_env" where
  "demoLegacy = \<lparr>legacyLib = ndnTlv, legacyDb = leveldb.extend map_database \<lparr>dbSeek = (\<lambda>_ _. [])\<rparr>, leftoverName = (\<lambda>n b. n),
     signIdentity = (\<lambda>_. Inr), signSha256 = Inr, shuffleWith = (\<lambda>_ ns. ns), recordValidator = (\<lambda>_. Some Valid),
     legacyConfig = newLegacyConfig [generic ''sync''] [generic ''peer'']\<rparr>"

definition demoTail :: "bytes \<Rightarrow> name" where
  "demoTail s = [generic ''peer'', generic ''RECORD'', generic s, Comp 1 s]"

definition demoLegacyState :: "(bytes \<rightharpoonup> bytes) legacy_ledger" where
  "demoLegacyState = (newLegacyState Map.empty)\<lparr>lastNames := [demoTail ''a'', demoTail ''b''], tailingRecords := [demoTail ''a'']\<rparr>"

definition demoNew :: "bytes \<Rightarrow> legacy_record" where
  "demoNew s = (emptyRecord [generic ''peer'', generic ''RECORD'', generic s])\<lparr>contentItem := Some (Block tlv_Data [])\<rparr>"

lemma demoLegacy_simps [simp]:
  "legacyLib demoLegacy = ndnTlv" "shuffleWith demoLegacy i ns = ns" "recordValidator demoLegacy d = Some Valid"
  "precedingRecordNum (legacyConfig demoLegacy) = 2" "numGenesisBlock (legacyConfig demoLegacy) = 10"
  by (simp_all add: demoLegacy_def newLegacyConfig_def)

lemma demoLegacy_ok: "legacy_env_ok demoLegacy (\<lambda>db. db)"
  using map_level.level_database_axioms
  by (simp add: legacy_env_ok_def legacy_database_def signs_packets_def demoLegacy_def leveldb.truncate_def leveldb.extend_def map_database_def)

section \<open>Creating a record\<close>

lemma wf_fullName: "wf_name (dataName d) \<Longrightarrow> wf_name (fullName L d)"
  by (simp add: fullName_def wf_component_def)

lemma put_keeps:
  assumes "legacy_database L D K"
  shows "K (snd (backend_putRecord L D d db)) = (K db)(toUri L (getContentName (dataName d)) \<mapsto> wire L (dataBlock L d))"
  using legacy_databaseD(3) [OF assms, of "toUri L (getContentName (dataName d))" "wire L (dataBlock L d)" db]
  by (auto simp: backend_putRecord_def)

text \<open>What a received packet is read as, when it carries an encoded record that is no genesis record.\<close>

lemma recordOfData_encoded:
  assumes "tlv_codec L" and "legacy_wireEncode L r = Inr (content d)" and "list_all wf_name (legacyPointers r)"
    and "contentItem r = Some item" and "wf_block item" and "dataName d = legacyName r" and "\<not> isGenesisRecord r"
  shows "recordOfData L lo d = Inr (r\<lparr>recData := Some d, legacyType := None\<rparr>)"
proof -
  have "r\<lparr>recData := Some d, legacyType := None\<rparr> = emptyRecord (dataName d)\<lparr>recData := Some d, legacyPointers := legacyPointers r, contentItem := Some item\<rparr>"
    using assms(4,6) by (simp add: emptyRecord_def)
  moreover have "\<not> isGenesisRecord (emptyRecord (dataName d)\<lparr>recData := Some d\<rparr>)"
    using assms(6,7) by (simp add: isGenesisRecord_def emptyRecord_def)
  ultimately show ?thesis
    using tlv_codec.decode_record [OF assms(1-5) refl] by (simp add: recordOfData_def Let_def)
qed

definition fresh_record :: "legacy_record \<Rightarrow> bool" where
  "fresh_record r \<longleftrightarrow> recData r = None \<and> legacyPointers r = [] \<and> \<not> isGenesisRecord r \<and> wf_name (legacyName r) \<and>
     (\<exists>item. contentItem r = Some item \<and> wf_block item)"

text \<open>The index of the oldest of the last records is one of theirs, and all are names.\<close>

definition names_ok :: "'db legacy_ledger \<Rightarrow> bool" where
  "names_ok st \<longleftrightarrow> (\<forall>n \<in> set (tailingRecords st) \<union> set (lastNames st). wf_name n) \<and> unat (lastNameTops st) < length (lastNames st)"

definition creatable :: "'db legacy_env \<Rightarrow> legacy_record \<Rightarrow> 'db legacy_ledger \<Rightarrow> bool" where
  "creatable E r st \<longleftrightarrow> 0 < precedingRecordNum (legacyConfig E) \<and> fresh_record r \<and> names_ok st"

lemmas creatable_defs = creatable_def fresh_record_def names_ok_def

text \<open>The packet, the record and the state after a record has been created.\<close>

lemma createRecord_result:
  assumes E: "legacy_env_ok E K" and r: "creatable E r st"
  obtains d r' st' where "createRecord E r st = (Inr (r', rc_noError (toUri (legacyLib E) (fullName (legacyLib E) d))), st')"
    and "r' = r\<lparr>legacyPointers := citations E st, recData := Some d\<rparr>" and "dataName d = legacyName r" and "freshness d = 300000" and "wf_data d"
    and "\<And>lo. recordOfData (legacyLib E) lo d = Inr (r'\<lparr>legacyType := None\<rparr>)"
    and "K (backend st') = (K (backend st))(toUri (legacyLib E) (getContentName (legacyName r)) \<mapsto> wire (legacyLib E) (dataBlock (legacyLib E) d))"
    and "published st' = published st @ [(dataBlock (legacyLib E) d, 300000, peerPrefix (legacyConfig E), tlv_Data)]"
    and "tailingRecords st' = filter (\<lambda>n. n \<notin> set (citations E st)) (insort_insert (fullName (legacyLib E) d) (tailingRecords st))"
    and "noPrevRecords st' = noPrevRecords st"
proof -
  let ?L = "legacyLib E"
  have codec: "ndn_codec ?L" by (rule legacy_databaseD [OF legacy_env_okD(1) [OF E]])
  then have tlv: "tlv_codec ?L" by (simp add: ndn_codec_def)
  obtain item where item: "contentItem r = Some item" "wf_block item" using r by (auto simp: creatable_defs)
  define r1 where "r1 = r\<lparr>legacyPointers := citations E st\<rparr>"
  obtain k where choose: "choosePointers E r st = (Inr r1, st\<lparr>shuffleCount := k\<rparr>)"
    using choosePointers_citations [OF E, of r st] r by (auto simp: creatable_defs r1_def)
  obtain b where b: "legacy_wireEncode ?L r1 = Inr b" "btype b = 21"
    using item by (simp add: legacy_wireEncode_def bodyWireEncode_def r1_def tlv_types)
  let ?p = "(emptyData (legacyName r))\<lparr>content := b, freshness := 300000\<rparr>"
  have "wf_data ?p" using r b(2) by (simp add: emptyData_def wf_data_def creatable_defs tlv_ContentType_Blob_def)
  then obtain d where d: "signIdentity E (peerPrefix (legacyConfig E)) ?p = Inr d"
    "dataName d = legacyName r" "content d = b" "freshness d = 300000" "wf_data d"
    using signs_packetsE [OF legacy_env_okD(4) [OF E, of "peerPrefix (legacyConfig E)"], of ?p] by (auto simp: emptyData_def)
  have "set (citations E st) \<subseteq> set (tailingRecords st) \<union> set (lastNames st)"
    using citations_set [OF E, of st] by (auto simp: cited_tails_def cited_lasts_def)
  then have "list_all wf_name (legacyPointers r1)" using r by (auto simp: r1_def creatable_defs list_all_iff)
  then have decode: "recordOfData ?L lo d = Inr (r1\<lparr>recData := Some d, legacyType := None\<rparr>)" for lo
    using recordOfData_encoded [OF tlv, of r1 d item lo] b(1) d(2,3) item r by (simp add: r1_def creatable_defs isGenesisRecord_def)
  have create: "createRecord E r st = bindM (addRecordToDAG E (r1\<lparr>recData := Some d\<rparr>)) (\<lambda>_.
       bindM (modifyM (\<lambda>st. st\<lparr>published := published st @ [(dataBlock ?L d, freshness d, peerPrefix (legacyConfig E), tlv_Data)]\<rparr>)) (\<lambda>_.
       ret (r1\<lparr>recData := Some d\<rparr>, rc_noError (toUri ?L (fullName ?L d))))) (st\<lparr>shuffleCount := k\<rparr>)"
    using choose b(1) d(1) by (simp add: createRecord_def bindM_def liftE_def Let_def r1_def)
  obtain st' where st': "createRecord E r st = (Inr (r1\<lparr>recData := Some d\<rparr>, rc_noError (toUri ?L (fullName ?L d))), st')"
    "backend st' = snd (backend_putRecord ?L (legacyDb E) d (backend st))"
    "published st' = published st @ [(dataBlock ?L d, 300000, peerPrefix (legacyConfig E), tlv_Data)]"
    "tailingRecords st' = filter (\<lambda>n. n \<notin> set (citations E st)) (insort_insert (fullName ?L d) (tailingRecords st))"
    "noPrevRecords st' = noPrevRecords st"
    using r d(4) unfolding create by (simp add: addRecordToDAG_def bindM_def modifyM_def ret_def creatable_defs Let_def r1_def)
  show thesis
    by (rule that [OF st'(1) _ d(2) d(4,5) _ _ st'(3-5)])
       (simp_all add: r1_def decode [unfolded r1_def] st'(2) put_keeps [OF legacy_env_okD(1) [OF E]] d(2))
qed

lemma fresh_demoNew: "fresh_record (demoNew s)"
  by (simp add: fresh_record_def demoNew_def emptyRecord_def isGenesisRecord_def generic_def wf_component_def tlv_Data_def)

lemma creatable_demo: "creatable demoLegacy (demoNew s) demoLegacyState"
  by (simp add: creatable_def fresh_demoNew names_ok_def demoLegacyState_def newLegacyState_def demoTail_def generic_def wf_component_def)

lemma cited_demo: "cited_tails demoLegacyState = [demoTail ''a'']" "cited_lasts demoLegacyState = [demoTail ''a'', demoTail ''b'']"
  by (simp_all add: cited_tails_def cited_lasts_def demoLegacyState_def newLegacyState_def)

text \<open>C34: a record with a payload and a name is created successfully: it cites records that have their predecessors,
  tails first, as many as the configuration says where there are as many; it is published and becomes a tail,
  its predecessors are tails no more; and it is got back by its content name.\<close>

theorem legacy_record_created:
  assumes "legacy_env_ok E K" and "creatable E r st"
  shows "\<exists>d r' st'. createRecord E r st = (Inr (r', rc_noError (toUri (legacyLib E) (fullName (legacyLib E) d))), st') \<and>
    set (legacyPointers r') \<subseteq> (set (tailingRecords st) \<union> set (lastNames st)) - set (noPrevRecords st) \<and>
    length (legacyPointers r') = min (precedingRecordNum (legacyConfig E)) (length (cited_tails st) + length (cited_lasts st)) \<and>
    getRecordFullName (legacyLib E) r' = fullName (legacyLib E) d \<and>
    set (tailingRecords st') = insert (fullName (legacyLib E) d) (set (tailingRecords st)) - set (legacyPointers r') \<and>
    published st' = published st @ [(dataBlock (legacyLib E) d, 300000, peerPrefix (legacyConfig E), tlv_Data)] \<and>
    legacy_getRecord E (getContentName (legacyName r)) st' = (Inr (Some (r'\<lparr>legacyType := None\<rparr>)), st')"
proof (rule createRecord_result [OF assms])
  fix d r' st'
  assume *: "createRecord E r st = (Inr (r', rc_noError (toUri (legacyLib E) (fullName (legacyLib E) d))), st')"
    "r' = r\<lparr>legacyPointers := citations E st, recData := Some d\<rparr>" "wf_data d"
    "\<And>lo. recordOfData (legacyLib E) lo d = Inr (r'\<lparr>legacyType := None\<rparr>)"
    "K (backend st') = (K (backend st))(toUri (legacyLib E) (getContentName (legacyName r)) \<mapsto> wire (legacyLib E) (dataBlock (legacyLib E) d))"
    "published st' = published st @ [(dataBlock (legacyLib E) d, 300000, peerPrefix (legacyConfig E), tlv_Data)]"
    "tailingRecords st' = filter (\<lambda>n. n \<notin> set (citations E st)) (insort_insert (fullName (legacyLib E) d) (tailingRecords st))"
  have "backend_getRecord (legacyLib E) (legacyDb E) (getContentName (legacyName r)) (backend st') = Inr (Some d)"
    using stored_record [OF legacy_env_okD(1) [OF assms(1)] _ *(3)] *(5) by (simp add: keepsPacket_def)
  then have get: "legacy_getRecord E (getContentName (legacyName r)) st' = (Inr (Some (r'\<lparr>legacyType := None\<rparr>)), st')"
    using *(4) by (simp add: legacy_getRecord_def bindM_def getsM_def liftE_def)
  have "set (citations E st) \<subseteq> (set (tailingRecords st) \<union> set (lastNames st)) - set (noPrevRecords st)"
    using citations_set [OF assms(1), of st] by (auto simp: cited_tails_def cited_lasts_def)
  then show ?thesis
    using citations_length [OF assms(1), of st] *(1,2,6,7) get
    by (intro exI [of _ d] exI [of _ r'] exI [of _ st']) (auto simp: getRecordFullName_def)
qed

theorem legacy_record_created_witness:
  "\<exists>d r' st'. createRecord demoLegacy (demoNew ''c'') demoLegacyState = (Inr (r', rc_noError (toUri ndnTlv (fullName ndnTlv d))), st') \<and>
    length (legacyPointers r') = 2 \<and> legacy_getRecord demoLegacy [generic ''c''] st' = (Inr (Some (r'\<lparr>legacyType := None\<rparr>)), st')"
proof -
  have *: "getContentName (legacyName (demoNew ''c'')) = [generic ''c'']"
    by (simp add: demoNew_def emptyRecord_def isMarker_def generic_def)
  obtain d r' st' where "createRecord demoLegacy (demoNew ''c'') demoLegacyState = (Inr (r', rc_noError (toUri ndnTlv (fullName ndnTlv d))), st')"
    and "length (legacyPointers r') = 2" and "legacy_getRecord demoLegacy [generic ''c''] st' = (Inr (Some (r'\<lparr>legacyType := None\<rparr>)), st')"
    using legacy_record_created [OF demoLegacy_ok creatable_demo, of "''c''"] by (auto simp: * cited_demo)
  then show ?thesis by blast
qed

text \<open>C35: with two predecessors to cite and one tail, which is among the last records too, a shuffle that puts it
  first there makes the ledger cite it twice; the record is created and published, and every ledger that
  receives it throws it away.\<close>

theorem legacy_repeated_pointer:
  assumes "legacy_env_ok E K" and "creatable E r st" and "precedingRecordNum (legacyConfig E) = 2" and "cited_tails st = [t]"
    and "shuffleWith E (Suc (shuffleCount st)) (cited_lasts st) = t # ns"
  shows "\<exists>d r' st'. createRecord E r st = (Inr (r', rc_noError (toUri (legacyLib E) (fullName (legacyLib E) d))), st') \<and>
    legacyPointers r' = [t, t] \<and>
    published st' = published st @ [(dataBlock (legacyLib E) d, 300000, peerPrefix (legacyConfig E), tlv_Data)] \<and>
    (\<forall>E' st2. legacyLib E' = legacyLib E \<longrightarrow> precedingRecordNum (legacyConfig E') = 2 \<longrightarrow>
       onRecordValid (E' :: 'a legacy_env) d st2 = (Inr (), st2))"
proof (rule createRecord_result [OF assms(1,2)])
  fix d r' st'
  assume *: "createRecord E r st = (Inr (r', rc_noError (toUri (legacyLib E) (fullName (legacyLib E) d))), st')"
    "r' = r\<lparr>legacyPointers := citations E st, recData := Some d\<rparr>"
    "\<And>lo. recordOfData (legacyLib E) lo d = Inr (r'\<lparr>legacyType := None\<rparr>)"
    "published st' = published st @ [(dataBlock (legacyLib E) d, 300000, peerPrefix (legacyConfig E), tlv_Data)]"
  have "shuffleWith E (shuffleCount st) [t] = [t]"
    using legacy_env_okD(2) [OF assms(1), of "shuffleCount st" "[t]"] by simp
  then have pointers: "citations E st = [t, t]" using assms(3-5) by (simp add: citations_def)
  then have "checkPointerCount 2 (r'\<lparr>legacyType := None\<rparr>) = Inl (RuntimeError ''Repeated preceding Records'')"
    by (simp add: checkPointerCount_def *(2))
  then have "onRecordValid E' d st2 = (Inr (), st2)"
    if "legacyLib E' = legacyLib E" and "precedingRecordNum (legacyConfig E') = 2" for E' :: "'a legacy_env" and st2
    using that *(3) by (simp add: onRecordValid_def catchM_def bindM_def liftE_def ret_def)
  then show ?thesis using *(1,2,4) pointers by auto
qed

theorem legacy_repeated_pointer_witness:
  "\<exists>d r' st'. createRecord demoLegacy (demoNew ''c'') demoLegacyState = (Inr (r', rc_noError (toUri ndnTlv (fullName ndnTlv d))), st') \<and>
    legacyPointers r' = [demoTail ''a'', demoTail ''a''] \<and> onRecordValid demoLegacy d demoLegacyState = (Inr (), demoLegacyState)"
proof -
  obtain d r' st' where "createRecord demoLegacy (demoNew ''c'') demoLegacyState = (Inr (r', rc_noError (toUri ndnTlv (fullName ndnTlv d))), st')"
    and "legacyPointers r' = [demoTail ''a'', demoTail ''a'']"
    and *: "\<forall>E' st2. legacyLib E' = ndnTlv \<longrightarrow> precedingRecordNum (legacyConfig E') = 2 \<longrightarrow>
      onRecordValid (E' :: (bytes \<rightharpoonup> bytes) legacy_env) d st2 = (Inr (), st2)"
    using legacy_repeated_pointer [OF demoLegacy_ok creatable_demo, of "demoTail ''a''" "[demoTail ''b'']" "''c''"]
    by (auto simp: cited_demo)
  then show ?thesis using * [rule_format, of demoLegacy demoLegacyState] by auto
qed

section \<open>Received records are never cited\<close>

text \<open>A full name ends with a digest, a content name has none.\<close>

definition digestName :: "name \<Rightarrow> bool" where
  "digestName n \<longleftrightarrow> n \<noteq> [] \<and> ctype (last n) = 1"

definition plainKeys :: "ndn \<Rightarrow> ('db \<Rightarrow> bytes \<Rightarrow> bytes option) \<Rightarrow> 'db \<Rightarrow> bool" where
  "plainKeys L K db \<longleftrightarrow> (\<forall>n. digestName n \<longrightarrow> K db (toUri L n) = None)"

datatype legacy_event = CreateRecord legacy_record | SyncData data

definition legacy_step :: "'db legacy_env \<Rightarrow> legacy_event \<Rightarrow> 'db legacy_ledger \<Rightarrow> 'db legacy_ledger" where
  "legacy_step E ev st = (case ev of CreateRecord r \<Rightarrow> snd (createRecord E r st) | SyncData d \<Rightarrow> snd (onSyncData E d st))"

text \<open>The packet in a publication, and the record it is accepted as.\<close>

definition innerData :: "ndn \<Rightarrow> data \<Rightarrow> exn + data" where
  "innerData L d = bindE (of_option (TlvError ''Block'') (readBlock L (bvalue (content d)))) (dataOf L)"

definition accepted_from :: "'db legacy_env \<Rightarrow> data \<Rightarrow> legacy_record \<Rightarrow> bool" where
  "accepted_from E syncData r \<longleftrightarrow> contentType syncData = tlv_Data \<and> (\<exists>d. innerData (legacyLib E) syncData = Inr d \<and>
     recordValidator E d = Some Valid \<and> recordOfData (legacyLib E) (leftoverName E) d = Inr r \<and>
     checkPointerCount (precedingRecordNum (legacyConfig E)) r = Inr ())"

text \<open>Names as they are meant: content names have no digest, pointers are full names.\<close>

definition plainName :: "name \<Rightarrow> bool" where
  "plainName n \<longleftrightarrow> wf_name n \<and> \<not> digestName (getContentName n)"

definition proper_event :: "'db legacy_env \<Rightarrow> legacy_event \<Rightarrow> bool" where
  "proper_event E ev \<longleftrightarrow> (case ev of
     CreateRecord r \<Rightarrow> plainName (legacyName r)
   | SyncData d \<Rightarrow> \<forall>r. accepted_from E d r \<longrightarrow> plainName (legacyName r) \<and> list_all digestName (legacyPointers r))"

lemma plainKeys_put:
  assumes D: "legacy_database L D K" and "plainKeys L K db" and "plainName (dataName d)"
  shows "plainKeys L K (snd (backend_putRecord L D d db))"
proof -
  have "ndn_codec L" by (rule legacy_databaseD [OF D])
  then show ?thesis
    using assms(2,3) ndn_codec.toUri_inject unfolding plainKeys_def plainName_def put_keeps [OF D] by fastforce
qed

lemma verifyOne_waits:
  assumes D: "legacy_database (legacyLib E) (legacyDb E) K" and "plainKeys (legacyLib E) K (backend st)"
    and "legacyPointers r = p # ps" and "digestName p"
  shows "verifyOne E r st = (let full = getRecordFullName (legacyLib E) r in
    (Inr [], st\<lparr>waitingReferenced := multiInsert p full (waitingReferenced st), noPrevRecords := insort_insert full (noPrevRecords st)\<rparr>))"
proof -
  have "backend_getRecord (legacyLib E) (legacyDb E) p (backend st) = Inr None"
    using assms(2,4) legacy_databaseD(2) [OF D] by (simp add: backend_getRecord_def plainKeys_def)
  then have "firstMissing E st (p # ps) = Inr (Some p)" by simp
  then show ?thesis by (simp only: verifyOne_def assms(3) Let_def sum.case option.case)
qed

definition legacy_inv :: "'db legacy_env \<Rightarrow> ('db \<Rightarrow> bytes \<Rightarrow> bytes option) \<Rightarrow> 'db legacy_ledger \<Rightarrow> bool" where
  "legacy_inv E K st \<longleftrightarrow> plainKeys (legacyLib E) K (backend st) \<and> names_ok st"

lemma top_in_range: "0 < n \<Longrightarrow> unat (of_nat (k mod n) :: 32 word) < n"
  by (rule le_less_trans [of _ "k mod n"]) (simp_all add: unsigned_of_nat take_bit_eq_mod)

lemma addRecordToDAG_inv:
  assumes "legacy_env_ok E K" and inv: "legacy_inv E K st" and "recData r = Some d" and "plainName (dataName d)"
  obtains st' where "addRecordToDAG E r st = (Inr (), st')" and "legacy_inv E K st'" and "noPrevRecords st' = noPrevRecords st"
    and "callbackSet st' = callbackSet st" and "announced st' = announced st"
proof -
  have "0 < length (lastNames st)" using inv by (auto simp: legacy_inv_def names_ok_def)
  note top = top_in_range [OF this]
  obtain st' where st': "addRecordToDAG E r st = (Inr (), st')" "backend st' = snd (backend_putRecord (legacyLib E) (legacyDb E) d (backend st))"
    "lastNames st' = (lastNames st)[unat (lastNameTops st) := fullName (legacyLib E) d]"
    "tailingRecords st' = filter (\<lambda>n. n \<notin> set (legacyPointers r)) (insort_insert (fullName (legacyLib E) d) (tailingRecords st))" "lastNameTops st' = of_nat (unat (lastNameTops st + 1) mod length (lastNames st))"
    "noPrevRecords st' = noPrevRecords st" "callbackSet st' = callbackSet st" "announced st' = announced st"
    using inv by (simp add: addRecordToDAG_def assms(3) Let_def legacy_inv_def names_ok_def)
  have "plainKeys (legacyLib E) K (backend st')"
    unfolding st'(2) by (rule plainKeys_put [OF legacy_env_okD(1) [OF assms(1)] _ assms(4)]) (use inv in \<open>simp add: legacy_inv_def\<close>)
  moreover have "wf_name (fullName (legacyLib E) d)" using assms(4) by (simp add: plainName_def wf_fullName)
  then have "names_ok st'" using inv top
    by (auto simp: names_ok_def legacy_inv_def st'(3-5) dest!: subsetD [OF set_update_subset_insert])
  ultimately have "legacy_inv E K st'" by (simp add: legacy_inv_def)
  then show thesis by (rule that [OF st'(1) _ st'(6-8)])
qed

lemma choosePointers_frame: "preserves (\<lambda>st. (backend st, lastNames st, lastNameTops st, tailingRecords st, noPrevRecords st)) (choosePointers E r)"
  unfolding choosePointers_def shuffleAndAddPrev_def by (intro preserves_rules) simp_all

lemma choosePointers_name:
  assumes "choosePointers E r st = (Inr r', st')"
  shows "legacyName r' = legacyName r"
  using assms
  by (auto simp: choosePointers_def shuffleAndAddPrev_def bindM_def getsM_def modifyM_def liftE_def ret_def
      split: sum.splits if_splits dest!: addPrev_name)

lemma createRecord_inv:
  assumes E: "legacy_env_ok E K" and inv: "legacy_inv E K st" and plain: "plainName (legacyName r)"
  shows "legacy_inv E K (snd (createRecord E r st))" and "noPrevRecords (snd (createRecord E r st)) = noPrevRecords st"
proof -
  obtain res st1 where choose: "choosePointers E r st = (res, st1)" by fastforce
  have frame: "backend st1 = backend st" "lastNames st1 = lastNames st" "lastNameTops st1 = lastNameTops st" "tailingRecords st1 = tailingRecords st"
    "noPrevRecords st1 = noPrevRecords st"
    using choosePointers_frame [of E r] choose unfolding preserves_def by (metis prod.inject snd_conv)+
  then have inv1: "legacy_inv E K st1" using inv by (simp add: legacy_inv_def names_ok_def)
  have "legacy_inv E K (snd (createRecord E r st)) \<and> noPrevRecords (snd (createRecord E r st)) = noPrevRecords st"
  proof (cases res)
    case (Inl e)
    then show ?thesis using choose inv1 frame by (simp add: createRecord_def bindM_def)
  next
    case (Inr r1)
    show ?thesis
    proof (cases "legacy_wireEncode (legacyLib E) r1")
      case (Inl e)
      then show ?thesis using choose inv1 frame Inr by (simp add: createRecord_def bindM_def liftE_def)
    next
      case encoded: (Inr b)
      let ?p = "(emptyData (legacyName r1))\<lparr>content := b, freshness := 300000\<rparr>"
      obtain d where d: "signIdentity E (peerPrefix (legacyConfig E)) ?p = Inr d" "dataName d = legacyName r1"
        using signs_packetsE [OF legacy_env_okD(4) [OF E, of "peerPrefix (legacyConfig E)"], of ?p] by (auto simp: emptyData_def)
      have "plainName (dataName d)" using plain d(2) choosePointers_name [of E r st r1 st1] choose Inr by simp
      then obtain st2 where "addRecordToDAG E (r1\<lparr>recData := Some d\<rparr>) st1 = (Inr (), st2)" "legacy_inv E K st2" "noPrevRecords st2 = noPrevRecords st1"
        by (rule addRecordToDAG_inv [OF E inv1, of "r1\<lparr>recData := Some d\<rparr>" d, rotated]) simp_all
      then show ?thesis using choose frame Inr encoded d(1)
        by (simp add: createRecord_def bindM_def liftE_def modifyM_def ret_def Let_def legacy_inv_def names_ok_def)
    qed
  qed
  then show "legacy_inv E K (snd (createRecord E r st))" and "noPrevRecords (snd (createRecord E r st)) = noPrevRecords st" by simp_all
qed

lemma recordOfData_name:
  "recordOfData L lo d = Inr r \<Longrightarrow> recData r = Some d \<and> legacyName r = dataName d"
  by (auto simp: recordOfData_def Let_def bindE_eq_Inr emptyRecord_def split: if_splits)

lemma onSyncData_rejected:
  assumes "\<nexists>r. accepted_from E d r"
  shows "snd (onSyncData E d st) = st"
proof (cases "contentType d = tlv_Data \<and> (\<exists>inner. innerData (legacyLib E) d = Inr inner \<and> recordValidator E inner = Some Valid)")
  case True
  then obtain inner where inner: "innerData (legacyLib E) d = Inr inner" "recordValidator E inner = Some Valid" by blast
  have "snd (onRecordValid E inner st) = st"
    using assms True inner
    by (cases "recordOfData (legacyLib E) (leftoverName E) inner")
       (auto simp: onRecordValid_def accepted_from_def catchM_def bindM_def liftE_def ret_def split: sum.splits)
  then show ?thesis using True inner by (simp add: onSyncData_def innerData_def bindM_def liftE_def)
next
  case False
  then show ?thesis
    by (cases "innerData (legacyLib E) d")
       (auto simp: onSyncData_def innerData_def bindM_def liftE_def ret_def split: option.splits validation.splits)
qed

lemma onSyncData_accepted:
  assumes E: "legacy_env_ok E K" and inv: "legacy_inv E K st" and "0 < precedingRecordNum (legacyConfig E)"
    and acc: "accepted_from E d r" and ev: "proper_event E (SyncData d)"
  shows "\<exists>st'. onSyncData E d st = (Inr (), st') \<and> legacy_inv E K st' \<and>
    noPrevRecords st' = insort_insert (getRecordFullName (legacyLib E) r) (noPrevRecords st) \<and>
    announced st' = announced st @ (if callbackSet st then [r] else [])"
proof -
  obtain inner where inner: "contentType d = tlv_Data" "innerData (legacyLib E) d = Inr inner" "recordValidator E inner = Some Valid"
    "recordOfData (legacyLib E) (leftoverName E) inner = Inr r" "checkPointerCount (precedingRecordNum (legacyConfig E)) r = Inr ()"
    using acc by (auto simp: accepted_from_def)
  have data: "recData r = Some inner" "plainName (dataName inner)" and pointers: "list_all digestName (legacyPointers r)"
    using recordOfData_name [OF inner(4)] ev acc by (auto simp: proper_event_def)
  have "legacyPointers r \<noteq> []" using inner(5) assms(3) by (auto simp: checkPointerCount_def split: if_splits)
  then obtain p ps where p: "legacyPointers r = p # ps" "digestName p" using pointers by (cases "legacyPointers r") auto
  obtain st1 where st1: "addRecordToDAG E r st = (Inr (), st1)" "legacy_inv E K st1" "noPrevRecords st1 = noPrevRecords st"
    "callbackSet st1 = callbackSet st" "announced st1 = announced st"
    using addRecordToDAG_inv [OF E inv data] by blast
  have plain: "plainKeys (legacyLib E) K (backend st1)" using st1(2) by (simp add: legacy_inv_def)
  show ?thesis
    using st1 inner verifyOne_waits [OF legacy_env_okD(1) [OF E] plain p]
    by (simp add: onSyncData_def onRecordValid_def innerData_def verifyPreviousRecord_def catchM_def bindM_def liftE_def modifyM_def
        Let_def legacy_inv_def names_ok_def)
qed

lemma legacy_step_inv:
  assumes "legacy_env_ok E K" and "legacy_inv E K st" and "0 < precedingRecordNum (legacyConfig E)" and "proper_event E ev"
  shows "legacy_inv E K (legacy_step E ev st)" and "set (noPrevRecords st) \<subseteq> set (noPrevRecords (legacy_step E ev st))"
proof -
  have "legacy_inv E K (legacy_step E ev st) \<and> set (noPrevRecords st) \<subseteq> set (noPrevRecords (legacy_step E ev st))"
  proof (cases ev)
    case (CreateRecord r)
    then show ?thesis using createRecord_inv [OF assms(1,2), of r] assms(4) by (simp add: legacy_step_def proper_event_def)
  next
    case (SyncData d)
    show ?thesis
    proof (cases "\<exists>r. accepted_from E d r")
      case True
      then obtain r where "accepted_from E d r" by blast
      then obtain st' where "onSyncData E d st = (Inr (), st')" "legacy_inv E K st'"
        "noPrevRecords st' = insort_insert (getRecordFullName (legacyLib E) r) (noPrevRecords st)"
        using onSyncData_accepted [OF assms(1-3)] assms(4) SyncData by blast
      then show ?thesis by (auto simp: legacy_step_def SyncData)
    next
      case False
      then show ?thesis using assms(2) by (simp add: legacy_step_def SyncData onSyncData_rejected)
    qed
  qed
  then show "legacy_inv E K (legacy_step E ev st)" and "set (noPrevRecords st) \<subseteq> set (noPrevRecords (legacy_step E ev st))" by simp_all
qed

lemma legacy_session:
  assumes "legacy_env_ok E K" and "legacy_inv E K st" and "0 < precedingRecordNum (legacyConfig E)" and "\<forall>ev \<in> set evs. proper_event E ev"
  shows "legacy_inv E K (fold (legacy_step E) evs st) \<and> set (noPrevRecords st) \<subseteq> set (noPrevRecords (fold (legacy_step E) evs st)) \<and>
    (\<forall>d r. SyncData d \<in> set evs \<longrightarrow> accepted_from E d r \<longrightarrow>
      getRecordFullName (legacyLib E) r \<in> set (noPrevRecords (fold (legacy_step E) evs st)))"
  using assms(2,4)
proof (induction evs arbitrary: st)
  case (Cons ev evs)
  have ev: "proper_event E ev" using Cons.prems by simp
  note step = legacy_step_inv [OF assms(1) Cons.prems(1) assms(3) ev]
  have "getRecordFullName (legacyLib E) r \<in> set (noPrevRecords (legacy_step E ev st))" if "ev = SyncData d" and "accepted_from E d r" for d r
    using onSyncData_accepted [OF assms(1) Cons.prems(1) assms(3) that(2)] that(1) ev by (auto simp: legacy_step_def)
  then show ?case using Cons.IH [OF step(1)] Cons.prems(2) step(2) by fastforce
qed simp

lemma genesis_content: "\<exists>r. genesisRecord i = Inr r \<and> legacyName r = [generic ''cert-ledger'', generic ''GENESIS_RECORD'', generic (decimal i)] \<and>
    plainName (legacyName r) \<and> contentItem r = Some (Block tlv_Name [])"
  by (simp add: genesisRecord_def recordNamed_def setContentItem_def emptyRecord_def isMarker_def generic_def plainName_def digestName_def wf_component_def)

lemma addGenesis_runs:
  assumes "legacy_env_ok E K" and "plainKeys (legacyLib E) K (backend st)" and "\<forall>n \<in> set (tailingRecords st) \<union> set (lastNames st). wf_name n"
  shows "runs (addGenesis E i) st (\<lambda>_ st'. plainKeys (legacyLib E) K (backend st') \<and> (\<forall>n \<in> set (tailingRecords st') \<union> set (lastNames st'). wf_name n) \<and>
    length (lastNames st') = Suc (length (lastNames st)) \<and> lastNameTops st' = lastNameTops st \<and> noPrevRecords st' = noPrevRecords st)"
proof -
  obtain r where r: "genesisRecord i = Inr r" "plainName (legacyName r)" "contentItem r = Some (Block tlv_Name [])"
    using genesis_content by blast
  obtain b where b: "legacy_wireEncode (legacyLib E) r = Inr b" using r(3) by (simp add: legacy_wireEncode_def bodyWireEncode_def)
  let ?p = "(emptyData (legacyName r))\<lparr>content := b\<rparr>"
  obtain d where d: "signSha256 E ?p = Inr d" "dataName d = legacyName r"
    using signs_packetsE [OF legacy_env_okD(3) [OF assms(1)], of ?p] by (auto simp: emptyData_def)
  have plain: "plainName (dataName d)" using d(2) r(2) by simp
  note put = plainKeys_put [OF legacy_env_okD(1) [OF assms(1)] assms(2) plain]
  have "wf_name (fullName (legacyLib E) d)" using plain by (simp add: plainName_def wf_fullName)
  then show ?thesis using r(1) b d(1) put assms(3) by (auto simp: addGenesis_def runs_rules Let_def)
qed

lemma newLegacyLedger_inv:
  assumes "legacy_env_ok E K" and "newLegacyLedger E openDb = Inr st"
    and "\<And>db. openDb (databasePath (legacyConfig E)) = Some db \<Longrightarrow> plainKeys (legacyLib E) K db"
  shows "legacy_inv E K st" and "noPrevRecords st = []" and "1 < precedingRecordNum (legacyConfig E)"
proof -
  obtain db where db: "openDb (databasePath (legacyConfig E)) = Some db" "1 < precedingRecordNum (legacyConfig E)"
    "precedingRecordNum (legacyConfig E) \<le> numGenesisBlock (legacyConfig E)"
    "forM (addGenesis E) [0..<numGenesisBlock (legacyConfig E)] (newLegacyState db) = (Inr (), st)"
    using assms(2) by (auto simp: newLegacyLedger_def newBackend_def Let_def bindE_eq_Inr split: if_splits prod.splits sum.splits)
  have "runs (forM (addGenesis E) [0..<numGenesisBlock (legacyConfig E)]) (newLegacyState db) (\<lambda>_ st.
    plainKeys (legacyLib E) K (backend st) \<and> (\<forall>n \<in> set (tailingRecords st) \<union> set (lastNames st). wf_name n) \<and>
    length (lastNames st) = length [0..<numGenesisBlock (legacyConfig E)] \<and> lastNameTops st = 0 \<and> noPrevRecords st = [])"
    by (rule runs_forM [where J = "\<lambda>vs st. plainKeys (legacyLib E) K (backend st) \<and> (\<forall>n \<in> set (tailingRecords st) \<union> set (lastNames st). wf_name n) \<and>
          length (lastNames st) = length vs \<and> lastNameTops st = 0 \<and> noPrevRecords st = []"])
       (use assms(3) [OF db(1)] in \<open>auto simp: newLegacyState_def intro: runs_mono [OF addGenesis_runs [OF assms(1)]]\<close>)
  then show "legacy_inv E K st" and "noPrevRecords st = []" and "1 < precedingRecordNum (legacyConfig E)"
    using db(2-4) by (auto simp: runs_def legacy_inv_def names_ok_def)
qed

lemma newLegacyLedger_starts:
  assumes "legacy_env_ok E K" and "openDb (databasePath (legacyConfig E)) = Some db" and "plainKeys (legacyLib E) K db"
    and "1 < precedingRecordNum (legacyConfig E)" and "precedingRecordNum (legacyConfig E) \<le> numGenesisBlock (legacyConfig E)"
  shows "\<exists>st. newLegacyLedger E openDb = Inr st"
proof -
  have "runs (forM (addGenesis E) [0..<numGenesisBlock (legacyConfig E)]) (newLegacyState db) (\<lambda>_ st.
    plainKeys (legacyLib E) K (backend st) \<and> (\<forall>n \<in> set (tailingRecords st) \<union> set (lastNames st). wf_name n))"
    by (rule runs_forM [where J = "\<lambda>_ st. plainKeys (legacyLib E) K (backend st) \<and> (\<forall>n \<in> set (tailingRecords st) \<union> set (lastNames st). wf_name n)"])
       (use assms(3) in \<open>auto simp: newLegacyState_def intro: runs_mono [OF addGenesis_runs [OF assms(1)]]\<close>)
  then show ?thesis using assms(2,4,5) by (auto simp: newLegacyLedger_def newBackend_def runs_def)
qed

text \<open>C33: a ledger never cites a record that it received, when names are what they are meant to be: it looks the
  predecessors of a received record up by their full names, and its database has content names; so each
  received record waits for ever for its first predecessor.\<close>

theorem received_never_cited:
  assumes "legacy_env_ok E K" and "newLegacyLedger E openDb = Inr st0"
    and "\<And>db. openDb (databasePath (legacyConfig E)) = Some db \<Longrightarrow> plainKeys (legacyLib E) K db"
    and "\<forall>ev \<in> set evs. proper_event E ev" and "SyncData d \<in> set evs" and "accepted_from E d r"
    and "fresh_record r'"
  shows "\<exists>r'' rc st'. createRecord E r' (fold (legacy_step E) evs st0) = (Inr (r'', rc), st') \<and> rcCode rc = EC_OK \<and>
    getRecordFullName (legacyLib E) r \<notin> set (legacyPointers r'') \<and> getRecordFullName (legacyLib E) r \<in> set (noPrevRecords st')"
proof -
  note init = newLegacyLedger_inv [OF assms(1-3)]
  let ?st = "fold (legacy_step E) evs st0"
  have session: "legacy_inv E K ?st" "getRecordFullName (legacyLib E) r \<in> set (noPrevRecords ?st)"
    using legacy_session [OF assms(1) init(1) _ assms(4)] init(3) assms(5,6) by simp_all
  then have "creatable E r' ?st" using init(3) assms(7) by (simp add: creatable_def legacy_inv_def)
  with session(2) show ?thesis
    using citations_set [OF assms(1), of "fold (legacy_step E) evs st0"]
    by (rule_tac createRecord_result [OF assms(1)]) (assumption, auto simp: rc_noError_def cited_tails_def cited_lasts_def)
qed

text \<open>A record of another participant, the packet that carries it and its publication.\<close>

definition demoLegacyReceived :: legacy_record where
  "demoLegacyReceived = (demoNew ''other'')\<lparr>legacyPointers := [demoTail ''x'', demoTail ''y'']\<rparr>"

definition demoInner :: data where
  "demoInner = (emptyData (legacyName demoLegacyReceived))\<lparr>content :=
     encodeBlock ndnTlv tlv_Content [headerWireEncode ndnTlv demoLegacyReceived, encodeBlock ndnTlv T_RecordContent [Block tlv_Data []]]\<rparr>"

definition demoSync :: data where
  "demoSync = (emptyData [])\<lparr>contentType := tlv_Data, content := Block tlv_Content (wire ndnTlv (dataBlock ndnTlv demoInner))\<rparr>"

lemma demo_tlv: "tlv_codec ndnTlv"
  using tlv.ndn_codec_axioms by (simp add: ndn_codec_def)

lemma demo_innerData: "innerData ndnTlv demoSync = Inr demoInner"
proof -
  have "wf_data demoInner"
    by (simp add: wf_data_def demoInner_def emptyData_def demoLegacyReceived_def demoNew_def emptyRecord_def tlv_types tlv_ContentType_Blob_def)
  then show ?thesis
    using tlv.readDataBytes_dataBytes [of demoInner] tlv.readBlock_wire [of "dataBlock ndnTlv demoInner"]
    by (simp add: innerData_def demoSync_def dataOf_def dataBlock_def tlv_Data_def)
qed

lemma demo_decoded: "recordOfData ndnTlv lo demoInner = Inr (demoLegacyReceived\<lparr>recData := Some demoInner, legacyType := None\<rparr>)"
proof (rule recordOfData_encoded [OF demo_tlv, where item = "Block tlv_Data []"])
  show "legacy_wireEncode ndnTlv demoLegacyReceived = Inr (content demoInner)"
    by (simp add: legacy_wireEncode_def bodyWireEncode_def demoInner_def demoLegacyReceived_def demoNew_def)
qed (simp_all add: demoLegacyReceived_def demoNew_def demoTail_def emptyRecord_def demoInner_def emptyData_def isGenesisRecord_def
       generic_def wf_component_def tlv_types)

lemma demo_accepted: "accepted_from demoLegacy demoSync r \<longleftrightarrow> r = demoLegacyReceived\<lparr>recData := Some demoInner, legacyType := None\<rparr>"
proof -
  have "checkPointerCount 2 (demoLegacyReceived\<lparr>recData := Some demoInner, legacyType := None\<rparr>) = Inr ()"
    by (simp add: checkPointerCount_def demoLegacyReceived_def demoTail_def)
  then show ?thesis using demo_innerData demo_decoded by (auto simp: accepted_from_def demoSync_def)
qed

lemma demo_proper: "proper_event demoLegacy (SyncData demoSync)"
  by (simp add: proper_event_def demo_accepted plainName_def digestName_def demoLegacyReceived_def demoNew_def demoTail_def emptyRecord_def
      isMarker_def generic_def wf_component_def)

theorem received_never_cited_witness:
  "\<exists>st0 r'' rc st'. newLegacyLedger demoLegacy (\<lambda>_. Some Map.empty) = Inr st0 \<and>
    createRecord demoLegacy (demoNew ''c'') (legacy_step demoLegacy (SyncData demoSync) st0) = (Inr (r'', rc), st') \<and> rcCode rc = EC_OK \<and>
    fullName ndnTlv demoInner \<notin> set (legacyPointers r'') \<and> fullName ndnTlv demoInner \<in> set (noPrevRecords st')"
proof -
  have plain: "plainKeys ndnTlv (\<lambda>db. db) Map.empty" by (simp add: plainKeys_def)
  then obtain st0 where st0: "newLegacyLedger demoLegacy (\<lambda>_. Some Map.empty) = Inr st0"
    using newLegacyLedger_starts [OF demoLegacy_ok, of "\<lambda>_. Some Map.empty" Map.empty] by auto
  have "\<exists>r'' rc st'. createRecord demoLegacy (demoNew ''c'') (fold (legacy_step demoLegacy) [SyncData demoSync] st0) = (Inr (r'', rc), st') \<and>
    rcCode rc = EC_OK \<and> getRecordFullName (legacyLib demoLegacy) (demoLegacyReceived\<lparr>recData := Some demoInner, legacyType := None\<rparr>) \<notin> set (legacyPointers r'') \<and>
    getRecordFullName (legacyLib demoLegacy) (demoLegacyReceived\<lparr>recData := Some demoInner, legacyType := None\<rparr>) \<in> set (noPrevRecords st')"
    by (rule received_never_cited [OF demoLegacy_ok st0, where d = demoSync]) (use plain in \<open>simp_all add: demo_accepted demo_proper fresh_demoNew\<close>)
  then show ?thesis using st0 by (simp add: getRecordFullName_def)
qed

text \<open>A record that others wait for, where none waits for a greater one: the loop over them reads behind the end.\<close>

lemma waiting_read_past_end:
  assumes "(full, n) \<in> set (waitingReferenced st)" and "\<forall>e \<in> set (waitingReferenced st). fst e \<le> full"
  shows "fst (takeWaiting full st) = Inl (UndefinedBehaviour ''end iterator'')"
proof -
  have "(full, n) \<in> set (filter (\<lambda>e. fst e = full) (waitingReferenced st))" using assms(1) by simp
  then have "map snd (filter (\<lambda>e. fst e = full) (waitingReferenced st)) \<noteq> []" by (metis empty_iff list.map_disc_iff list.set(1))
  moreover have "\<not> (\<exists>e \<in> set (waitingReferenced st). full < fst e)" using assms(2) by (auto simp: not_less)
  ultimately show ?thesis by (simp add: takeWaiting_def Let_def)
qed

section \<open>Which sequence numbers are asked for\<close>

lemma requestFrom_ends:
  assumes "hi < - 1" and "unat hi + 1 - unat i = n"
  shows "requestFrom node hi i asked = Some (asked @ map (\<lambda>k. (node, of_nat k)) [unat i..<Suc (unat hi)])"
  using assms(2)
proof (induction n arbitrary: i asked)
  case 0
  then show ?case by (subst requestFrom.simps) (simp add: word_le_nat_alt)
next
  case (Suc n)
  have le: "unat i \<le> unat hi" using Suc.prems by simp
  have "i < - 1" using le assms(1) by (simp add: word_less_nat_alt)
  then have next_i: "unat (i + 1) = Suc (unat i)" by (metis add.commute unatSuc word_order.extremum_strict add_eq_0_iff less_irrefl)
  have "[unat i..<Suc (unat hi)] = unat i # [Suc (unat i)..<Suc (unat hi)]" using le by (simp add: upt_conv_Cons)
  then show ?case using Suc.IH [of "i + 1" "asked @ [(node, i)]"] Suc.prems le next_i
    by (subst requestFrom.simps) (simp add: word_le_nat_alt)
qed

lemma requestFrom_endless: "requestFrom node (- 1) i asked = None"
proof -
  have "hi = - 1 \<longrightarrow> False" if "requestFrom node hi i asked = Some y" for hi y
    using that by (rule requestFrom.raw_induct [rotated]) (auto split: if_splits)
  then show ?thesis by (cases "requestFrom node (- 1) i asked") auto
qed

text \<open>C36: an update asks for exactly the missing sequence numbers of each stream, in order; but if one of the streams has
  reached the greatest number of 64 bits, the loop over its numbers never ends.\<close>

theorem updates_requested:
  "onUpdate info st = (if \<exists>s \<in> set info. high s = - 1 then None
     else Some (st\<lparr>requested := requested st @ concat (map (\<lambda>s. map (\<lambda>k. (nodeId s, of_nat k)) [unat (low s)..<Suc (unat (high s))]) info)\<rparr>))"
proof (induction info arbitrary: st)
  case (Cons s info)
  show ?case
  proof (cases "high s = - 1")
    case True
    then show ?thesis by (simp add: requestFrom_endless)
  next
    case False
    then have "high s < - 1" by (simp add: word_order.not_eq_extremum)
    note requestFrom_ends [OF this refl, of "nodeId s" "low s" "requested st"]
    then show ?thesis using False by (simp add: Cons.IH del: upt_Suc)
  qed
qed simp

end
