(* ===== verification/Spec2Isabelle.thy ===== *)
theory Spec2Isabelle
  imports Append_Theorems Base_Theorems Checker_Theorems Status_Theorems Client_Theorems Checker_Tool Ledger_Tool Legacy_Theorems
begin

text \<open>
  A model of Cert Ledger, a distributed ledger of certificates over NDN, with proofs of its properties.

  \<^bold>\<open>The program.\<close> A ledger instance (\<open>src/ledger-module\<close>) keeps records. A record (\<open>src/record\<close>) has a name, a
  type, pointers to earlier records and a payload, a certificate as a packet. Records come from two sides: a
  client submits a certificate (\<open>src/append\<close>), for which the instance makes a record that cites its tips, or
  another instance publishes a record over the sync protocol (\<open>src/sync\<close>). Each record goes into the DAG
  (\<open>src/dag\<close>), which keeps for each an edge state with the records that reach it; an interlock policy makes
  a number of those descendants, and a record whose number reaches a threshold is interlocked. When no
  record has come for a while the instance publishes a reply record that cites what waits. A checker
  (\<open>src/checker\<close>) asks for the record of a certificate and the records that interlock it; a reply comes in
  segments (\<open>src/util/segment\<close>). Four tools (\<open>tools\<close>) run a ledger, submit, check, and show a ledger's state.
  The predecessor of the ledger (\<open>legacy\<close>) is kept in the repository, without being built.

  \<^bold>\<open>Conventions\<close> (\<open>Ledger_Prelude\<close>). Each C++ class is a record, each member function a definition with the same name,
  or with its class before it; a callback that the code hands to the face, a timer or the validator is a
  definition of its own, called by the environment. Code that changes state is a function from a state to a
  result or exception together with the new state; the state that an exception leaves behind is kept. Integers
  that can wrap are words.

  \<^bold>\<open>Theories.\<close>
  \<^item> \<open>Ledger_Prelude\<close>: exceptions, state and exception monad, total correctness \<open>runs\<close>, lemmas on sets and maps
    kept as sorted lists. \<open>Ndn_Lib\<close>: what is used of ndn-cxx, as a record of functions \<open>ndn\<close> with the locales
    \<open>tlv_codec\<close> and \<open>ndn_codec\<close> for the laws relied on; \<open>Ndn_Tlv\<close>: a concrete codec that satisfies them.
  \<^item> \<open>Ledger_Record\<close>, \<open>Edge_State\<close>, \<open>Ledger_Objects\<close>, \<open>Nack\<close>: \<open>record.cpp\<close>, \<open>dag/edge-state.cpp\<close>, \<open>dag/edge-state-list.cpp\<close>,
    \<open>dag/payload-map.cpp\<close>, \<open>nack.cpp\<close>, with the round trips. \<open>Storage\<close>: \<open>storage\<close>, both backends, and the locale
    \<open>block_store\<close> that both are instances of. \<open>Interlock_Policy\<close>: \<open>dag/interlock-policy*\<close>.
  \<^item> \<open>Dag_Module\<close>: \<open>dag/dag-module.cpp\<close>. \<open>Dag_Spec\<close> is the abstract DAG, a graph of nodes with status and
    descendants; \<open>Dag_Refine\<close>, \<open>Dag_Waitlist\<close>, \<open>Dag_Operations\<close> and \<open>Dag_Session\<close> prove, operation by operation, that the
    module on a storage backend does to its edge states what the specification does to the graph, and that
    the waitlist files each accepted record under its policy value; \<open>Dag_Theorems\<close> has the properties. A session
    (\<open>dagRun\<close>) is any sequence of \<open>add\<close>, \<open>harvestAbove\<close> with \<open>remove\<close> true or false (the default), \<open>harvestBelow\<close> and
    \<open>getWaitList\<close>; \<open>keptOf\<close> are the interlocked records that harvests without removal have left in the waitlist
    (later harvests return them again), \<open>dag_inv_in\<close> the invariant with them, \<open>dag_inv\<close> the one without.
  \<^item> \<open>Sync_Module\<close>: \<open>sync\<close>. \<open>Segment_Producer\<close>: \<open>util/segment/producer.cpp\<close>. \<open>Ledger_Config\<close>: \<open>ledger-config.cpp\<close>.
  \<^item> \<open>Ledger_Module\<close>: \<open>ledger-module.cpp\<close>. \<open>Ledger_Inv\<close>, \<open>Ledger_Handlers\<close>, \<open>Ledger_Events\<close>, \<open>Ledger_Session\<close> and \<open>Ledger_Reach\<close> give the
    invariant \<open>ledger_inv\<close> and what each handler does to the graph, the tracker and the other stored objects, to
    the byte: \<open>publication\<close> is what the sync library stores for a record, \<open>payloadMapOf\<close> the payload map.
    \<open>ledger_reach\<close> is reachability by events, \<open>ledger_reach_in\<close> by events whose packets and records have given names;
    \<open>stored_in\<close> then says what is stored besides edge states and tracker. \<open>Ledger_Theorems\<close> has the properties,
    \<open>Ledger_Answers\<close> those of queries. The ledger harvests with removal only, so its waitlist keeps nothing interlocked.
  \<^item> \<open>Append_Common\<close>, \<open>Append_Options\<close>, \<open>Append_Client\<close>, \<open>Append_Ledger\<close>: \<open>append\<close>, with \<open>error.cpp\<close>; \<open>Append_Theorems\<close>: the whole
    exchange of a client and a ledger, retries, several tasks.
  \<^item> \<open>Segment_Fetcher\<close>, \<open>Segment_Pipeline\<close>, \<open>Segment_Consumer\<close>: \<open>util/segment/data-fetcher.cpp\<close>, \<open>pipeline-interests*.cpp\<close>,
    \<open>consumer.cpp\<close>. \<open>Pipeline_Inv\<close>: the invariant of the pipeline and its window. \<open>Segment_Fetch\<close>: a network that may
    lose and reorder within the retries, and the transfer of a whole reply, in the locale \<open>reply_transfer\<close>.
    \<open>Reply_Session\<close> connects it to the segments that a ledger makes.
  \<^item> \<open>Checker\<close>: \<open>checker.cpp\<close>, \<open>checker-state.cpp\<close>, \<open>util/validate-multiple.cpp\<close>; \<open>Checker_Theorems\<close>: properties, up to the way from a
    ledger's reply to the callback of a check.
  \<^item> \<open>Certificate_Source\<close>: \<open>util/io.cpp\<close>. \<open>Tool_Arguments\<close>, \<open>Client_Tool\<close>, \<open>Checker_Tool\<close>, \<open>Ledger_Tool\<close>, \<open>Status_Tool\<close>: \<open>tools\<close>;
    \<open>Certificate_Theorems\<close>, \<open>Client_Theorems\<close> and \<open>Status_Theorems\<close>: their properties, the client tool's and the status
    tool's together with the ledger they talk to.
  \<^item> \<open>Legacy_Record\<close>, \<open>Legacy_Backend\<close>, \<open>Legacy_Ledger\<close>: \<open>legacy/record.cpp\<close>, \<open>legacy/backend.cpp\<close>, \<open>legacy/cert-ledger.cpp\<close> with its
    configuration, return codes and \<open>legacy/util\<close>. \<open>Legacy_Theorems\<close>: the invariant \<open>legacy_inv\<close> of a session of created and
    received records, what a new record cites, that received records are never cited, which numbers are asked for.
  \<^item> \<open>Base_Theorems\<close>: properties of the base components and of the configuration.

  \<^bold>\<open>Interfaces.\<close> The locales \<open>tlv_codec\<close>, \<open>ndn_codec\<close>, \<open>block_store\<close>, \<open>dag_store\<close>, \<open>dag_module\<close>, the policies', \<open>ledger_instance\<close>,
  \<open>segment_client\<close> and \<open>reply_transfer\<close> state what a component promises; each is interpreted on the definitions
  of the code that provides it (the memory and LevelDB backends, both policies, a ledger on the memory
  backend, the consumer, the segments of a reply).

  \<^bold>\<open>Parameters.\<close> The NDN library (\<open>ndn\<close>), the face's signing (\<open>face_lib\<close>), the SVS library (\<open>svs_lib\<close>), the LevelDB database,
  the validator, the clock (\<open>clock\<close>), random numbers, the JSON reader, the PIB, the file system and the parser of
  command lines are parameters; what is relied on of them is in locales or named predicates. Of the sync library: it numbers
  publications one by one (\<open>svs_counts\<close>) and inserts for each at least one packet, with different names, each the
  node's name, the sync prefix and the number, perhaps followed by more (\<open>svs_packet_names\<close>), which is how the sample
  trust schema (rule \<open>dag record\<close>) and the tests' fixture name them; their content is a function of node, number,
  record name and the record's bytes. A validator may
  answer later or never where the code gives it callbacks; where it reads the answer at once, the late answer
  is undefined behaviour of the model.

  \<^bold>\<open>Events.\<close> The ledger's reachable states assume of an event (\<open>event_ok\<close>) that no packet, submitted or received as a
  payload, bears the name of an edge state, and that a received record came out of a decoder. The former is not checked by
  the code, which stores packets under any name. Names of the tracker and of payload maps are allowed.

  \<^bold>\<open>Bounds.\<close> The policy value of a state is a 32-bit number of names, so sessions of the DAG are bounded by \<open>2 ^ 30\<close>
  pointers (\<open>pointer_count\<close>, \<open>has_room\<close>), far below what storage could hold; blocks of a reply by \<open>2 ^ 31\<close> bytes
  (\<open>sendable\<close>). Loops are structural recursion, or functions with a termination proof: the search for ancestors
  (\<open>ancestorsLoop\<close>: the 32-bit count of those found grows in each round) and the choice of a certificate. The recursion over waiting
  records (\<open>verifyWaiting\<close>) ends because each entry that waits is taken once. The loop \<open>requestFrom\<close> of the former ledger may
  run for ever, so it is a partial function into options. No fuel is used. The retry limits are the code's.

  \<^bold>\<open>Properties.\<close> Safety and exactness of the DAG (the descendants are exactly what reaches a state, arrival order does not
  matter, interlocking is final and needs as many witnesses as the threshold says), refinement of its
  specification; the ledger's invariant over all reachable states; what submissions, received records, reply
  records and queries do, errors included; transfer of segmented replies over a lossy network; liveness of
  submission from the command line to the user's last line, and of a check; termination of all retries.
  Some theorems show what the code does where it does not do what it means to: queries for certificates are
  answered with Nacks in every reachable state, a ledger restarted on its storage loses submissions, fetches with
  the nonce 0 are answered again. They are listed as findings of the manifest.

  \<^bold>\<open>Not modelled.\<close> Log messages, the lifetime and nonce of interests, \<open>formatThroughput\<close>, opening a LevelDB
  database, the SVS protocol itself, and signals of the checker's and ledger's tools (the client's is modelled, and is
  the same code). Of the former ledger the random engine, and the callback that an application gives it, which is
  modelled by the records it is called with.
\<close>

end
